(* ===== verification/Prelude.thy ===== *)
theory Prelude
  imports Main
    "HOL-Library.Word" "HOL-Library.List_Lexorder" "HOL-Library.Char_ord" "HOL-Library.FSet"
begin

text \<open>
  Shared vocabulary of the development: the result type of fallible code, the numeric
  types of the source, the collections of simplification rules the component theories
  extend, and generic lemmas on lists and options.

  A Rust \<open>Result<T, E>\<close> is the sum \<open>E + T\<close> (\<open>Inl\<close> an error, \<open>Inr\<close> a value);
  \<open>Option<T>\<close> is \<open>'a option\<close>; \<open>usize\<close> values that are lengths or counts are \<open>nat\<close>;
  integers whose width matters are words.
\<close>

type_synonym u8 = "8 word"
type_synonym u32 = "32 word"
type_synonym u64 = "64 word"

named_theorems node_simps
  \<open>field and constructor facts of the node records\<close>
named_theorems graph_simps
  \<open>effect of the graph primitives (get, contains, push, update)\<close>
named_theorems op_elims
  \<open>what a successful operation did\<close>

section \<open>Results\<close>

abbreviation ok :: "'a \<Rightarrow> 'e + 'a" where
  "ok \<equiv> Inr"

abbreviation err :: "'e \<Rightarrow> 'e + 'a" where
  "err \<equiv> Inl"

text \<open>The \<open>?\<close> operator: an error leaves the enclosing function at once.\<close>

definition and_then :: "'e + 'a \<Rightarrow> ('a \<Rightarrow> 'e + 'b) \<Rightarrow> 'e + 'b" where
  "and_then r f = (case r of Inl e \<Rightarrow> Inl e | Inr x \<Rightarrow> f x)"

lemma and_then_simps [simp]:
  "and_then (Inl e) f = Inl e"
  "and_then (Inr x) f = f x"
  by (simp_all add: and_then_def)

lemma and_then_ok_iff: "and_then r f = Inr y \<longleftrightarrow> (\<exists>x. r = Inr x \<and> f x = Inr y)"
  by (cases r) auto

lemma and_then_err_iff:
  "and_then r f = Inl e \<longleftrightarrow> r = Inl e \<or> (\<exists>x. r = Inr x \<and> f x = Inl e)"
  by (cases r) auto

definition is_ok :: "'e + 'a \<Rightarrow> bool" where
  "is_ok r = (case r of Inl _ \<Rightarrow> False | Inr _ \<Rightarrow> True)"

lemma is_ok_iff: "is_ok r \<longleftrightarrow> (\<exists>x. r = Inr x)"
  by (cases r) (auto simp: is_ok_def)

section \<open>Options\<close>

text \<open>\<open>Option::unwrap_or\<close>.\<close>

definition unwrap_or :: "'a option \<Rightarrow> 'a \<Rightarrow> 'a" where
  "unwrap_or o' d = (case o' of None \<Rightarrow> d | Some x \<Rightarrow> x)"

lemma unwrap_or_simps [simp]:
  "unwrap_or None d = d"
  "unwrap_or (Some x) d = x"
  by (simp_all add: unwrap_or_def)

section \<open>Lists\<close>

text \<open>
  Pushing the elements of a list that are not there yet, one by one, as
  \<open>if !xs.contains(&x) { xs.push(x) }\<close> in a loop does.
\<close>

fun push_missing :: "'a list \<Rightarrow> 'a list \<Rightarrow> 'a list" where
  "push_missing xs [] = xs"
| "push_missing xs (y # ys) =
     push_missing (if y \<in> set xs then xs else xs @ [y]) ys"

lemma set_push_missing [simp]: "set (push_missing xs ys) = set xs \<union> set ys"
  by (induction xs ys rule: push_missing.induct) auto

lemma push_missing_distinct: "distinct xs \<Longrightarrow> distinct (push_missing xs ys)"
  by (induction xs ys rule: push_missing.induct) auto

lemma push_missing_id: "set ys \<subseteq> set xs \<Longrightarrow> push_missing xs ys = xs"
  by (induction xs ys rule: push_missing.induct) auto

text \<open>
  \<open>filter(|x| seen.insert(x.clone()))\<close>: keeps the first occurrence of each element.
\<close>

fun dedup_acc :: "'a set \<Rightarrow> 'a list \<Rightarrow> 'a list" where
  "dedup_acc seen [] = []"
| "dedup_acc seen (x # xs) =
     (if x \<in> seen then dedup_acc seen xs else x # dedup_acc (insert x seen) xs)"

definition dedup :: "'a list \<Rightarrow> 'a list" where
  "dedup xs = dedup_acc {} xs"

lemma set_dedup_acc: "set (dedup_acc seen xs) = set xs - seen"
  by (induction seen xs rule: dedup_acc.induct) auto

lemma set_dedup [simp]: "set (dedup xs) = set xs"
  by (simp add: dedup_def set_dedup_acc)

lemma distinct_dedup_acc: "distinct (dedup_acc seen xs)"
  by (induction seen xs rule: dedup_acc.induct) (auto simp: set_dedup_acc)

lemma distinct_dedup [simp]: "distinct (dedup xs)"
  by (simp add: dedup_def distinct_dedup_acc)

text \<open>First element with a property (\<open>Iterator::find\<close>).\<close>

lemma find_SomeD: "find P xs = Some x \<Longrightarrow> x \<in> set xs \<and> P x"
  by (induction xs) (auto split: if_splits)

lemma find_None_iff_all: "find P xs = None \<longleftrightarrow> (\<forall>x \<in> set xs. \<not> P x)"
  by (induction xs) auto

lemma find_append:
  "find P (xs @ ys) = (case find P xs of None \<Rightarrow> find P ys | Some x \<Rightarrow> Some x)"
  by (induction xs) auto

lemma find_key_unique:
  assumes "distinct (map k xs)" and "x \<in> set xs"
  shows "find (\<lambda>y. k y = k x) xs = Some x"
  using assms by (induction xs) auto

lemma distinct_key_eq:
  "distinct (map k xs) \<Longrightarrow> x \<in> set xs \<Longrightarrow> y \<in> set xs \<Longrightarrow> k x = k y \<Longrightarrow> x = y"
  by (simp add: distinct_map inj_on_def)

lemma filter_empty_iff: "filter P xs = [] \<longleftrightarrow> (\<forall>x \<in> set xs. \<not> P x)"
  by (induction xs) auto

text \<open>Sorting by two keys, the minor one first (\<open>sort_by\<close> with \<open>then_with\<close>).\<close>

definition lex_le :: "('a \<Rightarrow> 'b::linorder) \<Rightarrow> ('a \<Rightarrow> 'c::linorder) \<Rightarrow> 'a \<Rightarrow> 'a \<Rightarrow> bool" where
  "lex_le f k a b \<longleftrightarrow> f a < f b \<or> f a = f b \<and> k a \<le> k b"

lemma insort_key_lex:
  "sorted_wrt (lex_le f k) ys \<Longrightarrow> \<forall>y \<in> set ys. k x \<le> k y
     \<Longrightarrow> sorted_wrt (lex_le f k) (insort_key f x ys)"
proof (induction ys)
  case (Cons y ys)
  show ?case
  proof (cases "f x \<le> f y")
    case True
    then have "lex_le f k x z" if "z \<in> set (y # ys)" for z
      using that Cons.prems by (auto simp: lex_le_def)
    then show ?thesis using True Cons.prems(1) by simp
  next
    case False
    then have "lex_le f k y x" by (simp add: lex_le_def not_le)
    then show ?thesis using False Cons by (simp add: set_insort_key)
  qed
qed simp

lemma sort_key_lex: "sorted (map k xs) \<Longrightarrow> sorted_wrt (lex_le f k) (sort_key f xs)"
  by (induction xs) (auto intro: insort_key_lex)

lemma sort_key_twice: "sorted_wrt (lex_le f k) (sort_key f (sort_key k xs))"
  by (rule sort_key_lex) simp

text \<open>Sorting a mapped list, and sorting by keys that agree on it.\<close>

lemma insort_key_map: "insort_key k (f x) (map f xs) = map f (insort_key (\<lambda>x. k (f x)) x xs)"
  by (induction xs) auto

lemma sort_key_map: "sort_key k (map f xs) = map f (sort_key (\<lambda>x. k (f x)) xs)"
  by (induction xs) (simp_all add: insort_key_map)

lemma sort_key_cong_on:
  assumes "\<forall>x \<in> set xs. k x = l x"
  shows "sort_key k xs = sort_key l xs"
  using assms
proof (induction xs)
  case (Cons x xs)
  have "insort_key k x ys = insort_key l x ys" if "\<forall>y \<in> insert x (set ys). k y = l y" for ys
    using that by (induction ys) auto
  from this [of "sort_key k xs"] show ?case using Cons by simp
qed simp

end
