(* ===== verification/Rust_Str.thy ===== *)
theory Rust_Str
  imports Prelude
begin

text \<open>
  Rust strings. A \<open>String\<close> is its sequence of UTF-8 bytes, so it is modelled by HOL's
  \<open>string\<close>, whose characters are bytes; \<open>len\<close> is \<open>length\<close>, and the byte-wise
  lexicographic \<open>Ord\<close> of \<open>str\<close> is the order of \<open>HOL-Library.List_Lexorder\<close> over
  \<open>Char_ord\<close>. Operations that count or cut at characters group a leading byte with
  its continuation bytes (\<open>0x80..=0xBF\<close>). These are the operations of the standard
  library the modelled crates call.
\<close>

section \<open>Bytes\<close>

definition byte :: "char \<Rightarrow> nat" where
  "byte c = of_char c"

definition is_cont :: "char \<Rightarrow> bool" where
  "is_cont c \<longleftrightarrow> 128 \<le> byte c \<and> byte c < 192"

definition is_ascii_digit :: "char \<Rightarrow> bool" where
  "is_ascii_digit c \<longleftrightarrow> 48 \<le> byte c \<and> byte c \<le> 57"

definition is_ascii_upper :: "char \<Rightarrow> bool" where
  "is_ascii_upper c \<longleftrightarrow> 65 \<le> byte c \<and> byte c \<le> 90"

definition is_ascii_lower :: "char \<Rightarrow> bool" where
  "is_ascii_lower c \<longleftrightarrow> 97 \<le> byte c \<and> byte c \<le> 122"

definition is_ascii_alphanumeric :: "char \<Rightarrow> bool" where
  "is_ascii_alphanumeric c \<longleftrightarrow> is_ascii_digit c \<or> is_ascii_upper c \<or> is_ascii_lower c"

definition to_lower :: "char \<Rightarrow> char" where
  "to_lower c = (if is_ascii_upper c then char_of (byte c + 32) else c)"

definition to_ascii_lowercase :: "string \<Rightarrow> string" where
  "to_ascii_lowercase s = map to_lower s"

definition eq_ignore_ascii_case :: "string \<Rightarrow> string \<Rightarrow> bool" where
  "eq_ignore_ascii_case s t \<longleftrightarrow> to_ascii_lowercase s = to_ascii_lowercase t"

lemmas byte_defs = byte_def is_cont_def is_ascii_digit_def is_ascii_upper_def
  is_ascii_lower_def is_ascii_alphanumeric_def to_lower_def to_ascii_lowercase_def

section \<open>Prefixes, search, splitting\<close>

fun strip_prefix :: "string \<Rightarrow> string \<Rightarrow> string option" where
  "strip_prefix [] s = Some s"
| "strip_prefix (p # ps) [] = None"
| "strip_prefix (p # ps) (c # cs) = (if p = c then strip_prefix ps cs else None)"

definition starts_with :: "string \<Rightarrow> string \<Rightarrow> bool" where
  "starts_with s p \<longleftrightarrow> strip_prefix p s \<noteq> None"

definition ends_with :: "string \<Rightarrow> string \<Rightarrow> bool" where
  "ends_with s p \<longleftrightarrow> starts_with (rev s) (rev p)"

text \<open>\<open>str::find(&str)\<close>: byte offset of the first occurrence.\<close>

fun find_str :: "string \<Rightarrow> string \<Rightarrow> nat option" where
  "find_str [] p = (if p = [] then Some 0 else None)"
| "find_str (c # cs) p =
     (if starts_with (c # cs) p then Some 0 else map_option Suc (find_str cs p))"

definition contains :: "string \<Rightarrow> string \<Rightarrow> bool" where
  "contains s p \<longleftrightarrow> find_str s p \<noteq> None"

lemma strip_prefix_iff: "strip_prefix p s = Some r \<longleftrightarrow> s = p @ r"
  by (induction p s rule: strip_prefix.induct) auto

lemma starts_with_iff: "starts_with s p \<longleftrightarrow> (\<exists>r. s = p @ r)"
  by (auto simp: starts_with_def strip_prefix_iff[symmetric])

lemma starts_with_self_append [simp]: "starts_with (p @ r) p"
  by (auto simp: starts_with_iff)

lemma ends_with_iff: "ends_with s p \<longleftrightarrow> (\<exists>r. s = r @ p)"
proof -
  have "(\<exists>r. rev s = rev p @ r) \<longleftrightarrow> (\<exists>r. s = r @ p)"
    by (metis rev_append rev_rev_ident)
  then show ?thesis by (simp add: ends_with_def starts_with_iff)
qed

lemma find_str_SomeD:
  "find_str s p = Some i \<Longrightarrow> \<exists>pre post. s = pre @ p @ post \<and> length pre = i"
proof (induction s p arbitrary: i rule: find_str.induct)
  case (1 p)
  then show ?case by (auto split: if_splits)
next
  case (2 c cs p)
  show ?case
  proof (cases "starts_with (c # cs) p")
    case True
    then obtain r where "c # cs = p @ r" by (auto simp: starts_with_iff)
    moreover from True 2 have "i = 0" by simp
    ultimately show ?thesis by (metis append_Nil list.size(3))
  next
    case False
    with 2 obtain j where "find_str cs p = Some j" and "i = Suc j" by auto
    with 2 False obtain pre post where "cs = pre @ p @ post" "length pre = j" by blast
    then have "c # cs = (c # pre) @ p @ post \<and> length (c # pre) = i"
      using \<open>i = Suc j\<close> by simp
    then show ?thesis by blast
  qed
qed

lemma find_str_leastD:
  "find_str s p = Some i \<Longrightarrow> s = pre @ p @ post \<Longrightarrow> i \<le> length pre"
proof (induction s p arbitrary: i pre rule: find_str.induct)
  case (1 p)
  then show ?case by (simp split: if_splits)
next
  case (2 c cs p)
  show ?case
  proof (cases "starts_with (c # cs) p")
    case True
    then have "find_str (c # cs) p = Some 0" by simp
    with 2(2) have "i = 0" by (metis option.inject)
    then show ?thesis by simp
  next
    case False
    with 2(3) obtain d pre' where pre: "pre = d # pre'"
      by (metis append_Nil starts_with_self_append neq_Nil_conv)
    from 2(2) False obtain j where j: "find_str cs p = Some j" "i = Suc j" by auto
    from 2(3) pre have "cs = pre' @ p @ post" by simp
    with 2(1) False j have "j \<le> length pre'" by blast
    with j pre show ?thesis by simp
  qed
qed

lemma contains_iff: "contains s p \<longleftrightarrow> (\<exists>pre post. s = pre @ p @ post)"
proof
  assume "contains s p"
  then show "\<exists>pre post. s = pre @ p @ post"
    using find_str_SomeD by (fastforce simp: contains_def)
next
  have "find_str (pre @ p @ post) p \<noteq> None" for pre post
    by (induction pre) (cases p; cases post; auto simp: starts_with_iff)+
  then show "\<exists>pre post. s = pre @ p @ post \<Longrightarrow> contains s p"
    by (auto simp: contains_def)
qed

lemma contains_infix [simp, intro]: "contains (pre @ p @ post) p"
  by (auto simp: contains_iff)

lemma contains_append_mono: "contains s p \<Longrightarrow> contains (a @ s @ b) p"
  by (metis append.assoc contains_iff)

fun join :: "string \<Rightarrow> string list \<Rightarrow> string" where
  "join sep [] = []"
| "join sep [x] = x"
| "join sep (x # xs) = x @ sep @ join sep xs"

section \<open>Characters\<close>

text \<open>The characters of a string, each as its bytes.\<close>

fun chars :: "string \<Rightarrow> string list" where
  "chars [] = []"
| "chars (c # cs) =
     (case chars cs of
        [] \<Rightarrow> [[c]]
      | g # gs \<Rightarrow> (if is_cont (hd g) then (c # g) # gs else [c] # g # gs))"

definition char_count :: "string \<Rightarrow> nat" where
  "char_count s = length (chars s)"

definition take_chars :: "nat \<Rightarrow> string \<Rightarrow> string" where
  "take_chars n s = concat (take n (chars s))"

lemma concat_chars [simp]: "concat (chars s) = s"
  by (induction s) (auto split: list.splits)

lemma chars_nonempty: "g \<in> set (chars s) \<Longrightarrow> g \<noteq> []"
  by (induction s arbitrary: g) (auto split: list.splits if_splits)

lemma chars_length_le: "length (chars s) \<le> length s"
  by (induction s) (auto split: list.splits)

section \<open>White space\<close>

text \<open>
  \<open>char::is_whitespace\<close> is the Unicode property \<open>White_Space\<close>: the listed UTF-8
  sequences. \<open>ws_len s\<close> is the number of bytes of the white-space character \<open>s\<close>
  starts with, 0 if it starts with another character.
\<close>

definition ws_encodings :: "nat list list" where
  "ws_encodings =
     [[9], [10], [11], [12], [13], [32], [194, 133], [194, 160], [225, 154, 128],
      [226, 128, 128], [226, 128, 129], [226, 128, 130], [226, 128, 131],
      [226, 128, 132], [226, 128, 133], [226, 128, 134], [226, 128, 135],
      [226, 128, 136], [226, 128, 137], [226, 128, 138], [226, 128, 168],
      [226, 128, 169], [226, 128, 175], [226, 129, 159], [227, 128, 128]]"

fun is_ws_prefix :: "nat list \<Rightarrow> string \<Rightarrow> bool" where
  "is_ws_prefix [] s = True"
| "is_ws_prefix (b # bs) [] = False"
| "is_ws_prefix (b # bs) (c # cs) = (byte c = b \<and> is_ws_prefix bs cs)"

definition ws_len :: "string \<Rightarrow> nat" where
  "ws_len s = (case find (\<lambda>e. is_ws_prefix e s) ws_encodings of None \<Rightarrow> 0 | Some e \<Rightarrow> length e)"

text \<open>The same at the end of a string, on the reversed string.\<close>

definition ws_len_rev :: "string \<Rightarrow> nat" where
  "ws_len_rev s =
     (case find (\<lambda>e. is_ws_prefix (rev e) s) ws_encodings of None \<Rightarrow> 0 | Some e \<Rightarrow> length e)"

fun trim_start :: "string \<Rightarrow> string" where
  "trim_start [] = []"
| "trim_start (c # cs) =
     (case ws_len (c # cs) of 0 \<Rightarrow> c # cs | Suc n \<Rightarrow> trim_start (drop n cs))"

fun trim_rev :: "string \<Rightarrow> string" where
  "trim_rev [] = []"
| "trim_rev (c # cs) =
     (case ws_len_rev (c # cs) of 0 \<Rightarrow> c # cs | Suc n \<Rightarrow> trim_rev (drop n cs))"

definition trim_end :: "string \<Rightarrow> string" where
  "trim_end s = rev (trim_rev (rev s))"

definition trim :: "string \<Rightarrow> string" where
  "trim s = trim_end (trim_start s)"

text \<open>\<open>split_whitespace\<close>: the maximal runs of non-white-space characters.\<close>

fun split_ws_acc :: "string \<Rightarrow> string \<Rightarrow> string list" where
  "split_ws_acc acc [] = (if acc = [] then [] else [rev acc])"
| "split_ws_acc acc (c # cs) =
     (case ws_len (c # cs) of
        0 \<Rightarrow> split_ws_acc (c # acc) cs
      | Suc n \<Rightarrow> (if acc = [] then [] else [rev acc]) @ split_ws_acc [] (drop n cs))"

definition split_whitespace :: "string \<Rightarrow> string list" where
  "split_whitespace s = split_ws_acc [] s"

text \<open>\<open>str::lines\<close>: split after each newline, without the line ending.\<close>

definition strip_cr :: "string \<Rightarrow> string" where
  "strip_cr l = (if l \<noteq> [] \<and> byte (last l) = 13 then butlast l else l)"

fun lines_acc :: "string \<Rightarrow> string \<Rightarrow> string list" where
  "lines_acc acc [] = (if acc = [] then [] else [rev acc])"
| "lines_acc acc (c # cs) =
     (if byte c = 10 then strip_cr (rev acc) # lines_acc [] cs else lines_acc (c # acc) cs)"

definition lines :: "string \<Rightarrow> string list" where
  "lines s = lines_acc [] s"

definition nl :: string where
  "nl = [CHR 0x0A]"

section \<open>Numbers\<close>

definition digit_char :: "nat \<Rightarrow> char" where
  "digit_char d = char_of (48 + d)"

text \<open>\<open>usize\<close> to decimal text (\<open>to_string\<close>, \<open>{}\<close>).\<close>

fun show_nat :: "nat \<Rightarrow> string" where
  "show_nat n = (if n < 10 then [digit_char n] else show_nat (n div 10) @ [digit_char (n mod 10)])"

declare show_nat.simps [simp del]

definition digit_val :: "char \<Rightarrow> nat" where
  "digit_val c = byte c - 48"

fun digits_val_acc :: "nat \<Rightarrow> string \<Rightarrow> nat" where
  "digits_val_acc a [] = a"
| "digits_val_acc a (c # cs) = digits_val_acc (10 * a + digit_val c) cs"

definition digits_val :: "string \<Rightarrow> nat" where
  "digits_val s = digits_val_acc 0 s"

lemma digits_val_acc_append: "digits_val_acc a (s @ t) = digits_val_acc (digits_val_acc a s) t"
  by (induction a s rule: digits_val_acc.induct) auto

lemma byte_digit_char: "d < 10 \<Longrightarrow> byte (digit_char d) = 48 + d"
  by (simp add: byte_def digit_char_def)

lemma digits_val_show_nat [simp]: "digits_val (show_nat n) = n"
proof (induction n rule: show_nat.induct)
  case (1 n)
  show ?case
  proof (cases "n < 10")
    case True
    then show ?thesis
      by (subst show_nat.simps) (simp add: digits_val_def digit_val_def byte_digit_char)
  next
    case False
    with 1 have "digits_val_acc 0 (show_nat (n div 10)) = n div 10"
      by (simp add: digits_val_def)
    with False show ?thesis
      by (subst show_nat.simps)
        (simp add: digits_val_def digits_val_acc_append digit_val_def byte_digit_char)
  qed
qed

lemma show_nat_inj: "show_nat m = show_nat n \<longleftrightarrow> m = n"
  by (metis digits_val_show_nat)

lemma show_nat_digits: "c \<in> set (show_nat n) \<Longrightarrow> is_ascii_digit c"
proof (induction n rule: show_nat.induct)
  case (1 n)
  have d: "is_ascii_digit (digit_char k)" if "k < 10" for k
    using that by (simp add: is_ascii_digit_def byte_digit_char)
  show ?case
    using 1 d by (subst (asm) (2) show_nat.simps) (auto split: if_splits)
qed

end
