(* ===== verification/F64.thy ===== *)
theory F64
  imports Rust_Str
begin

text \<open>
  The non-negative IEEE 754 binary64 arithmetic that the confidence parser uses: decimal
  text to the nearest double (ties to even, gradual underflow, overflow to infinity),
  multiplication, division and comparison. A finite value is \<open>Fin m e\<close>, that is
  \<open>m * 2 ^ e\<close>.
\<close>

datatype f64 = Fin int int | Inf | NaN

function bitlen :: "int \<Rightarrow> int" where
  "bitlen n = (if n \<le> 0 then 0 else 1 + bitlen (n div 2))"
  by pat_completeness auto
termination
  by (relation "measure nat") auto

declare bitlen.simps [simp del]

definition round_half_even :: "int \<Rightarrow> int \<Rightarrow> int" where
  "round_half_even n d =
     (let q = n div d; r = n mod d
      in if 2 * r < d \<or> (2 * r = d \<and> even q) then q else q + 1)"

text \<open>Numerator and denominator of \<open>n / d / 2 ^ e\<close>.\<close>

definition scaled :: "int \<Rightarrow> int \<Rightarrow> int \<Rightarrow> int \<times> int" where
  "scaled n d e = (if 0 \<le> e then (n, d * 2 ^ nat e) else (n * 2 ^ nat (- e), d))"

text \<open>The double nearest to \<open>n / d\<close> (\<open>0 \<le> n\<close>, \<open>0 < d\<close>).\<close>

definition f64_of_ratio :: "int \<Rightarrow> int \<Rightarrow> f64" where
  "f64_of_ratio n d =
     (if n = 0 then Fin 0 0
      else
        let e0 = bitlen n - bitlen d - 53;
            (a0, b0) = scaled n d e0;
            e1 = (if b0 * 2 ^ 53 \<le> a0 then e0 + 1 else e0);
            e = max e1 (-1074);
            (a, b) = scaled n d e;
            m = round_half_even a b
        in if 971 < e \<or> (e = 971 \<and> 2 ^ 53 \<le> m) then Inf else Fin m e)"

fun f64_mul :: "f64 \<Rightarrow> f64 \<Rightarrow> f64" where
  "f64_mul (Fin m1 e1) (Fin m2 e2) =
     (let e = e1 + e2
      in if 0 \<le> e then f64_of_ratio (m1 * m2 * 2 ^ nat e) 1
         else f64_of_ratio (m1 * m2) (2 ^ nat (- e)))"
| "f64_mul NaN _ = NaN"
| "f64_mul _ NaN = NaN"
| "f64_mul (Fin m _) Inf = (if m = 0 then NaN else Inf)"
| "f64_mul Inf (Fin m _) = (if m = 0 then NaN else Inf)"
| "f64_mul Inf Inf = Inf"

fun f64_div :: "f64 \<Rightarrow> f64 \<Rightarrow> f64" where
  "f64_div (Fin m1 e1) (Fin m2 e2) =
     (if m2 = 0 then (if m1 = 0 then NaN else Inf)
      else let e = e1 - e2
           in if 0 \<le> e then f64_of_ratio (m1 * 2 ^ nat e) m2
              else f64_of_ratio m1 (m2 * 2 ^ nat (- e)))"
| "f64_div NaN _ = NaN"
| "f64_div _ NaN = NaN"
| "f64_div (Fin _ _) Inf = Fin 0 0"
| "f64_div Inf (Fin _ _) = Inf"
| "f64_div Inf Inf = NaN"

fun f64_less :: "f64 \<Rightarrow> f64 \<Rightarrow> bool" where
  "f64_less (Fin m1 e1) (Fin m2 e2) =
     (if e1 \<le> e2 then m1 < m2 * 2 ^ nat (e2 - e1) else m1 * 2 ^ nat (e1 - e2) < m2)"
| "f64_less (Fin _ _) Inf = True"
| "f64_less _ _ = False"

fun f64_le :: "f64 \<Rightarrow> f64 \<Rightarrow> bool" where
  "f64_le (Fin m1 e1) (Fin m2 e2) =
     (if e1 \<le> e2 then m1 \<le> m2 * 2 ^ nat (e2 - e1) else m1 * 2 ^ nat (e1 - e2) \<le> m2)"
| "f64_le (Fin _ _) Inf = True"
| "f64_le Inf Inf = True"
| "f64_le _ _ = False"

definition f64_nat :: "int \<Rightarrow> f64" where
  "f64_nat n = Fin n 0"

text \<open>
  \<open>str::parse::<f64>\<close> on a token of digits and dots: at most one dot and at least one
  digit, otherwise an error.
\<close>

definition f64_parse :: "string \<Rightarrow> f64 option" where
  "f64_parse tok =
     (let ip = takeWhile is_ascii_digit tok; rest = dropWhile is_ascii_digit tok
      in case rest of
           [] \<Rightarrow> (if ip = [] then None else Some (f64_of_ratio (int (digits_val ip)) 1))
         | c # fp \<Rightarrow>
             (if c = CHR ''.'' \<and> list_all is_ascii_digit fp \<and> (ip \<noteq> [] \<or> fp \<noteq> [])
              then Some (f64_of_ratio (int (digits_val (ip @ fp))) (10 ^ length fp))
              else None))"

section \<open>Facts\<close>

lemma bitlen_bounds: "0 < n \<Longrightarrow> 0 < bitlen n \<and> 2 ^ nat (bitlen n - 1) \<le> n \<and> n < 2 ^ nat (bitlen n)"
proof (induction n rule: bitlen.induct)
  case (1 n)
  show ?case
  proof (cases "n = 1")
    case True
    then show ?thesis by (simp add: bitlen.simps)
  next
    case False
    with 1 have IH: "0 < bitlen (n div 2)" "2 ^ nat (bitlen (n div 2) - 1) \<le> n div 2"
      "n div 2 < 2 ^ nat (bitlen (n div 2))" by auto
    let ?b = "bitlen (n div 2)"
    have b: "bitlen n = 1 + ?b" using 1 by (subst bitlen.simps) simp
    have "nat ?b = Suc (nat (?b - 1))" using IH(1) by simp
    then have p: "(2::int) ^ nat ?b = 2 * 2 ^ nat (?b - 1)" by simp
    have "nat (1 + ?b) = Suc (nat ?b)" using IH(1) by simp
    then have "(2::int) ^ nat (1 + ?b) = 2 * 2 ^ nat ?b" by simp
    moreover have "2 * (n div 2) \<le> n" "n < 2 * (n div 2) + 2" by simp_all
    ultimately show ?thesis using IH p b by (simp only: add_diff_cancel_left') linarith
  qed
qed

lemma round_half_even_nearest:
  assumes "0 < d"
  shows "2 * \<bar>round_half_even n d * d - n\<bar> \<le> d"
proof -
  have n: "(n div d) * d + n mod d = n" and r: "0 \<le> n mod d" "n mod d < d"
    using assms by simp_all
  from n have "(n div d) * d - n = - (n mod d)" by linarith
  moreover from n have "(n div d + 1) * d - n = d - n mod d" by (simp only: distrib_right)
  ultimately show ?thesis using r by (auto simp: round_half_even_def Let_def)
qed

lemma f64_not_less_NaN [simp]: "\<not> f64_less NaN x" "\<not> f64_less x NaN"
  by (cases x; simp)+

end
