(* ===== verification/Kahn.thy ===== *)
theory Kahn
  imports Prelude
begin

text \<open>
  Kahn's algorithm over an edge list, as the two cycle detectors of the plan crate run
  it: an indegree table, a stack of the vertices whose indegree reached zero, and a set
  of visited vertices. An edge \<open>(d, c)\<close> says that \<open>c\<close> waits for \<open>d\<close>; an edge may occur
  more than once. The result is related to \<open>Wellfounded.acc\<close>, the vertices that sit on no
  cycle and behind no cycle.
\<close>

section \<open>The algorithm\<close>

text \<open>
  Relaxing the out-edges of \<open>x\<close>: each occurrence decrements the indegree of its target
  (saturating at 0) and pushes the target when the indegree is 0 afterwards. The stack is
  kept with its top first.
\<close>

fun relax :: "('a \<times> 'a) list \<Rightarrow> 'a \<Rightarrow> ('a \<rightharpoonup> nat) \<times> 'a list \<Rightarrow> ('a \<rightharpoonup> nat) \<times> 'a list" where
  "relax [] x (deg, q) = (deg, q)"
| "relax ((d, c) # es) x (deg, q) =
     (if d = x then
        (case deg c of
           None \<Rightarrow> relax es x (deg, q)
         | Some k \<Rightarrow> relax es x (deg(c \<mapsto> k - 1), if k - 1 = 0 then c # q else q))
      else relax es x (deg, q))"

lemma relax_stack_subset: "set (snd (relax es x (deg, q))) \<subseteq> set q \<union> snd ` set es"
proof (induction es arbitrary: deg q)
  case Nil
  then show ?case by simp
next
  case (Cons e es)
  obtain d c where e: "e = (d, c)" by force
  have "set (snd (relax es x (deg', q'))) \<subseteq> insert c (set q \<union> snd ` set es)"
    if "set q' \<subseteq> insert c (set q)" for deg' q'
    using Cons.IH [of deg' q'] that by auto
  then show ?case by (auto simp: e split: option.splits; blast)
qed

lemma unvisited_decreases:
  assumes "finite B" and "set q' \<subseteq> set q \<union> B" and "x \<notin> V"
  shows "card ((set q' \<union> B) - insert x V) < card ((set (x # q) \<union> B) - V)"
proof (rule psubset_card_mono)
  show "finite ((set (x # q) \<union> B) - V)" using assms(1) by simp
  show "(set q' \<union> B) - insert x V \<subset> (set (x # q) \<union> B) - V" using assms by auto
qed

lemma unvisited_skip:
  assumes "x \<in> V"
  shows "(set (x # q) \<union> B) - V = (set q \<union> B) - V"
  using assms by auto

function kahn_loop :: "('a \<times> 'a) list \<Rightarrow> ('a \<rightharpoonup> nat) \<Rightarrow> 'a list \<Rightarrow> 'a set \<Rightarrow> 'a set" where
  "kahn_loop es deg [] V = V"
| "kahn_loop es deg (x # q) V =
     (if x \<in> V then kahn_loop es deg q V
      else kahn_loop es (fst (relax es x (deg, q))) (snd (relax es x (deg, q))) (insert x V))"
  by pat_completeness auto

termination
proof (relation "measures [\<lambda>(es, deg, q, V). card ((set q \<union> snd ` set es) - V),
    \<lambda>(es, deg, q, V). length q]", goal_cases)
  case 1
  show ?case by simp
next
  case (2 es deg x q V)
  then show ?case using unvisited_skip [of x V q "snd ` set es"] by simp
next
  case (3 es deg x q V)
  have "card ((set (snd (relax es x (deg, q))) \<union> snd ` set es) - insert x V)
      < card ((set (x # q) \<union> snd ` set es) - V)"
    by (intro unvisited_decreases finite_imageI finite_set relax_stack_subset 3)
  then show ?case by simp
qed

text \<open>The same loop with the indegree table it ends with.\<close>

function kahn_run ::
  "('a \<times> 'a) list \<Rightarrow> ('a \<rightharpoonup> nat) \<Rightarrow> 'a list \<Rightarrow> 'a set \<Rightarrow> ('a \<rightharpoonup> nat) \<times> 'a set" where
  "kahn_run es deg [] V = (deg, V)"
| "kahn_run es deg (x # q) V =
     (if x \<in> V then kahn_run es deg q V
      else kahn_run es (fst (relax es x (deg, q))) (snd (relax es x (deg, q))) (insert x V))"
  by pat_completeness auto

termination
proof (relation "measures [\<lambda>(es, deg, q, V). card ((set q \<union> snd ` set es) - V),
    \<lambda>(es, deg, q, V). length q]", goal_cases)
  case 1
  show ?case by simp
next
  case (2 es deg x q V)
  then show ?case using unvisited_skip [of x V q "snd ` set es"] by simp
next
  case (3 es deg x q V)
  have "card ((set (snd (relax es x (deg, q))) \<union> snd ` set es) - insert x V)
      < card ((set (x # q) \<union> snd ` set es) - V)"
    by (intro unvisited_decreases finite_imageI finite_set relax_stack_subset 3)
  then show ?case by simp
qed

lemma kahn_run_visited: "snd (kahn_run es deg q V) = kahn_loop es deg q V"
  by (induction es deg q V rule: kahn_run.induct) simp_all

section \<open>What relaxing does\<close>

lemma relax_effect:
  assumes "\<And>c. (x, c) \<in> set es \<Longrightarrow> \<exists>k. deg c = Some k \<and> count_list es (x, c) \<le> k"
    and "relax es x (deg, q) = (deg', q')"
  shows "deg' = (\<lambda>c. map_option (\<lambda>k. k - count_list es (x, c)) (deg c))
    \<and> set q' = set q \<union> {c. (x, c) \<in> set es \<and> deg c = Some (count_list es (x, c))}"
  using assms
proof (induction es arbitrary: deg q)
  case Nil
  then show ?case by (auto simp: option.map_ident)
next
  case (Cons e es)
  obtain d c where e: "e = (d, c)" by force
  show ?case
  proof (cases "d = x")
    case False
    then have "relax es x (deg, q) = (deg', q')" using Cons.prems(2) e by simp
    moreover have "\<exists>k. deg b = Some k \<and> count_list es (x, b) \<le> k" if "(x, b) \<in> set es" for b
      using Cons.prems(1) [of b] that e False by auto
    ultimately show ?thesis using Cons.IH [of deg q] e False by simp
  next
    case True
    from Cons.prems(1) [of c] e True obtain k where
      k: "deg c = Some k" "Suc (count_list es (x, c)) \<le> k" by auto
    let ?deg = "deg(c \<mapsto> k - 1)" and ?q = "if k - 1 = 0 then c # q else q"
    have eq: "relax es x (?deg, ?q) = (deg', q')" using Cons.prems(2) e True k by simp
    have pre: "\<exists>k. ?deg b = Some k \<and> count_list es (x, b) \<le> k" if "(x, b) \<in> set es" for b
      using Cons.prems(1) [of b] that e True k by (cases "b = c") auto
    from Cons.IH [OF pre eq]
    have deg': "deg' = (\<lambda>b. map_option (\<lambda>k. k - count_list es (x, b)) (?deg b))"
      and q': "set q' = set ?q \<union> {b. (x, b) \<in> set es \<and> ?deg b = Some (count_list es (x, b))}"
      by blast+
    have "deg' = (\<lambda>b. map_option (\<lambda>k. k - count_list (e # es) (x, b)) (deg b))"
      using k e True by (auto simp: deg' fun_eq_iff)
    moreover have "set q' = set q \<union>
        {b. (x, b) \<in> set (e # es) \<and> deg b = Some (count_list (e # es) (x, b))}"
    proof -
      have "k = 1 \<longleftrightarrow> count_list es (x, c) = 0 \<and> k - 1 = 0" using k by auto
      moreover have "(x, c) \<in> set es \<longleftrightarrow> count_list es (x, c) \<noteq> 0"
        by (simp add: count_list_0_iff)
      ultimately show ?thesis
        using k e True by (auto simp: q' split: if_splits)
    qed
    ultimately show ?thesis by blast
  qed
qed

section \<open>Correctness\<close>

text \<open>
  The interface of a cycle detector: a finite vertex set and an edge list inside it.
  The two detectors interpret it on their own graphs.
\<close>

definition indegree_in :: "('a \<times> 'a) list \<Rightarrow> 'a set \<Rightarrow> 'a \<Rightarrow> nat" where
  "indegree_in es V c = length (filter (\<lambda>(d, e). e = c \<and> d \<notin> V) es)"

lemma indegree_in_insert:
  assumes "x \<notin> V"
  shows "indegree_in es (insert x V) c = indegree_in es V c - count_list es (x, c)"
    and "count_list es (x, c) \<le> indegree_in es V c"
proof -
  have "indegree_in es V c = indegree_in es (insert x V) c + count_list es (x, c)"
    using assms by (induction es) (auto simp: indegree_in_def)
  then show "indegree_in es (insert x V) c = indegree_in es V c - count_list es (x, c)"
    and "count_list es (x, c) \<le> indegree_in es V c" by simp_all
qed

lemma indegree_in_0_iff: "indegree_in es V c = 0 \<longleftrightarrow> (\<forall>d. (d, c) \<in> set es \<longrightarrow> d \<in> V)"
  by (auto simp: indegree_in_def filter_empty_iff)

locale kahn_graph =
  fixes verts :: "'a set" and es :: "('a \<times> 'a) list"
  assumes edges_within: "set es \<subseteq> verts \<times> verts"
begin

lemma edge_verts: "(d, c) \<in> set es \<Longrightarrow> d \<in> verts \<and> c \<in> verts"
  using edges_within by blast

definition kahn_inv :: "('a \<rightharpoonup> nat) \<Rightarrow> 'a list \<Rightarrow> 'a set \<Rightarrow> bool" where
  "kahn_inv deg q V \<longleftrightarrow>
     (\<forall>c \<in> verts. deg c = Some (indegree_in es V c)) \<and>
     (\<forall>c \<in> verts. indegree_in es V c = 0 \<longrightarrow> c \<in> V \<union> set q) \<and>
     (\<forall>x \<in> V \<union> set q. x \<in> verts \<and> (\<forall>d. (d, x) \<in> set es \<longrightarrow> d \<in> V)) \<and>
     V \<subseteq> Wellfounded.acc (set es)"

lemma kahn_inv_step:
  assumes inv: "kahn_inv deg (x # q) V" and x: "x \<notin> V"
    and r: "relax es x (deg, q) = (deg', q')"
  shows "kahn_inv deg' q' (insert x V)"
proof -
  have deg: "deg c = Some (indegree_in es V c)" if "c \<in> verts" for c
    using inv that by (simp add: kahn_inv_def)
  have "\<exists>k. deg c = Some k \<and> count_list es (x, c) \<le> k" if "(x, c) \<in> set es" for c
    using that edges_within deg indegree_in_insert(2) [OF x] by blast
  from relax_effect [OF this r]
  have deg': "deg' = (\<lambda>c. map_option (\<lambda>k. k - count_list es (x, c)) (deg c))"
    and q': "set q' = set q \<union> {c. (x, c) \<in> set es \<and> deg c = Some (count_list es (x, c))}"
    by blast+
  have d1: "deg' c = Some (indegree_in es (insert x V) c)" if "c \<in> verts" for c
    using that by (simp add: deg' deg indegree_in_insert(1) [OF x])
  have d2: "c \<in> insert x V \<union> set q'" if "c \<in> verts" "indegree_in es (insert x V) c = 0" for c
  proof (cases "(x, c) \<in> set es")
    case True
    then have "deg c = Some (count_list es (x, c))"
      using that deg indegree_in_insert [OF x, of es c] by simp
    then show ?thesis using True q' by simp
  next
    case False
    then have "indegree_in es V c = 0" using that by (auto simp: indegree_in_0_iff)
    then show ?thesis using inv that q' by (auto simp: kahn_inv_def)
  qed
  have d3: "y \<in> verts \<and> (\<forall>d. (d, y) \<in> set es \<longrightarrow> d \<in> insert x V)"
    if y: "y \<in> insert x V \<union> set q'" for y
  proof (cases "y \<in> V \<union> set (x # q)")
    case True
    then show ?thesis using inv unfolding kahn_inv_def by blast
  next
    case False
    with y q' have e: "(x, y) \<in> set es" "deg y = Some (count_list es (x, y))" by auto
    then have v: "y \<in> verts" using edges_within by auto
    then have "indegree_in es (insert x V) y = 0"
      using d1 [OF v] e by (simp add: deg')
    then show ?thesis using v by (simp add: indegree_in_0_iff)
  qed
  have "d \<in> Wellfounded.acc (set es)" if "(d, x) \<in> set es" for d
    using inv that unfolding kahn_inv_def by (meson UnI2 list.set_intros(1) subsetD)
  then have "x \<in> Wellfounded.acc (set es)" by (rule accI)
  then have d4: "insert x V \<subseteq> Wellfounded.acc (set es)" using inv by (simp add: kahn_inv_def)
  show ?thesis unfolding kahn_inv_def using d1 d2 d3 d4 by (intro conjI ballI impI) blast+
qed

lemma kahn_inv_skip: "kahn_inv deg (x # q) V \<Longrightarrow> x \<in> V \<Longrightarrow> kahn_inv deg q V"
  by (auto simp: kahn_inv_def)

lemma kahn_loop_inv:
  "es' = es \<Longrightarrow> kahn_inv deg q V \<Longrightarrow> \<exists>deg'. kahn_inv deg' [] (kahn_loop es' deg q V)"
proof (induction es' deg q V rule: kahn_loop.induct [case_names Nil Cons])
  case (Nil es' deg V)
  then show ?case by auto
next
  case (Cons es' deg x q V)
  show ?case
  proof (cases "x \<in> V")
    case True
    then show ?thesis using Cons.IH(1) Cons.prems kahn_inv_skip by simp
  next
    case False
    obtain deg' q' where r: "relax es x (deg, q) = (deg', q')" by force
    with False Cons.prems have "kahn_inv deg' q' (insert x V)" by (blast intro: kahn_inv_step)
    with Cons.IH(2) [OF False Cons.prems(1)] False Cons.prems(1) r show ?thesis by simp
  qed
qed

lemma kahn_inv_final:
  assumes "kahn_inv deg [] V"
  shows "V = verts \<inter> Wellfounded.acc (set es)"
proof
  show "V \<subseteq> verts \<inter> Wellfounded.acc (set es)" using assms by (auto simp: kahn_inv_def)
next
  have visited: "\<forall>c \<in> verts. indegree_in es V c = 0 \<longrightarrow> c \<in> V"
    using assms unfolding kahn_inv_def by (metis UnE empty_iff list.set(1))
  have "x \<in> verts \<longrightarrow> x \<in> V" if "x \<in> Wellfounded.acc (set es)" for x
  proof (rule acc_induct_rule [OF that])
    fix y assume IH: "\<And>d. (d, y) \<in> set es \<Longrightarrow> d \<in> verts \<longrightarrow> d \<in> V"
    have "d \<in> V" if "(d, y) \<in> set es" for d
      using IH [OF that] edge_verts [OF that] by blast
    then have "indegree_in es V y = 0" by (simp add: indegree_in_0_iff)
    then show "y \<in> verts \<longrightarrow> y \<in> V" using visited by blast
  qed
  then show "verts \<inter> Wellfounded.acc (set es) \<subseteq> V" by blast
qed

lemma kahn_inv_start:
  assumes "\<And>c. c \<in> verts \<Longrightarrow> deg c = Some (indegree_in es {} c)"
    and "set q = {c \<in> verts. deg c = Some 0}"
  shows "kahn_inv deg q {}"
  using assms by (auto simp: kahn_inv_def indegree_in_0_iff)

lemma kahn_correct:
  assumes "\<And>c. c \<in> verts \<Longrightarrow> deg c = Some (indegree_in es {} c)"
    and "set q = {c \<in> verts. deg c = Some 0}"
  shows "kahn_loop es deg q {} = verts \<inter> Wellfounded.acc (set es)"
  using kahn_loop_inv [OF refl kahn_inv_start [OF assms]] kahn_inv_final by blast

lemma kahn_run_inv:
  "es' = es \<Longrightarrow> kahn_inv deg q V
     \<Longrightarrow> kahn_inv (fst (kahn_run es' deg q V)) [] (snd (kahn_run es' deg q V))"
proof (induction es' deg q V rule: kahn_run.induct [case_names Nil Cons])
  case (Nil es' deg V)
  then show ?case by simp
next
  case (Cons es' deg x q V)
  show ?case
  proof (cases "x \<in> V")
    case True
    then show ?thesis using Cons.IH(1) Cons.prems kahn_inv_skip by simp
  next
    case False
    obtain deg' q' where r: "relax es x (deg, q) = (deg', q')" by force
    with False Cons.prems have "kahn_inv deg' q' (insert x V)" by (blast intro: kahn_inv_step)
    with Cons.IH(2) [OF False Cons.prems(1)] False Cons.prems(1) r show ?thesis by simp
  qed
qed

lemma kahn_run_left:
  assumes "\<And>c. c \<in> verts \<Longrightarrow> deg c = Some (indegree_in es {} c)"
    and "set q = {c \<in> verts. deg c = Some 0}" and "c \<in> verts"
  shows "\<exists>k. fst (kahn_run es deg q {}) c = Some k
    \<and> (0 < k \<and> c \<notin> snd (kahn_run es deg q {}) \<longleftrightarrow> c \<notin> Wellfounded.acc (set es))"
proof -
  let ?deg = "fst (kahn_run es deg q {})" and ?V = "snd (kahn_run es deg q {})"
  have i: "kahn_inv ?deg [] ?V"
    using kahn_inv_start [OF assms(1,2)] by (rule kahn_run_inv [OF refl])
  have d: "?deg c = Some (indegree_in es ?V c)"
    using i assms(3) unfolding kahn_inv_def by blast
  have z: "indegree_in es ?V c = 0 \<longrightarrow> c \<in> ?V"
    using i assms(3) unfolding kahn_inv_def by (metis UnE empty_iff list.set(1))
  have "c \<in> ?V \<longleftrightarrow> c \<in> Wellfounded.acc (set es)"
    using kahn_inv_final [OF i] assms(3) by blast
  then show ?thesis using d z by auto
qed

text \<open>A detector that reports the unvisited vertices is empty exactly on acyclic graphs.\<close>

lemma acyclic_iff_all_acc: "verts \<subseteq> Wellfounded.acc (set es) \<longleftrightarrow> acyclic (set es)"
proof
  assume a: "verts \<subseteq> Wellfounded.acc (set es)"
  have "x \<in> Wellfounded.acc (set es)" for x
    using a edges_within by (cases "x \<in> verts") (auto intro: accI)
  then have "wf (set es)" by (simp add: wf_iff_acc)
  then show "acyclic (set es)" by (rule wf_acyclic)
next
  assume "acyclic (set es)"
  then have "wf (set es)" by (simp add: wf_iff_acyclic_if_finite)
  then show "verts \<subseteq> Wellfounded.acc (set es)" by (auto simp: wf_iff_acc)
qed

end

text \<open>Outside the accessible part: downstream of a cycle.\<close>

lemma acc_no_cycle: "c \<in> Wellfounded.acc R \<Longrightarrow> (c, c) \<notin> R\<^sup>+"
proof (induction c rule: acc.induct)
  case (accI c)
  show ?case
  proof
    assume "(c, c) \<in> R\<^sup>+"
    then obtain d where "(c, d) \<in> R\<^sup>*" "(d, c) \<in> R" by (metis tranclD2)
    then have "(d, d) \<in> R\<^sup>+" by (metis rtrancl_into_trancl2)
    then show False using accI \<open>(d, c) \<in> R\<close> by blast
  qed
qed

lemma acc_rtrancl: "(d, c) \<in> R\<^sup>* \<Longrightarrow> c \<in> Wellfounded.acc R \<Longrightarrow> d \<in> Wellfounded.acc R"
  using acc_downwards by metis

lemma not_acc_cycle:
  assumes fin: "finite R" and i: "i \<notin> Wellfounded.acc R"
  shows "\<exists>c. (c, c) \<in> R\<^sup>+ \<and> (c, i) \<in> R\<^sup>*"
proof (rule ccontr)
  assume no: "\<nexists>c. (c, c) \<in> R\<^sup>+ \<and> (c, i) \<in> R\<^sup>*"
  let ?S = "{(d, c) \<in> R. (c, i) \<in> R\<^sup>*}"
  have sub: "?S\<^sup>+ \<subseteq> R\<^sup>+" by (rule trancl_mono_subset) blast
  have "(c, i) \<in> R\<^sup>*" if "(d, c) \<in> ?S\<^sup>+" for d c using that by (cases rule: trancl.cases) auto
  then have "acyclic ?S" using no sub unfolding acyclic_def by blast
  then have "wf ?S" using fin by (intro finite_acyclic_wf) (auto intro: finite_subset)
  then have "(c, i) \<in> R\<^sup>* \<longrightarrow> c \<in> Wellfounded.acc R" for c
  proof (induction c rule: wf_induct_rule)
    case (less c)
    show ?case
    proof
      assume c: "(c, i) \<in> R\<^sup>*"
      show "c \<in> Wellfounded.acc R"
      proof (rule accI)
        fix d
        assume "(d, c) \<in> R"
        then show "d \<in> Wellfounded.acc R"
          using less.IH [of d] c by (auto intro: converse_rtrancl_into_rtrancl)
      qed
    qed
  qed
  then show False using i by blast
qed

end
