(* ===== verification/Dag_Model.thy ===== *)
theory Dag_Model
  imports F64 Kahn
begin

text \<open>
  The data model of the task-DAG engine (\<open>crates/next-code-plan/src/dag/mod.rs\<close>):
  engine mode, node kinds, origins and statuses, the confidence ladder and its lenient
  parser, handoff artifacts, nodes, node specs, errors with their messages, and the task
  graph with its lookups.
\<close>

section \<open>Enumerations\<close>

datatype mode = Deep | Light

fun requires_gates :: "mode \<Rightarrow> bool" where
  "requires_gates Deep = True"
| "requires_gates Light = False"

datatype node_origin = OSeed | OExpand | OGap | OGate

datatype node_kind = Explore | Implement | Verify | Fix | Synthesize | Critique

fun is_gate_kind :: "node_kind \<Rightarrow> bool" where
  "is_gate_kind Critique = True"
| "is_gate_kind Verify = True"
| "is_gate_kind _ = False"

fun gate_kind :: "node_kind \<Rightarrow> node_kind" where
  "gate_kind Implement = Verify"
| "gate_kind Fix = Verify"
| "gate_kind _ = Critique"

datatype node_status = Queued | Running | Done | Failed

text \<open>\<open>{status:?}\<close>.\<close>

fun debug_status :: "node_status \<Rightarrow> string" where
  "debug_status Queued = ''Queued''"
| "debug_status Running = ''Running''"
| "debug_status Done = ''Done''"
| "debug_status Failed = ''Failed''"

datatype confidence_level = Low | Medium | High

fun confidence_rank :: "confidence_level \<Rightarrow> nat" where
  "confidence_rank Low = 0"
| "confidence_rank Medium = 1"
| "confidence_rank High = 2"

text \<open>\<open>#[derive(PartialOrd, Ord)]\<close>: declaration order.\<close>

instantiation confidence_level :: linorder
begin

definition less_eq_confidence_level :: "confidence_level \<Rightarrow> confidence_level \<Rightarrow> bool" where
  "less_eq_confidence_level a b = (confidence_rank a \<le> confidence_rank b)"

definition less_confidence_level :: "confidence_level \<Rightarrow> confidence_level \<Rightarrow> bool" where
  "less_confidence_level a b = (confidence_rank a < confidence_rank b)"

instance
proof
  fix x y z :: confidence_level
  show "(x < y) = (x \<le> y \<and> \<not> y \<le> x)"
    by (auto simp: less_eq_confidence_level_def less_confidence_level_def)
  show "x \<le> x" by (simp add: less_eq_confidence_level_def)
  show "x \<le> y \<Longrightarrow> y \<le> z \<Longrightarrow> x \<le> z" by (simp add: less_eq_confidence_level_def)
  show "x \<le> y \<Longrightarrow> y \<le> x \<Longrightarrow> x = y"
    by (cases x; cases y; simp add: less_eq_confidence_level_def)
  show "x \<le> y \<or> y \<le> x" by (auto simp: less_eq_confidence_level_def)
qed

end

section \<open>Confidence parsing\<close>

text \<open>
  \<open>extract_leading_number\<close>: the first maximal run of digits and dots, its value, the
  run itself and the text after it; \<open>None\<close> when there is no run or it is no number.
\<close>

definition is_num_char :: "char \<Rightarrow> bool" where
  "is_num_char c \<longleftrightarrow> is_ascii_digit c \<or> c = CHR ''.''"

definition extract_leading_number :: "string \<Rightarrow> (f64 \<times> string \<times> string) option" where
  "extract_leading_number s =
     (let rest = dropWhile (\<lambda>c. \<not> is_num_char c) s
      in if rest = [] then None
         else let token = takeWhile is_num_char rest
              in (case f64_parse token of
                    None \<Rightarrow> None
                  | Some value \<Rightarrow> Some (value, token, dropWhile is_num_char rest)))"

definition negations :: "string list" where
  "negations =
     [''not high'', ''not confident'', ''not certain'', ''not sure'', ''no confidence'',
      ''unsure'', ''uncertain'']"

text \<open>\<open>a.or_else(b)\<close>.\<close>

definition or_else :: "'a option \<Rightarrow> 'a option \<Rightarrow> 'a option" where
  "or_else a b = (case a of None \<Rightarrow> b | Some x \<Rightarrow> Some x)"

definition explicit_denominator :: "string \<Rightarrow> f64 option" where
  "explicit_denominator after0 =
     (let after = trim_start after0
      in case or_else (strip_prefix ''/'' after)
                (or_else (strip_prefix ''out of '' after) (strip_prefix ''of '' after)) of
           None \<Rightarrow> None
         | Some rest \<Rightarrow>
             (case extract_leading_number (trim_start rest) of
                None \<Rightarrow> None
              | Some (d, _, _) \<Rightarrow> (if f64_less (f64_nat 0) d then Some d else None)))"

definition score_percent :: "string \<Rightarrow> f64 \<Rightarrow> string \<Rightarrow> string \<Rightarrow> f64" where
  "score_percent normalized v raw_token after =
     (case explicit_denominator after of
        Some d \<Rightarrow> f64_mul (f64_div v d) (f64_nat 100)
      | None \<Rightarrow>
          if contains normalized ''%'' \<or> f64_less (f64_nat 10) v then v
          else if f64_le v (f64_nat 1) \<and> contains raw_token ''.'' then f64_mul v (f64_nat 100)
          else f64_mul v (f64_nat 10))"

definition level_of_percent :: "f64 \<Rightarrow> confidence_level" where
  "level_of_percent percent =
     (if f64_less percent (f64_nat 50) then Low
      else if f64_less percent (f64_nat 80) then Medium
      else High)"

definition confidence_parse :: "string \<Rightarrow> confidence_level option" where
  "confidence_parse raw =
     (let normalized = to_ascii_lowercase (trim raw)
      in if normalized = [] then None
         else if list_ex (\<lambda>neg. contains normalized neg) negations then Some Low
         else if contains normalized ''low'' then Some Low
         else if contains normalized ''med'' \<or> contains normalized ''moderate'' then Some Medium
         else if contains normalized ''high'' \<or> contains normalized ''certain''
                 \<or> contains normalized ''confident'' then Some High
         else (case extract_leading_number normalized of
                 None \<Rightarrow> None
               | Some (v, raw_token, after) \<Rightarrow>
                   Some (level_of_percent (score_percent normalized v raw_token after))))"

fun confidence_str :: "confidence_level \<Rightarrow> string" where
  "confidence_str Low = ''low''"
| "confidence_str Medium = ''medium''"
| "confidence_str High = ''high''"

section \<open>Handoff artifacts\<close>

record handoff_artifact =
  findings :: string
  evidence :: "string list"
  edge_cases_considered :: "string list"
  validation :: "string option"
  open_questions :: "string list"
  confidence :: "string option"
  what_i_did_not_check :: "string list"

definition default_artifact :: handoff_artifact where
  "default_artifact =
     \<lparr>findings = [], evidence = [], edge_cases_considered = [], validation = None,
      open_questions = [], confidence = None, what_i_did_not_check = []\<rparr>"

definition brief :: "string \<Rightarrow> handoff_artifact" where
  "brief f = default_artifact\<lparr>findings := f\<rparr>"

definition artifact_level :: "handoff_artifact \<Rightarrow> confidence_level option" where
  "artifact_level a = Option.bind (confidence a) confidence_parse"

definition list_line :: "string \<Rightarrow> string list \<Rightarrow> string" where
  "list_line label xs = (if xs = [] then [] else label @ join ''; '' xs @ nl)"

definition option_line :: "string \<Rightarrow> string option \<Rightarrow> string" where
  "option_line label o' = (case o' of None \<Rightarrow> [] | Some v \<Rightarrow> label @ v @ nl)"

definition render_section :: "handoff_artifact \<Rightarrow> string \<Rightarrow> string \<Rightarrow> string" where
  "render_section a i kind =
     ''## '' @ i @ '' ('' @ kind @ '')'' @ nl
     @ (if trim (findings a) = [] then [] else findings a @ nl)
     @ list_line ''Evidence: '' (evidence a)
     @ list_line ''Edge cases considered: '' (edge_cases_considered a)
     @ option_line ''Validation: '' (validation a)
     @ list_line ''Open questions: '' (open_questions a)
     @ option_line ''Confidence: '' (confidence a)
     @ list_line ''What was not checked: '' (what_i_did_not_check a)"

section \<open>Nodes and specs\<close>

record task_node =
  nid :: string
  content :: string
  kind :: node_kind
  status :: node_status
  owner :: "string option"
  parent :: "string option"
  depends_on :: "string list"
  expanded :: bool
  is_gate :: bool
  planner :: "string option"
  priority :: u8
  node_output :: "handoff_artifact option"
  origin :: "node_origin option"

definition is_composite :: "task_node \<Rightarrow> bool" where
  "is_composite n = expanded n"

definition is_done :: "task_node \<Rightarrow> bool" where
  "is_done n \<longleftrightarrow> status n = Done"

definition node_is_terminal :: "task_node \<Rightarrow> bool" where
  "node_is_terminal n \<longleftrightarrow> status n = Done \<or> status n = Failed"

record node_spec =
  spec_id :: "string option"
  spec_content :: string
  spec_kind :: node_kind
  spec_depends_on :: "string list"
  spec_priority :: u8

definition new_spec :: "string \<Rightarrow> string \<Rightarrow> node_kind \<Rightarrow> node_spec" where
  "new_spec i c k =
     \<lparr>spec_id = Some i, spec_content = c, spec_kind = k, spec_depends_on = [],
      spec_priority = 0\<rparr>"

definition with_depends_on :: "node_spec \<Rightarrow> string list \<Rightarrow> node_spec" where
  "with_depends_on s deps = s\<lparr>spec_depends_on := deps\<rparr>"

definition with_priority :: "node_spec \<Rightarrow> u8 \<Rightarrow> node_spec" where
  "with_priority s p = s\<lparr>spec_priority := p\<rparr>"

section \<open>Errors\<close>

datatype dag_error =
    UnknownNode string
  | DuplicateNode string
  | UnknownDependency (err_node: string) (err_dependency: string)
  | WouldCreateCycle "string list"
  | NotOwner (err_node: string) (err_actor: string)
  | InvalidState (err_node: string) (err_status: node_status)
  | ThinArtifact (err_node: string) (err_reason: string)
  | UnaddressedLowConfidence (err_gate: string) (err_nodes: "string list")
  | UncoveredSiblings (err_gate: string) (err_nodes: "string list")
  | StaleGateScope (err_gate: string) (err_pending: "string list")
  | GateMisuse string

definition quote :: "string \<Rightarrow> string" where
  "quote s = CHR 0x27 # s @ [CHR 0x27]"

fun display_dag_error :: "dag_error \<Rightarrow> string" where
  "display_dag_error (UnknownNode i) = ''unknown node '' @ quote i"
| "display_dag_error (DuplicateNode i) = ''duplicate node id '' @ quote i"
| "display_dag_error (UnknownDependency n d) =
     ''node '' @ quote n @ '' depends on unknown node '' @ quote d"
| "display_dag_error (WouldCreateCycle ids) =
     ''operation would create a cycle among: '' @ join '', '' ids"
| "display_dag_error (NotOwner n a) = ''actor '' @ quote a @ '' does not own node '' @ quote n"
| "display_dag_error (InvalidState n st) =
     ''node '' @ quote n @ '' is in invalid state '' @ debug_status st @ '' for this operation''"
| "display_dag_error (ThinArtifact n r) = ''node '' @ quote n @ '' artifact rejected: '' @ r"
| "display_dag_error (UnaddressedLowConfidence g ns) =
     ''gate '' @ quote g @ '' cannot pass: sibling node(s) ['' @ join '', '' ns
     @ ''] completed with LOW confidence and the gate artifact does not address them. Either ''
     @ ''inject_gap with follow-up nodes that shore up that work, or name each ''
     @ ''id in your findings with why its low confidence is acceptable''"
| "display_dag_error (UncoveredSiblings g ns) =
     ''gate '' @ quote g @ '' cannot pass: completed node(s) ['' @ join '', '' ns
     @ ''] in its audit scope are not addressed in the gate artifact. A passing deep gate must account for ''
     @ ''every node it audits: name each id in findings/open_questions with what ''
     @ ''you checked, or inject_gap with follow-up nodes for anything shaky''"
| "display_dag_error (StaleGateScope g ps) =
     ''gate '' @ quote g @ '' cannot pass: node(s) ['' @ join '', '' ps
     @ ''] entered its audit scope after it was dispatched and are not finished. ''
     @ ''The gate''@ [CHR 0x27] @ ''s view is stale; it re-runs after they drain''"
| "display_dag_error (GateMisuse msg) = ''gate misuse: '' @ msg"

section \<open>The task graph\<close>

record task_graph =
  mode :: mode
  nodes :: "task_node list"

definition new_graph :: "mode \<Rightarrow> task_graph" where
  "new_graph m = \<lparr>mode = m, nodes = []\<rparr>"

definition graph_len :: "task_graph \<Rightarrow> nat" where
  "graph_len g = length (nodes g)"

definition graph_is_empty :: "task_graph \<Rightarrow> bool" where
  "graph_is_empty g \<longleftrightarrow> nodes g = []"

definition get :: "task_graph \<Rightarrow> string \<Rightarrow> task_node option" where
  "get g i = find (\<lambda>n. nid n = i) (nodes g)"

text \<open>\<open>get_mut\<close> followed by an assignment: the first node with the id is replaced.\<close>

fun update_first :: "string \<Rightarrow> (task_node \<Rightarrow> task_node) \<Rightarrow> task_node list \<Rightarrow> task_node list" where
  "update_first i f [] = []"
| "update_first i f (n # ns) = (if nid n = i then f n # ns else n # update_first i f ns)"

definition modify :: "task_graph \<Rightarrow> string \<Rightarrow> (task_node \<Rightarrow> task_node) \<Rightarrow> task_graph" where
  "modify g i f = g\<lparr>nodes := update_first i f (nodes g)\<rparr>"

definition has_node :: "task_graph \<Rightarrow> string \<Rightarrow> bool" where
  "has_node g i \<longleftrightarrow> list_ex (\<lambda>n. nid n = i) (nodes g)"

definition push :: "task_graph \<Rightarrow> task_node \<Rightarrow> task_graph" where
  "push g n = g\<lparr>nodes := nodes g @ [n]\<rparr>"

definition push_node :: "task_graph \<Rightarrow> task_node \<Rightarrow> task_graph" where
  "push_node g n = g\<lparr>nodes := nodes g @ [n]\<rparr>"

definition children_of :: "task_graph \<Rightarrow> string \<Rightarrow> task_node list" where
  "children_of g i = filter (\<lambda>n. parent n = Some i \<and> \<not> is_gate n) (nodes g)"

definition gate_of :: "task_graph \<Rightarrow> string \<Rightarrow> task_node option" where
  "gate_of g i = find (\<lambda>n. parent n = Some i \<and> is_gate n) (nodes g)"

definition output_level :: "task_node \<Rightarrow> confidence_level option" where
  "output_level n = Option.bind (node_output n) artifact_level"

definition low_confidence_done_ids :: "task_graph \<Rightarrow> string list" where
  "low_confidence_done_ids g =
     map nid (filter (\<lambda>n. output_level n = Some Low)
       (filter (\<lambda>n. is_done n \<and> \<not> is_gate n) (nodes g)))"

definition all_terminal :: "task_graph \<Rightarrow> bool" where
  "all_terminal g \<longleftrightarrow> list_all node_is_terminal (nodes g)"

end
