(* ===== verification/Dag_Cycle.thy ===== *)
theory Dag_Cycle
  imports Dag_Model
begin

text \<open>
  \<open>TaskGraph::cycle_nodes\<close> of \<open>dag/mod.rs\<close> as written: the indegree table counts each
  in-graph dependency of a node once, the stack starts with the sorted zero-indegree ids
  (top first here), and visiting an id relaxes every node that lists it. The detector is
  then shown to run the generic algorithm of \<open>Kahn\<close> on the dependency edges, for every
  graph, duplicate ids and duplicate or dangling dependencies included.
\<close>

section \<open>The code\<close>

definition ids :: "task_graph \<Rightarrow> string set" where
  "ids g = set (map nid (nodes g))"

definition unique_deps :: "string set \<Rightarrow> task_node \<Rightarrow> string list" where
  "unique_deps known n = remdups (filter (\<lambda>d. d \<in> known) (depends_on n))"

fun zero_indegree :: "task_node list \<Rightarrow> (string \<rightharpoonup> nat) \<Rightarrow> (string \<rightharpoonup> nat)" where
  "zero_indegree [] deg = deg"
| "zero_indegree (n # ns) deg =
     zero_indegree ns (case deg (nid n) of None \<Rightarrow> deg(nid n \<mapsto> 0) | Some _ \<Rightarrow> deg)"

fun count_indegree ::
  "string set \<Rightarrow> task_node list \<Rightarrow> (string \<rightharpoonup> nat) \<Rightarrow> (string \<rightharpoonup> nat)" where
  "count_indegree known [] deg = deg"
| "count_indegree known (n # ns) deg =
     count_indegree known ns
       (deg(nid n \<mapsto> unwrap_or (deg (nid n)) 0 + length (unique_deps known n)))"

fun dag_relax ::
  "task_node list \<Rightarrow> string \<Rightarrow> (string \<rightharpoonup> nat) \<times> string list \<Rightarrow> (string \<rightharpoonup> nat) \<times> string list" where
  "dag_relax [] x (deg, q) = (deg, q)"
| "dag_relax (n # ns) x (deg, q) =
     (if x \<in> set (depends_on n) then
        (case deg (nid n) of
           None \<Rightarrow> dag_relax ns x (deg, q)
         | Some k \<Rightarrow> dag_relax ns x (deg(nid n \<mapsto> k - 1), if k - 1 = 0 then nid n # q else q))
      else dag_relax ns x (deg, q))"

lemma dag_relax_stack_subset:
  "set (snd (dag_relax ns x (deg, q))) \<subseteq> set q \<union> nid ` set ns"
proof (induction ns arbitrary: deg q)
  case Nil
  then show ?case by simp
next
  case (Cons n ns)
  have "set (snd (dag_relax ns x (deg', q'))) \<subseteq> insert (nid n) (set q \<union> nid ` set ns)"
    if "set q' \<subseteq> insert (nid n) (set q)" for deg' q'
    using Cons.IH [of deg' q'] that by auto
  then show ?case by (auto split: option.splits; blast)
qed

function visit_loop ::
  "task_node list \<Rightarrow> (string \<rightharpoonup> nat) \<Rightarrow> string list \<Rightarrow> string set \<Rightarrow> string set" where
  "visit_loop ns deg [] visited = visited"
| "visit_loop ns deg (x # q) visited =
     (if x \<in> visited then visit_loop ns deg q visited
      else visit_loop ns (fst (dag_relax ns x (deg, q))) (snd (dag_relax ns x (deg, q)))
             (insert x visited))"
  by pat_completeness auto
termination
proof (relation "measures [\<lambda>(ns, deg, q, V). card ((set q \<union> nid ` set ns) - V),
    \<lambda>(ns, deg, q, V). length q]", goal_cases)
  case 1
  show ?case by simp
next
  case (2 ns deg x q V)
  then show ?case using unvisited_skip [of x V q "nid ` set ns"] by simp
next
  case (3 ns deg x q V)
  have "card ((set (snd (dag_relax ns x (deg, q))) \<union> nid ` set ns) - insert x V)
      < card ((set (x # q) \<union> nid ` set ns) - V)"
    by (intro unvisited_decreases finite_imageI finite_set dag_relax_stack_subset 3)
  then show ?case by simp
qed

definition indegree_table :: "task_graph \<Rightarrow> string \<rightharpoonup> nat" where
  "indegree_table g =
     count_indegree (set (map nid (nodes g))) (nodes g) (zero_indegree (nodes g) Map.empty)"

definition start_stack :: "task_graph \<Rightarrow> string list" where
  "start_stack g =
     rev (sort (filter (\<lambda>i. indegree_table g i = Some 0) (remdups (map nid (nodes g)))))"

definition cycle_nodes :: "task_graph \<Rightarrow> string list" where
  "cycle_nodes g =
     (let visited = visit_loop (nodes g) (indegree_table g) (start_stack g) {}
      in sort (filter (\<lambda>i. i \<notin> visited) (map nid (nodes g))))"

section \<open>The detector runs Kahn's algorithm\<close>

definition node_edges :: "string set \<Rightarrow> task_node \<Rightarrow> (string \<times> string) list" where
  "node_edges known n = map (\<lambda>d. (d, nid n)) (unique_deps known n)"

definition dep_edges :: "task_graph \<Rightarrow> (string \<times> string) list" where
  "dep_edges g = concat (map (node_edges (ids g)) (nodes g))"

text \<open>\<open>(d, c)\<close>: some node with id \<open>c\<close> lists \<open>d\<close>, which is in the graph.\<close>

definition dep_rel :: "task_graph \<Rightarrow> (string \<times> string) set" where
  "dep_rel g = {(d, nid n) | d n. n \<in> set (nodes g) \<and> d \<in> set (depends_on n) \<and> d \<in> ids g}"

lemma set_dep_edges: "set (dep_edges g) = dep_rel g"
  by (auto simp: dep_edges_def dep_rel_def node_edges_def unique_deps_def)

lemma relax_append: "relax (es @ fs) x dq = relax fs x (relax es x dq)"
proof (induction es arbitrary: dq)
  case Nil
  then show ?case by (cases dq) simp
next
  case (Cons e es)
  obtain d c where "e = (d, c)" by force
  moreover obtain deg q where "dq = (deg, q)" by force
  ultimately show ?case using Cons.IH by (simp split: option.splits)
qed

lemma relax_one_target:
  "distinct ds \<Longrightarrow> relax (map (\<lambda>d. (d, c)) ds) x (deg, q) =
     (if x \<in> set ds then
        (case deg c of None \<Rightarrow> (deg, q)
         | Some k \<Rightarrow> (deg(c \<mapsto> k - 1), if k - 1 = 0 then c # q else q))
      else (deg, q))"
  by (induction ds arbitrary: deg q) (auto split: option.splits)

lemma relax_node_edges:
  assumes "x \<in> known"
  shows "relax (node_edges known n) x (deg, q) =
     (if x \<in> set (depends_on n) then
        (case deg (nid n) of None \<Rightarrow> (deg, q)
         | Some k \<Rightarrow> (deg(nid n \<mapsto> k - 1), if k - 1 = 0 then nid n # q else q))
      else (deg, q))"
  using assms by (simp add: node_edges_def relax_one_target unique_deps_def)

lemma dag_relax_eq:
  assumes "x \<in> known"
  shows "dag_relax ns x (deg, q) = relax (concat (map (node_edges known) ns)) x (deg, q)"
proof (induction ns arbitrary: deg q)
  case Nil
  then show ?case by simp
next
  case (Cons n ns)
  then show ?case
    by (cases "deg (nid n)") (simp_all add: relax_append relax_node_edges [OF assms] del: fun_upd_apply)
qed

lemma visit_loop_eq:
  assumes "set q \<subseteq> nid ` set ns" and "known = nid ` set ns"
  shows "visit_loop ns deg q V = kahn_loop (concat (map (node_edges known) ns)) deg q V"
  using assms
proof (induction ns deg q V rule: visit_loop.induct [case_names Nil Cons])
  case (Nil ns deg V)
  then show ?case by simp
next
  case (Cons ns deg x q V)
  show ?case
  proof (cases "x \<in> V")
    case True
    then show ?thesis using Cons by simp
  next
    case False
    have x: "x \<in> known" using Cons.prems by simp
    have "set (snd (dag_relax ns x (deg, q))) \<subseteq> nid ` set ns"
      using dag_relax_stack_subset [of ns x deg q] Cons.prems by auto
    then show ?thesis
      using Cons.IH(2) [OF False] False Cons.prems(2) by (simp add: dag_relax_eq [OF x])
  qed
qed

lemma zero_indegree_eq:
  "zero_indegree ns deg c =
     (case deg c of Some k \<Rightarrow> Some k | None \<Rightarrow> if c \<in> nid ` set ns then Some 0 else None)"
  by (induction ns deg rule: zero_indegree.induct) (auto split: option.splits)

lemma count_indegree_eq:
  assumes "c \<in> nid ` set ns \<or> deg c \<noteq> None"
  shows "count_indegree known ns deg c =
    Some (unwrap_or (deg c) 0 + indegree_in (concat (map (node_edges known) ns)) {} c)"
  using assms
proof (induction known ns deg rule: count_indegree.induct)
  case (1 known deg)
  then show ?case by (auto simp: indegree_in_def)
next
  case (2 known n ns deg)
  have n: "indegree_in (node_edges known n @ es) {} c =
      (if nid n = c then length (unique_deps known n) else 0) + indegree_in es {} c" for es
    by (simp add: indegree_in_def node_edges_def filter_map comp_def)
  let ?deg = "deg(nid n \<mapsto> unwrap_or (deg (nid n)) 0 + length (unique_deps known n))"
  have "c \<in> nid ` set ns \<or> ?deg c \<noteq> None" using 2(2) by auto
  note IH = 2(1) [OF this]
  have "unwrap_or (?deg c) 0 = unwrap_or (deg c) 0
      + (if nid n = c then length (unique_deps known n) else 0)"
    by simp
  with IH show ?case by (simp add: n del: fun_upd_apply)
qed

lemma indegree_table_eq:
  "c \<in> ids g \<Longrightarrow> indegree_table g c = Some (indegree_in (dep_edges g) {} c)"
  by (simp add: indegree_table_def count_indegree_eq zero_indegree_eq dep_edges_def ids_def
      image_iff)

interpretation dag: kahn_graph "ids g" "dep_edges g" for g
  by unfold_locales (auto simp: set_dep_edges dep_rel_def ids_def)

lemma set_start_stack: "set (start_stack g) = {c \<in> ids g. indegree_table g c = Some 0}"
  by (auto simp: start_stack_def ids_def)

lemma visited_eq:
  "visit_loop (nodes g) (indegree_table g) (start_stack g) {} = ids g \<inter> Wellfounded.acc (dep_rel g)"
proof -
  have "set (start_stack g) \<subseteq> nid ` set (nodes g)"
    by (auto simp: set_start_stack ids_def)
  then have "visit_loop (nodes g) (indegree_table g) (start_stack g) {}
      = kahn_loop (dep_edges g) (indegree_table g) (start_stack g) {}"
    by (simp add: visit_loop_eq dep_edges_def ids_def)
  also have "\<dots> = ids g \<inter> Wellfounded.acc (set (dep_edges g))"
    by (rule dag.kahn_correct) (simp_all add: indegree_table_eq set_start_stack)
  finally show ?thesis by (simp add: set_dep_edges)
qed

lemma set_cycle_nodes: "set (cycle_nodes g) = ids g - Wellfounded.acc (dep_rel g)"
  by (auto simp: cycle_nodes_def visited_eq Let_def ids_def)

lemma cycle_nodes_Nil_iff: "cycle_nodes g = [] \<longleftrightarrow> acyclic (dep_rel g)"
proof -
  have "cycle_nodes g = [] \<longleftrightarrow> ids g \<subseteq> Wellfounded.acc (dep_rel g)"
    using set_cycle_nodes [of g] by (metis Diff_eq_empty_iff set_empty)
  then show ?thesis using dag.acyclic_iff_all_acc [of g] by (simp add: set_dep_edges)
qed

lemma finite_dep_rel: "finite (dep_rel g)"
  by (metis List.finite_set set_dep_edges)

lemma acyclic_wf: "acyclic (dep_rel g) \<Longrightarrow> wf (dep_rel g)"
  by (simp add: wf_iff_acyclic_if_finite finite_dep_rel)

end
