(* ===== verification/Dag_Schedule.thy ===== *)
theory Dag_Schedule
  imports Dag_Cycle
begin

text \<open>
  The scheduler (\<open>crates/next-code-plan/src/dag/schedule.rs\<close>): the ready set, dispatch
  and the input a worker is handed.
\<close>

definition light_mode_suggested_workers :: nat where
  "light_mode_suggested_workers = 16"

definition dep_done :: "task_graph \<Rightarrow> string \<Rightarrow> bool" where
  "dep_done g d = (case get g d of None \<Rightarrow> False | Some n \<Rightarrow> is_done n)"

definition deps_satisfied :: "task_graph \<Rightarrow> task_node \<Rightarrow> bool" where
  "deps_satisfied g n = list_all (dep_done g) (depends_on n)"

text \<open>
  \<open>sort_by\<close> is stable and compares priority, then id: sorting by id first and then,
  stably, by priority gives the same list.
\<close>

definition ready_nodes :: "task_graph \<Rightarrow> task_node list" where
  "ready_nodes g =
     sort_key (\<lambda>n. unat (priority n))
       (sort_key nid (filter (\<lambda>n. status n = Queued \<and> deps_satisfied g n) (nodes g)))"

definition dispatchable :: "task_graph \<Rightarrow> string \<Rightarrow> bool" where
  "dispatchable g i =
     (case get g i of None \<Rightarrow> False | Some n \<Rightarrow> status n = Queued \<and> deps_satisfied g n)"

definition dispatch :: "task_graph \<Rightarrow> string \<Rightarrow> string \<Rightarrow> task_graph \<times> bool" where
  "dispatch g i worker =
     (if \<not> dispatchable g i then (g, False)
      else (modify g i (\<lambda>n. n\<lparr>owner := Some worker, status := Running\<rparr>), True))"

fun kind_label :: "node_kind \<Rightarrow> string" where
  "kind_label Explore = ''explore''"
| "kind_label Implement = ''implement''"
| "kind_label Verify = ''verify''"
| "kind_label Fix = ''fix''"
| "kind_label Synthesize = ''synthesize''"
| "kind_label Critique = ''critique''"

definition input_section :: "task_node \<Rightarrow> string" where
  "input_section d = nl @
     (case node_output d of
        Some a \<Rightarrow> render_section a (nid d) (kind_label (kind d))
      | None \<Rightarrow> ''## '' @ nid d @ '' ('' @ kind_label (kind d) @ '')'' @ nl)"

definition done_upstream :: "task_graph \<Rightarrow> task_node \<Rightarrow> task_node list" where
  "done_upstream g n = filter is_done (List.map_filter (get g) (depends_on n))"

definition assemble_input :: "task_graph \<Rightarrow> string \<Rightarrow> string" where
  "assemble_input g i =
     (case get g i of
        None \<Rightarrow> []
      | Some n \<Rightarrow>
          (if done_upstream g n = [] then content n
           else content n @ nl @ nl @ ''# Inputs from completed dependencies'' @ nl
             @ concat (map input_section (done_upstream g n))))"

end
