(* ===== verification/Dag_Ops.thy ===== *)
theory Dag_Ops
  imports Dag_Schedule
begin

text \<open>
  The validated graph mutations (\<open>crates/next-code-plan/src/dag/ops.rs\<close>). Every
  operation returns an error, and then the caller's graph is untouched (the code stages
  its changes on a clone, or mutates only after the last check), or the new graph.
\<close>

section \<open>Specs\<close>

definition validated_spec_id :: "node_spec \<Rightarrow> string \<Rightarrow> dag_error + string" where
  "validated_spec_id s opname =
     (case spec_id s of
        None \<Rightarrow> err (GateMisuse (opname @ '' specs must carry explicit ids''))
      | Some i \<Rightarrow>
          if trim i = [] then err (GateMisuse (opname @ '' specs must carry non-empty ids''))
          else ok i)"

definition spec_to_node :: "node_spec \<Rightarrow> string option \<Rightarrow> node_origin \<Rightarrow> task_node" where
  "spec_to_node s par orig =
     \<lparr>nid = unwrap_or (spec_id s) [], content = spec_content s, kind = spec_kind s,
      status = Queued, owner = None, parent = par, depends_on = dedup (spec_depends_on s),
      expanded = False, is_gate = False, planner = None, priority = spec_priority s,
      node_output = None, origin = Some orig\<rparr>"

definition dependency_sets_equal :: "string list \<Rightarrow> string list \<Rightarrow> bool" where
  "dependency_sets_equal l r \<longleftrightarrow> set l = set r"

definition seed_specs_equivalent :: "node_spec \<Rightarrow> node_spec \<Rightarrow> bool" where
  "seed_specs_equivalent l r \<longleftrightarrow>
     spec_id l = spec_id r \<and> spec_content l = spec_content r \<and> spec_kind l = spec_kind r
     \<and> spec_priority l = spec_priority r
     \<and> dependency_sets_equal (spec_depends_on l) (spec_depends_on r)"

text \<open>The dependencies of a node that its own expansion did not add.\<close>

definition declared_dependencies :: "task_graph \<Rightarrow> task_node \<Rightarrow> string list" where
  "declared_dependencies g n =
     filter (\<lambda>d. case get g d of None \<Rightarrow> True | Some c \<Rightarrow> parent c \<noteq> Some (nid n)) (depends_on n)"

definition seed_spec_matches_existing :: "task_graph \<Rightarrow> task_node \<Rightarrow> node_spec \<Rightarrow> bool" where
  "seed_spec_matches_existing g n s =
     (if parent n \<noteq> None \<or> is_gate n \<or> \<not> (origin n = None \<or> origin n = Some OSeed)
         \<or> content n \<noteq> spec_content s \<or> kind n \<noteq> spec_kind s \<or> priority n \<noteq> spec_priority s
      then False
      else dependency_sets_equal (declared_dependencies g n) (spec_depends_on s))"

section \<open>Gates\<close>

text \<open>
  \<open>unique_gate_id\<close>: the counter is a \<open>u32\<close> in the code; it never passes the number of
  nodes by more than two (\<open>gate_id_loop_index\<close>).
\<close>

lemma finite_taken_suffixes: "finite {m. n \<le> m \<and> has_node g (base @ show_nat m)}"
proof (rule finite_imageD)
  show "inj_on (\<lambda>m. base @ show_nat m) {m. n \<le> m \<and> has_node g (base @ show_nat m)}"
    by (auto simp: inj_on_def show_nat_inj)
  show "finite ((\<lambda>m. base @ show_nat m) ` {m. n \<le> m \<and> has_node g (base @ show_nat m)})"
    by (rule finite_subset [of _ "ids g"])
      (auto simp: has_node_def ids_def list_ex_iff intro: rev_image_eqI)
qed

function gate_id_loop :: "task_graph \<Rightarrow> string \<Rightarrow> nat \<Rightarrow> string" where
  "gate_id_loop g base n =
     (if \<not> has_node g (base @ show_nat n) then base @ show_nat n
      else gate_id_loop g base (Suc n))"
  by pat_completeness auto
termination
proof (relation "measure (\<lambda>(g, base, n). card {m. n \<le> m \<and> has_node g (base @ show_nat m)})",
    goal_cases)
  case 1
  show ?case by simp
next
  case (2 g base n)
  then have "n \<in> {m. n \<le> m \<and> has_node g (base @ show_nat m)}" by simp
  then have "{m. Suc n \<le> m \<and> has_node g (base @ show_nat m)}
      \<subset> {m. n \<le> m \<and> has_node g (base @ show_nat m)}"
    by (intro psubsetI) (auto, metis (mono_tags, lifting) mem_Collect_eq not_less_eq_eq order_refl)
  then show ?case using finite_taken_suffixes by (simp add: psubset_card_mono)
qed

declare gate_id_loop.simps [simp del]

definition unique_gate_id :: "task_graph \<Rightarrow> string \<Rightarrow> string" where
  "unique_gate_id g i =
     (let base = i @ ''::gate''
      in if \<not> has_node g base then base else gate_id_loop g base 2)"

fun gate_content :: "node_kind \<Rightarrow> string \<Rightarrow> string" where
  "gate_content Verify p =
     ''Verify the work of '' @ quote p @ '': run the declared acceptance checks (build, tests, lint). ''
     @ ''If anything fails, emit fix nodes back into the graph; do not pass until they drain.''"
| "gate_content _ p =
     ''Critique the work of '' @ quote p @ '' adversarially. Read every child''
     @ [CHR 0x27] @ ''s '' @ quote ''what_i_did_not_check''
     @ '' and find unexplored gaps given this task'' @ [CHR 0x27]
     @ ''s stated scope. For each gap, emit a new child node; do not pass until no gaps remain.''"

fun root_gate_content :: "node_kind \<Rightarrow> string" where
  "root_gate_content Verify =
     ''Final plan-wide verify: run the acceptance checks for the whole plan'' @ [CHR 0x27]
     @ ''s declared scope (build, tests, lint) across everything the plan changed. If ''
     @ ''anything fails, inject fix nodes; the plan cannot finish until they drain.''"
| "root_gate_content _ =
     ''Final plan-wide critique: audit the ENTIRE plan adversarially before it may ''
     @ ''finish. Read every completed node'' @ [CHR 0x27] @ ''s artifact, especially each ''
     @ quote ''what_i_did_not_check'' @ '' and every open question, and hunt for whole facets the ''
     @ ''plan never covered. For each gap, inject a new node; the plan cannot finish ''
     @ ''until they drain.''"

definition gate_node ::
  "string \<Rightarrow> string \<Rightarrow> node_kind \<Rightarrow> string option \<Rightarrow> string list \<Rightarrow> task_node" where
  "gate_node i c k par deps =
     \<lparr>nid = i, content = c, kind = k, status = Queued, owner = None, parent = par,
      depends_on = deps, expanded = False, is_gate = True, planner = None, priority = 0,
      node_output = None, origin = Some OGate\<rparr>"

definition root_nodes :: "task_graph \<Rightarrow> task_node list" where
  "root_nodes g = filter (\<lambda>n. parent n = None \<and> \<not> is_gate n) (nodes g)"

definition find_root_gate :: "task_graph \<Rightarrow> task_node option" where
  "find_root_gate g = find (\<lambda>n. is_gate n \<and> parent n = None) (nodes g)"

definition widen_gate :: "string list \<Rightarrow> task_node \<Rightarrow> task_node" where
  "widen_gate root_ids gate =
     (let widened = list_ex (\<lambda>i. i \<notin> set (depends_on gate)) root_ids;
          gate' = gate\<lparr>depends_on := push_missing (depends_on gate) root_ids\<rparr>
      in if widened \<and> node_is_terminal gate' then gate'\<lparr>status := Queued, owner := None\<rparr>
         else gate')"

definition ensure_root_gate :: "task_graph \<Rightarrow> task_graph" where
  "ensure_root_gate g =
     (let root_ids = map nid (root_nodes g)
      in if root_ids = [] then g
         else (case find_root_gate g of
            Some gate \<Rightarrow> modify g (nid gate) (widen_gate root_ids)
          | None \<Rightarrow>
              (let all_code = list_all (\<lambda>n. kind n = Implement \<or> kind n = Fix) (root_nodes g);
                   gk = (if all_code then Verify else Critique)
               in push g (gate_node (unique_gate_id g ''plan'') (root_gate_content gk) gk
                            None root_ids))))"

section \<open>Seeding\<close>

fun seed_collapse :: "node_spec list \<Rightarrow> node_spec list \<Rightarrow> dag_error + node_spec list" where
  "seed_collapse [] uniq = ok uniq"
| "seed_collapse (s # ss) uniq =
     and_then (validated_spec_id s ''seed'') (\<lambda>i.
       case find (\<lambda>u. spec_id u = Some i) uniq of
         Some u \<Rightarrow> (if \<not> seed_specs_equivalent u s then err (DuplicateNode i)
                    else seed_collapse ss uniq)
       | None \<Rightarrow> seed_collapse ss (uniq @ [s]))"

text \<open>
  Every dependency must name a spec of the batch or a node of the graph. The same check
  runs in \<open>seed\<close>, \<open>expand_node\<close> and \<open>inject_from_gate\<close>.
\<close>

fun check_deps :: "string set \<Rightarrow> task_graph \<Rightarrow> node_spec list \<Rightarrow> dag_error + unit" where
  "check_deps known g [] = ok ()"
| "check_deps known g (s # ss) =
     (case find (\<lambda>d. d \<notin> known \<and> \<not> has_node g d) (spec_depends_on s) of
        Some d \<Rightarrow> err (UnknownDependency (unwrap_or (spec_id s) []) d)
      | None \<Rightarrow> check_deps known g ss)"

fun seed_stage :: "task_graph \<Rightarrow> task_graph \<Rightarrow> node_spec list \<Rightarrow> dag_error + task_graph" where
  "seed_stage g staged [] = ok staged"
| "seed_stage g staged (s # ss) =
     (let i = unwrap_or (spec_id s) []
      in case get g i of
           Some existing \<Rightarrow>
             (if \<not> seed_spec_matches_existing g existing s then err (DuplicateNode i)
              else seed_stage g staged ss)
         | None \<Rightarrow> seed_stage g (push staged (spec_to_node s None OSeed)) ss)"

definition acyclic_or_err :: "task_graph \<Rightarrow> dag_error + task_graph" where
  "acyclic_or_err staged =
     (let cycle = cycle_nodes staged
      in if cycle \<noteq> [] then err (WouldCreateCycle cycle) else ok staged)"

definition spec_ids :: "node_spec list \<Rightarrow> string list" where
  "spec_ids ss = map (\<lambda>s. unwrap_or (spec_id s) []) ss"

definition seed :: "task_graph \<Rightarrow> node_spec list \<Rightarrow> dag_error + task_graph" where
  "seed g specs =
     and_then (seed_collapse specs []) (\<lambda>uniq.
     and_then (check_deps (set (spec_ids uniq)) g uniq) (\<lambda>_.
     and_then (seed_stage g g uniq) (\<lambda>staged.
       acyclic_or_err (if requires_gates (mode staged) then ensure_root_gate staged else staged))))"

section \<open>Expansion\<close>

record expand_outcome =
  child_ids :: "string list"
  outcome_gate_id :: "string option"

text \<open>
  Validated ids of new specs: none may be in the graph or repeated in the batch.
\<close>

fun fresh_spec_ids ::
  "task_graph \<Rightarrow> string \<Rightarrow> string set \<Rightarrow> node_spec list \<Rightarrow> dag_error + string list" where
  "fresh_spec_ids g opname seen [] = ok []"
| "fresh_spec_ids g opname seen (s # ss) =
     and_then (validated_spec_id s opname) (\<lambda>i.
       if has_node g i \<or> i \<in> seen then err (DuplicateNode i)
       else and_then (fresh_spec_ids g opname (insert i seen) ss) (\<lambda>rest. ok (i # rest)))"

definition push_specs :: "task_graph \<Rightarrow> node_spec list \<Rightarrow> string option \<Rightarrow> node_origin \<Rightarrow> task_graph" where
  "push_specs g ss par orig = fold (\<lambda>s g'. push g' (spec_to_node s par orig)) ss g"

definition expand_guard ::
  "task_graph \<Rightarrow> string \<Rightarrow> string \<Rightarrow> node_spec list \<Rightarrow> dag_error + task_node" where
  "expand_guard g i actor children =
     (case get g i of
        None \<Rightarrow> err (UnknownNode i)
      | Some n \<Rightarrow>
          if owner n \<noteq> Some actor then err (NotOwner i actor)
          else if is_gate n then
            err (GateMisuse (''gate node '' @ quote i @ '' cannot be decomposed''))
          else if expanded n \<or> status n \<noteq> Running then err (InvalidState i (status n))
          else if children = [] then err (GateMisuse ''expand requires at least one child'')
          else ok n)"

definition compose_parent :: "string list \<Rightarrow> task_node \<Rightarrow> task_node" where
  "compose_parent synth_deps n =
     n\<lparr>expanded := True, status := Queued,
       planner := (if planner n = None then owner n else planner n),
       owner := None,
       depends_on := push_missing (depends_on n) synth_deps\<rparr>"

definition expand_node ::
  "task_graph \<Rightarrow> string \<Rightarrow> string \<Rightarrow> node_spec list \<Rightarrow> dag_error + (task_graph \<times> expand_outcome)" where
  "expand_node g i actor children =
     and_then (expand_guard g i actor children) (\<lambda>_.
     and_then (fresh_spec_ids g ''expand'' {} children) (\<lambda>cids.
     and_then (check_deps (set cids) g children) (\<lambda>_.
       let staged = push_specs g children (Some i) OExpand;
           (staged2, synth_deps, gid) =
             (if requires_gates (mode staged) then
                let parent_kind = (case get staged i of None \<Rightarrow> Explore | Some n \<Rightarrow> kind n);
                    gk = gate_kind parent_kind;
                    gate_id = unique_gate_id staged i
                in (push staged (gate_node gate_id (gate_content gk i) gk (Some i) cids),
                    cids @ [gate_id], Some gate_id)
              else (staged, cids, None))
       in if \<not> has_node staged2 i then err (UnknownNode i)
          else and_then (acyclic_or_err (modify staged2 i (compose_parent synth_deps))) (\<lambda>g'.
                 ok (g', \<lparr>child_ids = cids, outcome_gate_id = gid\<rparr>)))))"

section \<open>Gate audits\<close>

definition is_id_char :: "char \<Rightarrow> bool" where
  "is_id_char c \<longleftrightarrow> is_ascii_alphanumeric c \<or> c \<in> {CHR ''-'', CHR ''_'', CHR ''.'', CHR '':''}"

definition before_ok :: "string \<Rightarrow> bool" where
  "before_ok pre \<longleftrightarrow> pre = [] \<or> \<not> is_id_char (last pre)"

definition after_ok :: "string \<Rightarrow> bool" where
  "after_ok post =
     (case post of
        [] \<Rightarrow> True
      | c # cs \<Rightarrow>
          (if c = CHR ''.'' \<or> c = CHR '':''
           then \<not> (case cs of [] \<Rightarrow> False | c' # _ \<Rightarrow> is_id_char c')
           else \<not> is_id_char c))"

text \<open>\<open>len_utf8\<close> of the first character of a string, 1 if there is none.\<close>

definition first_char_len :: "string \<Rightarrow> nat" where
  "first_char_len s = (case s of [] \<Rightarrow> 1 | _ # cs \<Rightarrow> Suc (length (takeWhile is_cont cs)))"

lemma first_char_len_pos: "0 < first_char_len s"
  by (cases s) (simp_all add: first_char_len_def)

function mentions_loop :: "string \<Rightarrow> string \<Rightarrow> nat \<Rightarrow> bool" where
  "mentions_loop txt i start =
     (case find_str (drop start txt) i of
        None \<Rightarrow> False
      | Some pos \<Rightarrow>
          let begin' = start + pos; end' = begin' + length i
          in if before_ok (take begin' txt) \<and> after_ok (drop end' txt) then True
             else let start' = begin' + first_char_len (drop begin' txt)
                  in if length txt \<le> start' then False else mentions_loop txt i start')"
  by pat_completeness auto
termination
proof (relation "measure (\<lambda>(txt, i, start). length txt - start)", goal_cases)
  case 1
  show ?case by simp
next
  case (2 t i start pos b e s')
  then show ?case using first_char_len_pos [of "drop b t"] by auto
qed

declare mentions_loop.simps [simp del]

definition mentions_node_id :: "string \<Rightarrow> string \<Rightarrow> bool" where
  "mentions_node_id txt i = (if i = [] then False else mentions_loop txt i 0)"

definition gate_coverage_enumeration_cap :: nat where
  "gate_coverage_enumeration_cap = 20"

definition gate_audit_scope :: "task_graph \<Rightarrow> task_node \<Rightarrow> task_node list" where
  "gate_audit_scope g gate =
     filter (\<lambda>n. \<not> is_gate n) (List.map_filter (get g) (depends_on gate))"

definition addressed :: "handoff_artifact \<Rightarrow> string \<Rightarrow> bool" where
  "addressed a i \<longleftrightarrow>
     mentions_node_id (findings a) i \<or> list_ex (\<lambda>q. mentions_node_id q i) (open_questions a)"

definition validate_artifact ::
  "mode \<Rightarrow> string \<Rightarrow> bool \<Rightarrow> handoff_artifact \<Rightarrow> dag_error + unit" where
  "validate_artifact m i gate a =
     (if \<not> requires_gates m then ok ()
      else if gate then ok ()
      else if trim (findings a) = [] then
        err (ThinArtifact i ''deep-mode artifact requires non-empty findings'')
      else if what_i_did_not_check a = [] then
        err (ThinArtifact i
          (''deep-mode artifact must list '' @ quote ''what_i_did_not_check'' @ '' (use an explicit ''
           @ quote ''nothing, fully covered'' @ '' entry only when truly exhaustive)''))
      else if artifact_level a = None then
        err (ThinArtifact i
          (''deep-mode artifact must state a confidence of low, medium, or high ''
           @ ''(honest '' @ quote ''low'' @ '' is welcome: it routes follow-up work instead of ''
           @ ''penalizing you)''))
      else ok ())"

definition validate_gate_pass :: "task_graph \<Rightarrow> string \<Rightarrow> handoff_artifact \<Rightarrow> dag_error + unit" where
  "validate_gate_pass g gid a =
     (case get g gid of
        None \<Rightarrow> ok ()
      | Some gate \<Rightarrow>
          let scope = gate_audit_scope g gate
          in if scope = [] then ok ()
             else
               let pending = map nid (filter (\<lambda>n. \<not> is_done n) scope)
               in if pending \<noteq> [] then err (StaleGateScope gid pending)
                  else
                    let debts = map nid (filter (\<lambda>n. \<not> addressed a (nid n))
                                  (filter (\<lambda>n. output_level n = Some Low) scope))
                    in if debts \<noteq> [] then err (UnaddressedLowConfidence gid debts)
                       else if length scope \<le> gate_coverage_enumeration_cap then
                         let uncovered = map nid (filter (\<lambda>n. \<not> addressed a (nid n)) scope)
                         in if uncovered \<noteq> [] then err (UncoveredSiblings gid uncovered) else ok ()
                       else
                         let uncovered = map nid (filter (\<lambda>n. \<not> addressed a (nid n))
                                           (filter (\<lambda>n. output_level n \<noteq> Some High) scope))
                         in if uncovered \<noteq> [] then err (UncoveredSiblings gid uncovered) else ok ())"

section \<open>Completion, failure, injection, retry\<close>

text \<open>The checks \<open>complete_node\<close> and \<open>fail_node\<close> open with.\<close>

definition owned_running :: "task_graph \<Rightarrow> string \<Rightarrow> string \<Rightarrow> dag_error + task_node" where
  "owned_running g i actor =
     (case get g i of
        None \<Rightarrow> err (UnknownNode i)
      | Some n \<Rightarrow>
          if owner n \<noteq> Some actor then err (NotOwner i actor)
          else if status n \<noteq> Running then err (InvalidState i (status n))
          else ok n)"

definition complete_node ::
  "task_graph \<Rightarrow> string \<Rightarrow> string \<Rightarrow> handoff_artifact \<Rightarrow> dag_error + task_graph" where
  "complete_node g i actor a =
     and_then (owned_running g i actor) (\<lambda>n.
     and_then (validate_artifact (mode g) i (is_gate n) a) (\<lambda>_.
     and_then (if is_gate n \<and> requires_gates (mode g) then validate_gate_pass g i a else ok ()) (\<lambda>_.
       ok (modify g i (\<lambda>n. n\<lparr>status := Done, node_output := Some a\<rparr>)))))"

definition fail_node :: "task_graph \<Rightarrow> string \<Rightarrow> string \<Rightarrow> dag_error + task_graph" where
  "fail_node g i actor =
     and_then (owned_running g i actor) (\<lambda>_.
       ok (modify g i (\<lambda>n. n\<lparr>status := Failed\<rparr>)))"

definition inject_guard ::
  "task_graph \<Rightarrow> string \<Rightarrow> string \<Rightarrow> node_spec list \<Rightarrow> dag_error + string option" where
  "inject_guard g gid actor new_nodes =
     (case get g gid of
        None \<Rightarrow> err (UnknownNode gid)
      | Some gate \<Rightarrow>
          if owner gate \<noteq> Some actor then err (NotOwner gid actor)
          else if \<not> is_gate gate then
            err (GateMisuse (''node '' @ quote gid @ '' is not a gate; use expand_node to decompose work''))
          else if status gate \<noteq> Running then err (InvalidState gid (status gate))
          else if new_nodes = [] then
            err (GateMisuse ''inject_from_gate requires at least one new node'')
          else ok (parent gate))"

definition reopen_gate :: "string list \<Rightarrow> task_node \<Rightarrow> task_node" where
  "reopen_gate new_ids gate =
     gate\<lparr>status := Queued, owner := None, depends_on := push_missing (depends_on gate) new_ids\<rparr>"

definition add_deps :: "string list \<Rightarrow> task_node \<Rightarrow> task_node" where
  "add_deps new_ids n = n\<lparr>depends_on := push_missing (depends_on n) new_ids\<rparr>"

definition inject_from_gate ::
  "task_graph \<Rightarrow> string \<Rightarrow> string \<Rightarrow> node_spec list \<Rightarrow> dag_error + (task_graph \<times> string list)" where
  "inject_from_gate g gid actor new_nodes =
     and_then (inject_guard g gid actor new_nodes) (\<lambda>par.
     and_then (fresh_spec_ids g ''inject_from_gate'' {} new_nodes) (\<lambda>new_ids.
     and_then (check_deps (set new_ids) g new_nodes) (\<lambda>_.
       let staged = push_specs g new_nodes par OGap
       in if \<not> has_node staged gid then err (UnknownNode gid)
          else
            let staged2 = modify staged gid (reopen_gate new_ids);
                staged3 = (case par of None \<Rightarrow> staged2 | Some p \<Rightarrow> modify staged2 p (add_deps new_ids))
            in and_then (acyclic_or_err staged3) (\<lambda>g'. ok (g', new_ids)))))"

definition requeue_failed :: "task_graph \<Rightarrow> string \<Rightarrow> dag_error + task_graph" where
  "requeue_failed g i =
     (case get g i of
        None \<Rightarrow> err (UnknownNode i)
      | Some n \<Rightarrow>
          if status n \<noteq> Failed then err (InvalidState i (status n))
          else ok (modify g i (\<lambda>n. n\<lparr>status := Queued, owner := None\<rparr>)))"

end
