(* ===== verification/Dag_Facts.thy ===== *)
theory Dag_Facts
  imports Dag_Ops
begin

text \<open>
  Laws of the graph primitives and the shape of the graph after each successful
  operation. A graph with distinct ids is the finite map \<open>get\<close>; every operation is
  described by the map it leaves.
\<close>

section \<open>Lookup, update, push\<close>

definition unique_ids :: "task_graph \<Rightarrow> bool" where
  "unique_ids g \<longleftrightarrow> distinct (map nid (nodes g))"

lemma get_SomeD: "get g i = Some n \<Longrightarrow> n \<in> set (nodes g) \<and> nid n = i"
  unfolding get_def by (drule find_SomeD) simp

lemma get_None_iff: "get g i = None \<longleftrightarrow> i \<notin> ids g"
  by (auto simp: get_def find_None_iff_all ids_def)

lemma has_node_iff: "has_node g i \<longleftrightarrow> i \<in> ids g"
  by (auto simp: has_node_def ids_def list_ex_iff)

lemma has_node_get: "has_node g i \<longleftrightarrow> get g i \<noteq> None"
  by (simp add: has_node_iff get_None_iff)

lemma get_Some_iff: "unique_ids g \<Longrightarrow> get g i = Some n \<longleftrightarrow> n \<in> set (nodes g) \<and> nid n = i"
  unfolding unique_ids_def
  by (metis find_key_unique get_SomeD get_def)

lemma mem_nodes_get: "unique_ids g \<Longrightarrow> n \<in> set (nodes g) \<Longrightarrow> get g (nid n) = Some n"
  by (simp add: get_Some_iff)

lemma dep_done_iff: "dep_done g d \<longleftrightarrow> (\<exists>n. get g d = Some n \<and> status n = Done)"
  by (auto simp: dep_done_def is_done_def split: option.splits)

lemma update_first_map:
  assumes "distinct (map nid ns)"
  shows "update_first i f ns = map (\<lambda>n. if nid n = i then f n else n) ns"
  using assms
proof (induction ns)
  case (Cons n ns)
  have "map (\<lambda>m. if nid m = i then f m else m) ns = ns" if "i \<notin> nid ` set ns"
    using that by (auto intro!: map_idI)
  then show ?case using Cons by auto
qed simp

lemma update_first_ids:
  assumes "\<And>n. nid (f n) = nid n"
  shows "map nid (update_first i f ns) = map nid ns"
  using assms by (induction ns) auto

lemma find_update_first:
  assumes "\<And>n. nid (f n) = nid n"
  shows "find (\<lambda>n. nid n = j) (update_first i f ns) =
    (if j = i then map_option f (find (\<lambda>n. nid n = j) ns) else find (\<lambda>n. nid n = j) ns)"
  using assms by (induction ns) auto

lemma get_modify:
  assumes "\<And>n. nid (f n) = nid n"
  shows "get (modify g i f) j = (if j = i then map_option f (get g j) else get g j)"
  by (simp add: get_def modify_def find_update_first [OF assms])

lemma ids_modify:
  assumes "\<And>n. nid (f n) = nid n"
  shows "ids (modify g i f) = ids g"
  using update_first_ids [OF assms]
  by (simp add: ids_def modify_def set_map [symmetric] del: set_map)

lemma unique_ids_modify:
  assumes "\<And>n. nid (f n) = nid n"
  shows "unique_ids (modify g i f) = unique_ids g"
  by (simp add: unique_ids_def modify_def update_first_ids [OF assms])

lemma mode_modify [graph_simps, simp]: "mode (modify g i f) = mode g"
  by (simp add: modify_def)

lemma mode_push [graph_simps, simp]: "mode (push g n) = mode g"
  by (simp add: push_def)

lemma ids_push [graph_simps, simp]: "ids (push g n) = insert (nid n) (ids g)"
  by (auto simp: ids_def push_def)

lemma get_push:
  "get (push g n) j = (case get g j of None \<Rightarrow> if nid n = j then Some n else None | Some m \<Rightarrow> Some m)"
  by (auto simp: get_def push_def find_append split: option.splits)

lemma unique_ids_push: "unique_ids g \<Longrightarrow> nid n \<notin> ids g \<Longrightarrow> unique_ids (push g n)"
  by (auto simp: unique_ids_def push_def ids_def)

text \<open>Appending a batch of nodes.\<close>

definition append_nodes :: "task_graph \<Rightarrow> task_node list \<Rightarrow> task_graph" where
  "append_nodes g ns = g\<lparr>nodes := nodes g @ ns\<rparr>"

lemma mode_append [graph_simps, simp]: "mode (append_nodes g ns) = mode g"
  by (simp add: append_nodes_def)

lemma ids_append [graph_simps, simp]: "ids (append_nodes g ns) = ids g \<union> nid ` set ns"
  by (auto simp: append_nodes_def ids_def)

lemma get_append:
  "get (append_nodes g ns) j =
     (case get g j of None \<Rightarrow> find (\<lambda>n. nid n = j) ns | Some m \<Rightarrow> Some m)"
  by (simp add: get_def append_nodes_def find_append)

lemma unique_ids_append:
  "unique_ids g \<Longrightarrow> distinct (map nid ns) \<Longrightarrow> nid ` set ns \<inter> ids g = {}
    \<Longrightarrow> unique_ids (append_nodes g ns)"
  by (auto simp: unique_ids_def append_nodes_def ids_def)

lemma push_append: "push (append_nodes g ns) n = append_nodes g (ns @ [n])"
  by (simp add: push_def append_nodes_def)

lemma push_specs_eq:
  "push_specs g ss par orig = append_nodes g (map (\<lambda>s. spec_to_node s par orig) ss)"
proof -
  have "fold (\<lambda>s g'. push g' (spec_to_node s par orig)) ss (append_nodes g ns)
      = append_nodes g (ns @ map (\<lambda>s. spec_to_node s par orig) ss)" for ns
    by (induction ss arbitrary: ns) (simp_all add: push_append)
  from this [of "[]"] show ?thesis by (simp add: push_specs_def append_nodes_def)
qed

lemma get_append_fresh:
  assumes "unique_ids g" "distinct (map nid ns)" "nid ` set ns \<inter> ids g = {}"
  shows "get (append_nodes g ns) j = Some m \<longleftrightarrow> get g j = Some m \<or> (m \<in> set ns \<and> nid m = j)"
proof -
  have "unique_ids (append_nodes g ns)" using assms by (rule unique_ids_append)
  then show ?thesis
    using assms(1) by (auto simp: get_Some_iff append_nodes_def)
qed

section \<open>Nodes built by the operations\<close>

lemma spec_to_node_fields [node_simps, simp]:
  "nid (spec_to_node s par orig) = unwrap_or (spec_id s) []"
  "status (spec_to_node s par orig) = Queued"
  "owner (spec_to_node s par orig) = None"
  "parent (spec_to_node s par orig) = par"
  "set (depends_on (spec_to_node s par orig)) = set (spec_depends_on s)"
  "\<not> expanded (spec_to_node s par orig)"
  "\<not> is_gate (spec_to_node s par orig)"
  "node_output (spec_to_node s par orig) = None"
  "origin (spec_to_node s par orig) = Some orig"
  "content (spec_to_node s par orig) = spec_content s"
  "kind (spec_to_node s par orig) = spec_kind s"
  "priority (spec_to_node s par orig) = spec_priority s"
  by (simp_all add: spec_to_node_def)

lemma gate_node_fields [node_simps, simp]:
  "nid (gate_node i c k par deps) = i"
  "status (gate_node i c k par deps) = Queued"
  "owner (gate_node i c k par deps) = None"
  "parent (gate_node i c k par deps) = par"
  "depends_on (gate_node i c k par deps) = deps"
  "\<not> expanded (gate_node i c k par deps)"
  "is_gate (gate_node i c k par deps)"
  "kind (gate_node i c k par deps) = k"
  "origin (gate_node i c k par deps) = Some OGate"
  by (simp_all add: gate_node_def)

lemma compose_parent_fields [node_simps, simp]:
  "nid (compose_parent ds n) = nid n"
  "status (compose_parent ds n) = Queued"
  "owner (compose_parent ds n) = None"
  "parent (compose_parent ds n) = parent n"
  "set (depends_on (compose_parent ds n)) = set (depends_on n) \<union> set ds"
  "expanded (compose_parent ds n)"
  "is_gate (compose_parent ds n) = is_gate n"
  by (simp_all add: compose_parent_def)

lemma reopen_gate_fields [node_simps, simp]:
  "nid (reopen_gate ds n) = nid n"
  "status (reopen_gate ds n) = Queued"
  "owner (reopen_gate ds n) = None"
  "parent (reopen_gate ds n) = parent n"
  "set (depends_on (reopen_gate ds n)) = set (depends_on n) \<union> set ds"
  "expanded (reopen_gate ds n) = expanded n"
  "is_gate (reopen_gate ds n) = is_gate n"
  by (simp_all add: reopen_gate_def)

lemma add_deps_fields [node_simps, simp]:
  "nid (add_deps ds n) = nid n"
  "status (add_deps ds n) = status n"
  "owner (add_deps ds n) = owner n"
  "parent (add_deps ds n) = parent n"
  "set (depends_on (add_deps ds n)) = set (depends_on n) \<union> set ds"
  "expanded (add_deps ds n) = expanded n"
  "is_gate (add_deps ds n) = is_gate n"
  by (simp_all add: add_deps_def)

lemma widen_gate_fields [node_simps, simp]:
  "nid (widen_gate rs n) = nid n"
  "parent (widen_gate rs n) = parent n"
  "set (depends_on (widen_gate rs n)) = set (depends_on n) \<union> set rs"
  "expanded (widen_gate rs n) = expanded n"
  "is_gate (widen_gate rs n) = is_gate n"
  by (simp_all add: widen_gate_def Let_def)

lemma widen_gate_id: "set rs \<subseteq> set (depends_on n) \<Longrightarrow> widen_gate rs n = n"
  by (auto simp: widen_gate_def Let_def push_missing_id list_ex_iff)

lemma widen_gate_lifecycle:
  "widen_gate rs n = n \<or>
   (status (widen_gate rs n) = Queued \<and> (status n = Queued \<longrightarrow> owner (widen_gate rs n) = owner n)
     \<and> (status n \<noteq> Queued \<longrightarrow> owner (widen_gate rs n) = None)) \<or>
   (status n = Running \<and> status (widen_gate rs n) = Running
     \<and> owner (widen_gate rs n) = owner n)"
proof (cases "set rs \<subseteq> set (depends_on n)")
  case True
  then show ?thesis using widen_gate_id by blast
next
  case False
  then have "list_ex (\<lambda>i. i \<notin> set (depends_on n)) rs" by (auto simp: list_ex_iff)
  then show ?thesis
    by (cases "status n") (simp_all add: widen_gate_def Let_def node_is_terminal_def)
qed

section \<open>Fresh gate ids\<close>

lemma gate_id_loop_fresh: "\<not> has_node g (gate_id_loop g base n)"
proof (induction g base n rule: gate_id_loop.induct)
  case (1 g base n)
  then show ?case by (subst gate_id_loop.simps) auto
qed

lemma unique_gate_id_fresh: "unique_gate_id g i \<notin> ids g"
  by (simp add: unique_gate_id_def Let_def has_node_iff [symmetric] gate_id_loop_fresh)

lemma gate_id_loop_least:
  "\<exists>m \<ge> n. gate_id_loop g base n = base @ show_nat m
     \<and> (\<forall>k. n \<le> k \<and> k < m \<longrightarrow> has_node g (base @ show_nat k))"
proof (induction g base n rule: gate_id_loop.induct)
  case (1 g base n)
  show ?case
  proof (cases "has_node g (base @ show_nat n)")
    case True
    with 1 obtain m where
      m: "m \<ge> Suc n" "gate_id_loop g base (Suc n) = base @ show_nat m"
        "\<forall>k. Suc n \<le> k \<and> k < m \<longrightarrow> has_node g (base @ show_nat k)" by auto
    have "gate_id_loop g base n = base @ show_nat m"
      using True m(2) by (subst gate_id_loop.simps) simp
    moreover have "\<forall>k. n \<le> k \<and> k < m \<longrightarrow> has_node g (base @ show_nat k)"
      using m(3) True by (metis not_less_eq_eq le_antisym)
    ultimately show ?thesis using m(1) by (intro exI [of _ m]) auto
  next
    case False
    then show ?thesis by (subst gate_id_loop.simps) (auto intro!: exI [of _ n])
  qed
qed

text \<open>The counter stays below the number of nodes plus its start.\<close>

lemma gate_id_loop_index:
  "\<exists>m. gate_id_loop g base n = base @ show_nat m \<and> n \<le> m \<and> m \<le> n + length (nodes g)"
proof -
  obtain m where m: "m \<ge> n" "gate_id_loop g base n = base @ show_nat m"
    "\<forall>k. n \<le> k \<and> k < m \<longrightarrow> has_node g (base @ show_nat k)"
    using gate_id_loop_least by blast
  have "(\<lambda>k. base @ show_nat k) ` {n..<m} \<subseteq> ids g"
    using m(3) by (auto simp: has_node_iff)
  moreover have "inj_on (\<lambda>k. base @ show_nat k) {n..<m}" by (auto simp: inj_on_def show_nat_inj)
  moreover have "finite (ids g)" by (simp add: ids_def)
  ultimately have "card {n..<m} \<le> card (ids g)" by (metis card_inj_on_le)
  also have "card (ids g) \<le> length (nodes g)" by (metis card_length ids_def length_map)
  finally show ?thesis using m by (intro exI [of _ m]) auto
qed

end
