(* ===== verification/Dag_Struct.thy ===== *)
theory Dag_Struct
  imports Dag_Facts
begin

text \<open>
  What each successful mutation did (\<open>*_ok\<close> lemmas) and the structural invariant of the
  engine: ids are unique, edges stay inside the graph and acyclic, every child is parented
  to a composite that waits for it, gates audit exactly the non-gate nodes under their
  parent, and in deep mode every composite and the root level have their gate.
\<close>

section \<open>Outcomes of the operations\<close>

lemma validated_spec_id_ok:
  "validated_spec_id s opn = Inr i \<longleftrightarrow> spec_id s = Some i \<and> trim i \<noteq> []"
  by (auto simp: validated_spec_id_def split: option.splits if_splits)

lemma spec_ids_simps [simp]:
  "spec_ids [] = []"
  "spec_ids (s # ss) = unwrap_or (spec_id s) [] # spec_ids ss"
  by (simp_all add: spec_ids_def)

lemma fresh_spec_ids_ok [op_elims]:
  "fresh_spec_ids g opn seen ss = Inr cids \<Longrightarrow>
     cids = spec_ids ss \<and> distinct cids \<and> set cids \<inter> (ids g \<union> seen) = {}"
proof (induction ss arbitrary: seen cids)
  case Nil
  then show ?case by simp
next
  case (Cons s ss)
  then obtain i rest where i: "spec_id s = Some i" "i \<notin> ids g" "i \<notin> seen"
    and rest: "fresh_spec_ids g opn (insert i seen) ss = Inr rest" "cids = i # rest"
    by (auto simp: and_then_ok_iff validated_spec_id_ok has_node_iff split: if_splits)
  have eq: "rest = spec_ids ss" using Cons.IH [OF rest(1)] by simp
  have "distinct (spec_ids ss)" "set (spec_ids ss) \<inter> (ids g \<union> insert i seen) = {}"
    using Cons.IH [OF rest(1)] by (simp_all add: eq)
  then show ?case using i rest(2) eq by auto
qed

lemma check_deps_ok [op_elims]:
  "check_deps known g ss = Inr u \<longleftrightarrow>
     (\<forall>s \<in> set ss. set (spec_depends_on s) \<subseteq> known \<union> ids g)"
  by (induction ss) (auto simp: find_None_iff_all has_node_iff split: option.splits
      dest!: find_SomeD)

lemma acyclic_or_err_ok [op_elims]:
  "acyclic_or_err g = Inr g' \<longleftrightarrow> g' = g \<and> acyclic (dep_rel g)"
  by (auto simp: acyclic_or_err_def Let_def cycle_nodes_Nil_iff)

definition spec_nodes :: "node_spec list \<Rightarrow> string option \<Rightarrow> node_origin \<Rightarrow> task_node list" where
  "spec_nodes ss par orig = map (\<lambda>s. spec_to_node s par orig) ss"

lemma nid_spec_nodes [simp]: "map nid (spec_nodes ss par orig) = spec_ids ss"
  by (simp add: spec_nodes_def spec_ids_def)

lemma nid_set_spec_nodes [simp]: "nid ` set (spec_nodes ss par orig) = set (spec_ids ss)"
  by (metis list.set_map nid_spec_nodes)

lemma spec_nodes_fields:
  "n \<in> set (spec_nodes ss par orig) \<Longrightarrow>
     status n = Queued \<and> owner n = None \<and> parent n = par \<and> \<not> is_gate n \<and> \<not> expanded n
     \<and> node_output n = None \<and> origin n = Some orig
     \<and> (\<exists>s \<in> set ss. set (depends_on n) = set (spec_depends_on s))"
  by (auto simp: spec_nodes_def)

text \<open>The nodes an expansion adds, and the join edges the parent gets.\<close>

definition expand_news :: "task_graph \<Rightarrow> string \<Rightarrow> node_kind \<Rightarrow> node_spec list \<Rightarrow> task_node list" where
  "expand_news g i k cs =
     spec_nodes cs (Some i) OExpand @
     (if requires_gates (mode g) then
        [gate_node (unique_gate_id (append_nodes g (spec_nodes cs (Some i) OExpand)) i)
           (gate_content (gate_kind k) i) (gate_kind k) (Some i) (spec_ids cs)]
      else [])"

lemma expand_guard_ok:
  "expand_guard g i actor cs = Inr n \<longleftrightarrow>
     get g i = Some n \<and> owner n = Some actor \<and> \<not> is_gate n \<and> \<not> expanded n
     \<and> status n = Running \<and> cs \<noteq> []"
  by (auto simp: expand_guard_def split: option.splits if_splits)

lemma expand_node_ok:
  assumes "expand_node g i actor cs = Inr (g', out)"
  obtains n where "get g i = Some n" "owner n = Some actor" "\<not> is_gate n" "\<not> expanded n"
    "status n = Running" "cs \<noteq> []" "child_ids out = spec_ids cs" "distinct (spec_ids cs)"
    "set (spec_ids cs) \<inter> ids g = {}"
    "\<forall>s \<in> set cs. set (spec_depends_on s) \<subseteq> set (spec_ids cs) \<union> ids g"
    "acyclic (dep_rel g')"
    "g' = modify (append_nodes g (expand_news g i (kind n) cs)) i
            (compose_parent (map nid (expand_news g i (kind n) cs)))"
    "outcome_gate_id out =
       (if requires_gates (mode g)
        then Some (unique_gate_id (append_nodes g (spec_nodes cs (Some i) OExpand)) i) else None)"
proof -
  from assms obtain n cids where guard: "expand_guard g i actor cs = Inr n"
    and f: "fresh_spec_ids g ''expand'' {} cs = Inr cids" and d: "check_deps (set cids) g cs = Inr ()"
    unfolding expand_node_def and_then_ok_iff by auto
  note e = fresh_spec_ids_ok [OF f]
  have fresh: "fresh_spec_ids g ''expand'' {} cs = Inr (spec_ids cs)" "distinct (spec_ids cs)"
      "set (spec_ids cs) \<inter> ids g = {}" and deps: "check_deps (set (spec_ids cs)) g cs = Inr ()"
    using e f d by auto
  have n: "get g i = Some n" using guard by (simp add: expand_guard_ok)
  have staged: "push_specs g cs (Some i) OExpand = append_nodes g (spec_nodes cs (Some i) OExpand)"
    by (simp add: push_specs_eq spec_nodes_def)
  have kind: "get (append_nodes g (spec_nodes cs (Some i) OExpand)) i = Some n"
    by (simp add: get_append n)
  from assms guard fresh(1) deps
  have "acyclic (dep_rel g') \<and> child_ids out = spec_ids cs \<and>
      g' = modify (append_nodes g (expand_news g i (kind n) cs)) i
            (compose_parent (map nid (expand_news g i (kind n) cs))) \<and>
      outcome_gate_id out =
       (if requires_gates (mode g)
        then Some (unique_gate_id (append_nodes g (spec_nodes cs (Some i) OExpand)) i) else None)"
    by (cases "requires_gates (mode g)")
      (auto simp: expand_node_def staged kind Let_def expand_news_def push_append and_then_ok_iff
        acyclic_or_err_ok split: if_splits)
  then show ?thesis
    using that [of n] n guard fresh(2,3) deps by (auto simp: expand_guard_ok check_deps_ok)
qed

lemma inject_guard_ok:
  "inject_guard g i actor ss = Inr par \<longleftrightarrow>
     (\<exists>n. get g i = Some n \<and> owner n = Some actor \<and> is_gate n \<and> status n = Running
        \<and> ss \<noteq> [] \<and> par = parent n)"
  by (auto simp: inject_guard_def split: option.splits if_splits)

definition inject_result ::
  "task_graph \<Rightarrow> string \<Rightarrow> string option \<Rightarrow> node_spec list \<Rightarrow> task_graph" where
  "inject_result g i par ss =
     (let g1 = modify (append_nodes g (spec_nodes ss par OGap)) i (reopen_gate (spec_ids ss))
      in case par of None \<Rightarrow> g1 | Some p \<Rightarrow> modify g1 p (add_deps (spec_ids ss)))"

lemma inject_from_gate_ok:
  assumes "inject_from_gate g i actor ss = Inr (g', new_ids)"
  obtains n where "get g i = Some n" "owner n = Some actor" "is_gate n" "status n = Running"
    "ss \<noteq> []" "new_ids = spec_ids ss" "distinct (spec_ids ss)" "set (spec_ids ss) \<inter> ids g = {}"
    "\<forall>s \<in> set ss. set (spec_depends_on s) \<subseteq> set (spec_ids ss) \<union> ids g"
    "acyclic (dep_rel g')" "g' = inject_result g i (parent n) ss"
proof -
  from assms obtain n cids where n: "get g i = Some n" "owner n = Some actor" "is_gate n"
      "status n = Running" "ss \<noteq> []"
    and f: "fresh_spec_ids g ''inject_from_gate'' {} ss = Inr cids"
    and d: "check_deps (set cids) g ss = Inr ()"
    unfolding inject_from_gate_def and_then_ok_iff inject_guard_ok by auto
  note e = fresh_spec_ids_ok [OF f]
  have fresh: "fresh_spec_ids g ''inject_from_gate'' {} ss = Inr (spec_ids ss)"
      "distinct (spec_ids ss)" "set (spec_ids ss) \<inter> ids g = {}"
    and deps: "check_deps (set (spec_ids ss)) g ss = Inr ()"
    using e f d by auto
  have guard: "inject_guard g i actor ss = Inr (parent n)" using n by (simp add: inject_guard_ok)
  have "acyclic (dep_rel g') \<and> new_ids = spec_ids ss \<and> g' = inject_result g i (parent n) ss"
    using assms guard fresh(1) deps
    by (cases "parent n")
      (auto simp: inject_from_gate_def Let_def and_then_ok_iff acyclic_or_err_ok push_specs_eq
        inject_result_def spec_nodes_def split: if_splits)
  then show ?thesis using that [OF n] fresh(2,3) deps check_deps_ok by blast
qed

lemma owned_running_ok:
  "owned_running g i actor = Inr n \<longleftrightarrow>
     get g i = Some n \<and> owner n = Some actor \<and> status n = Running"
  by (auto simp: owned_running_def split: option.splits if_splits)

lemma complete_node_ok [op_elims]:
  "complete_node g i actor a = Inr g' \<longleftrightarrow>
     (\<exists>n. get g i = Some n \<and> owner n = Some actor \<and> status n = Running
        \<and> validate_artifact (mode g) i (is_gate n) a = Inr ()
        \<and> (is_gate n \<and> requires_gates (mode g) \<longrightarrow> validate_gate_pass g i a = Inr ())
        \<and> g' = modify g i (\<lambda>n. n\<lparr>status := Done, node_output := Some a\<rparr>))"
  by (auto simp: complete_node_def and_then_ok_iff owned_running_ok)

lemma fail_node_ok [op_elims]:
  "fail_node g i actor = Inr g' \<longleftrightarrow>
     (\<exists>n. get g i = Some n \<and> owner n = Some actor \<and> status n = Running
        \<and> g' = modify g i (\<lambda>n. n\<lparr>status := Failed\<rparr>))"
  by (auto simp: fail_node_def and_then_ok_iff owned_running_ok)

lemma requeue_failed_ok [op_elims]:
  "requeue_failed g i = Inr g' \<longleftrightarrow>
     (\<exists>n. get g i = Some n \<and> status n = Failed
        \<and> g' = modify g i (\<lambda>n. n\<lparr>status := Queued, owner := None\<rparr>))"
  by (auto simp: requeue_failed_def split: option.splits if_splits)

lemma dispatch_True [op_elims]:
  "dispatch g i w = (g', True) \<longleftrightarrow>
     (\<exists>n. get g i = Some n \<and> status n = Queued \<and> deps_satisfied g n
        \<and> g' = modify g i (\<lambda>n. n\<lparr>owner := Some w, status := Running\<rparr>))"
  by (auto simp: dispatch_def dispatchable_def split: option.splits if_splits)

text \<open>Seeding: the specs that survive the collapse, and those not in the graph yet.\<close>

lemma seed_collapse_ok:
  "seed_collapse ss uniq = Inr us \<Longrightarrow> distinct (map spec_id uniq) \<Longrightarrow>
     distinct (map spec_id us) \<and> set uniq \<subseteq> set us \<and> set us \<subseteq> set uniq \<union> set ss
     \<and> (\<forall>s \<in> set ss. spec_id s \<noteq> None
           \<and> (\<exists>u \<in> set us. spec_id u = spec_id s \<and> seed_specs_equivalent u s))"
proof (induction ss arbitrary: uniq)
  case Nil
  then show ?case by simp
next
  case (Cons s ss)
  from Cons.prems obtain i where i: "spec_id s = Some i" "trim i \<noteq> []"
    by (auto simp: and_then_ok_iff validated_spec_id_ok)
  then have v: "validated_spec_id s ''seed'' = Inr i" by (simp add: validated_spec_id_ok)
  show ?case
  proof (cases "find (\<lambda>u. spec_id u = Some i) uniq")
    case None
    then have "spec_id s \<notin> spec_id ` set uniq" using i by (auto simp: find_None_iff_all)
    then have d: "distinct (map spec_id (uniq @ [s]))" using Cons.prems(2) by auto
    have "seed_collapse ss (uniq @ [s]) = Inr us" using Cons.prems(1) v None by simp
    from Cons.IH [OF this d] show ?thesis
      using i by (auto simp: seed_specs_equivalent_def dependency_sets_equal_def)
  next
    case (Some u)
    then have u: "u \<in> set uniq" "spec_id u = Some i" by (auto dest: find_SomeD)
    have e: "seed_specs_equivalent u s" and r: "seed_collapse ss uniq = Inr us"
      using Cons.prems(1) v Some by (auto split: if_splits)
    from Cons.IH [OF r Cons.prems(2)] show ?thesis using u e i by auto
  qed
qed

lemma seed_stage_ok:
  "seed_stage g (append_nodes g ns) us = Inr staged \<Longrightarrow>
     staged = append_nodes g
       (ns @ spec_nodes (filter (\<lambda>s. unwrap_or (spec_id s) [] \<notin> ids g) us) None OSeed)
     \<and> (\<forall>s \<in> set us. \<forall>n. get g (unwrap_or (spec_id s) []) = Some n
           \<longrightarrow> seed_spec_matches_existing g n s)"
proof (induction us arbitrary: ns)
  case Nil
  then show ?case by (simp add: spec_nodes_def)
next
  case (Cons s us)
  let ?i = "unwrap_or (spec_id s) []"
  show ?case
  proof (cases "get g ?i")
    case None
    then have "seed_stage g (append_nodes g (ns @ [spec_to_node s None OSeed])) us = Inr staged"
      using Cons.prems by (simp add: Let_def push_append)
    note ih = Cons.IH [OF this]
    have "?i \<notin> ids g" using None by (simp add: get_None_iff)
    with ih None show ?thesis by (simp add: spec_nodes_def)
  next
    case (Some n)
    then have m: "seed_spec_matches_existing g n s" "seed_stage g (append_nodes g ns) us = Inr staged"
      using Cons.prems by (auto simp: Let_def split: if_splits)
    have "?i \<in> ids g" using Some by (metis get_None_iff option.distinct(1))
    then show ?thesis using Cons.IH [OF m(2)] m(1) Some by simp
  qed
qed

definition seed_news :: "task_graph \<Rightarrow> node_spec list \<Rightarrow> task_node list" where
  "seed_news g us = spec_nodes (filter (\<lambda>s. unwrap_or (spec_id s) [] \<notin> ids g) us) None OSeed"

definition gate_if_deep :: "task_graph \<Rightarrow> task_graph" where
  "gate_if_deep g = (if requires_gates (mode g) then ensure_root_gate g else g)"

lemma append_Nil [simp]: "append_nodes g [] = g"
  by (simp add: append_nodes_def)

lemma seed_ok:
  assumes "seed g specs = Inr g'"
  obtains us where "seed_collapse specs [] = Inr us"
    "\<forall>s \<in> set us. \<exists>i. spec_id s = Some i" "distinct (spec_ids us)"
    "\<forall>s \<in> set us. set (spec_depends_on s) \<subseteq> set (spec_ids us) \<union> ids g"
    "\<forall>s \<in> set us. \<forall>n. get g (unwrap_or (spec_id s) []) = Some n
       \<longrightarrow> seed_spec_matches_existing g n s"
    "acyclic (dep_rel g')"
    "g' = gate_if_deep (append_nodes g (seed_news g us))"
proof -
  from assms obtain us staged where us: "seed_collapse specs [] = Inr us"
    and deps: "check_deps (set (spec_ids us)) g us = Inr ()"
    and st: "seed_stage g g us = Inr staged" and fin: "acyclic_or_err (gate_if_deep staged) = Inr g'"
    unfolding seed_def and_then_ok_iff gate_if_deep_def by auto
  from seed_collapse_ok [OF us]
  have d: "distinct (map spec_id us)" and sub: "set us \<subseteq> set specs"
    and some: "\<forall>s \<in> set specs. spec_id s \<noteq> None" by auto
  have ids: "\<forall>s \<in> set us. \<exists>i. spec_id s = Some i" using sub some by blast
  have "inj_on (\<lambda>s. unwrap_or (spec_id s) []) (set us)"
    using d ids unfolding distinct_map inj_on_def by (metis unwrap_or_simps(2))
  then have "distinct (spec_ids us)"
    using d by (simp add: spec_ids_def distinct_map)
  moreover have "seed_stage g (append_nodes g []) us = Inr staged" using st by simp
  note seed_stage_ok [OF this]
  ultimately show ?thesis
    using that [OF us ids] deps fin by (auto simp: check_deps_ok acyclic_or_err_ok seed_news_def)
qed

end
