(* ===== verification/Dag_Shape.thy ===== *)
theory Dag_Shape
  imports Dag_Struct
begin

text \<open>
  The shape of a task graph, stated on its lookup map: which nodes exist, how they are
  parented, which are gates and what the gates wait for. Each mutation of the engine is
  one of four map updates, and each of these keeps the shape.
\<close>

type_synonym node_map = "string \<Rightarrow> task_node option"

section \<open>The clauses\<close>

definition closed_deps :: "node_map \<Rightarrow> bool" where
  "closed_deps M \<longleftrightarrow> (\<forall>i n d. M i = Some n \<longrightarrow> d \<in> set (depends_on n) \<longrightarrow> M d \<noteq> None)"

definition light_ungated :: "mode \<Rightarrow> node_map \<Rightarrow> bool" where
  "light_ungated m M \<longleftrightarrow> requires_gates m \<or> (\<forall>i n. M i = Some n \<longrightarrow> \<not> is_gate n)"

text \<open>A node with a parent belongs to a composite that waits for it.\<close>

definition parented :: "node_map \<Rightarrow> bool" where
  "parented M \<longleftrightarrow> (\<forall>i n p. M i = Some n \<longrightarrow> parent n = Some p
     \<longrightarrow> (\<exists>q. M p = Some q \<and> expanded q \<and> i \<in> set (depends_on q)))"

definition flat_gates :: "node_map \<Rightarrow> bool" where
  "flat_gates M \<longleftrightarrow> (\<forall>i n. M i = Some n \<longrightarrow> is_gate n \<longrightarrow> \<not> expanded n)"

text \<open>A gate waits for exactly the non-gate nodes under its parent (the root gate: for the
  non-gate nodes without a parent).\<close>

definition scoped :: "node_map \<Rightarrow> bool" where
  "scoped M \<longleftrightarrow> (\<forall>i g. M i = Some g \<longrightarrow> is_gate g
     \<longrightarrow> (\<forall>d. d \<in> set (depends_on g)
               \<longleftrightarrow> (\<exists>c. M d = Some c \<and> \<not> is_gate c \<and> parent c = parent g)))"

definition one_gate :: "node_map \<Rightarrow> bool" where
  "one_gate M \<longleftrightarrow> (\<forall>i g j h. M i = Some g \<longrightarrow> M j = Some h \<longrightarrow> is_gate g \<longrightarrow> is_gate h
     \<longrightarrow> parent g = parent h \<longrightarrow> i = j)"

definition composite_gated :: "mode \<Rightarrow> node_map \<Rightarrow> bool" where
  "composite_gated m M \<longleftrightarrow> requires_gates m \<longrightarrow> (\<forall>i n. M i = Some n \<longrightarrow> expanded n
     \<longrightarrow> (\<exists>j g. M j = Some g \<and> is_gate g \<and> parent g = Some i))"

definition root_gated :: "mode \<Rightarrow> node_map \<Rightarrow> bool" where
  "root_gated m M \<longleftrightarrow> requires_gates m
     \<longrightarrow> (\<exists>i n. M i = Some n \<and> \<not> is_gate n \<and> parent n = None)
     \<longrightarrow> (\<exists>j g. M j = Some g \<and> is_gate g \<and> parent g = None)"

definition shape :: "mode \<Rightarrow> node_map \<Rightarrow> bool" where
  "shape m M \<longleftrightarrow> closed_deps M \<and> light_ungated m M \<and> parented M \<and> flat_gates M \<and> scoped M
     \<and> one_gate M \<and> composite_gated m M \<and> root_gated m M"

lemmas shape_defs = closed_deps_def light_ungated_def parented_def flat_gates_def scoped_def
  one_gate_def composite_gated_def root_gated_def

lemma shape_parentD:
  "shape m M \<Longrightarrow> M i = Some n \<Longrightarrow> parent n = Some p
     \<Longrightarrow> \<exists>q. M p = Some q \<and> expanded q \<and> i \<in> set (depends_on q)"
  unfolding shape_def parented_def by blast

lemma shape_scopeD:
  "shape m M \<Longrightarrow> M i = Some g \<Longrightarrow> is_gate g
     \<Longrightarrow> d \<in> set (depends_on g) \<longleftrightarrow> (\<exists>c. M d = Some c \<and> \<not> is_gate c \<and> parent c = parent g)"
  unfolding shape_def scoped_def by blast

lemma shape_closedD: "shape m M \<Longrightarrow> M i = Some n \<Longrightarrow> d \<in> set (depends_on n) \<Longrightarrow> \<exists>c. M d = Some c"
  unfolding shape_def closed_deps_def by blast

lemma shape_childless:
  "shape m M \<Longrightarrow> M i = Some n \<Longrightarrow> \<not> expanded n \<Longrightarrow> M j = Some c \<Longrightarrow> parent c \<noteq> Some i"
  using shape_parentD by fastforce

lemma shape_empty: "shape m (\<lambda>_. None)"
  by (simp add: shape_def shape_defs)

section \<open>Lifecycle updates\<close>

text \<open>The fields that decide the shape.\<close>

definition same_place :: "task_node \<Rightarrow> task_node \<Rightarrow> bool" where
  "same_place n' n \<longleftrightarrow> nid n' = nid n \<and> parent n' = parent n \<and> depends_on n' = depends_on n
     \<and> expanded n' = expanded n \<and> is_gate n' = is_gate n"

lemma shape_same_place:
  assumes S: "shape m M"
    and old: "\<And>j x. M' j = Some x \<Longrightarrow> \<exists>y. M j = Some y \<and> same_place x y"
    and new: "\<And>j y. M j = Some y \<Longrightarrow> \<exists>x. M' j = Some x \<and> same_place x y"
  shows "shape m M'"
proof -
  have dom: "M' j = None \<longleftrightarrow> M j = None" for j
    using old new by (metis option.distinct(1) option.exhaust)
  have c: "closed_deps M'" and l: "light_ungated m M'" and f: "flat_gates M'"
    using S old dom unfolding shape_def closed_deps_def light_ungated_def flat_gates_def same_place_def
    by metis+
  have p: "parented M'"
    using S old new unfolding shape_def parented_def same_place_def by metis
  have "(\<exists>c. M' d = Some c \<and> \<not> is_gate c \<and> parent c = q)
      \<longleftrightarrow> (\<exists>c. M d = Some c \<and> \<not> is_gate c \<and> parent c = q)" for d q
    using old new unfolding same_place_def by metis
  note iff = this
  have s: "scoped M'"
    unfolding scoped_def
  proof (intro allI impI)
    fix j g d
    assume "M' j = Some g" "is_gate g"
    then obtain y where y: "M j = Some y" "is_gate y" "depends_on g = depends_on y"
      "parent g = parent y" using old unfolding same_place_def by blast
    show "d \<in> set (depends_on g) \<longleftrightarrow> (\<exists>c. M' d = Some c \<and> \<not> is_gate c \<and> parent c = parent g)"
      using shape_scopeD [OF S y(1,2), of d] iff [of d "parent y"] y(3,4) by simp
  qed
  have o: "one_gate M'"
    using S old unfolding shape_def one_gate_def same_place_def by metis
  have g: "composite_gated m M'"
    using S old new unfolding shape_def composite_gated_def same_place_def by metis
  have r: "root_gated m M'"
    using S old new unfolding shape_def root_gated_def same_place_def by metis
  show ?thesis unfolding shape_def using c l p f s o g r by blast
qed

section \<open>Expansion\<close>

lemma shape_expand:
  assumes S: "shape m M" and n: "M i = Some n" "\<not> expanded n" "\<not> is_gate n"
    and M': "\<And>j x. M' j = Some x \<longleftrightarrow>
        (j = i \<and> x = n') \<or> (j \<noteq> i \<and> (M j = Some x \<or> (x \<in> B \<and> nid x = j)))"
    and n': "parent n' = parent n" "expanded n'" "\<not> is_gate n'"
      "set (depends_on n') = set (depends_on n) \<union> nid ` B"
    and B: "\<And>x. x \<in> B \<Longrightarrow> parent x = Some i \<and> \<not> expanded x \<and> M (nid x) = None"
    and Bdeps: "\<And>x d. x \<in> B \<Longrightarrow> d \<in> set (depends_on x) \<Longrightarrow> M d \<noteq> None \<or> d \<in> nid ` B"
    and deep: "requires_gates m \<Longrightarrow> \<exists>x \<in> B. is_gate x"
    and light: "\<not> requires_gates m \<Longrightarrow> \<forall>x \<in> B. \<not> is_gate x"
    and gate: "\<And>x. x \<in> B \<Longrightarrow> is_gate x \<Longrightarrow>
        set (depends_on x) = nid ` {y \<in> B. \<not> is_gate y} \<and> (\<forall>y \<in> B. is_gate y \<longrightarrow> y = x)"
  shows "shape m M'"
proof -
  have ME: "(j = i \<and> x = n') \<or> (j \<noteq> i \<and> M j = Some x) \<or> (j \<noteq> i \<and> x \<in> B \<and> nid x = j)"
    if "M' j = Some x" for j x
    using iffD1 [OF M' that] by blast
  have Mi: "M' i = Some n'" and Mold: "\<And>j x. M j = Some x \<Longrightarrow> j \<noteq> i \<Longrightarrow> M' j = Some x"
    by (simp_all add: M')
  have Bi: "x \<in> B \<Longrightarrow> nid x \<noteq> i" for x using B n(1) by fastforce
  have Mnew: "x \<in> B \<Longrightarrow> M' (nid x) = Some x" for x using Bi by (simp add: M')
  have dom: "M' d \<noteq> None \<longleftrightarrow> M d \<noteq> None \<or> d \<in> nid ` B" for d
  proof -
    have "M' d \<noteq> None \<longleftrightarrow> (\<exists>x. M' d = Some x)" by simp
    then show ?thesis using n(1) unfolding M' by auto
  qed
  have c: "closed_deps M'"
    unfolding closed_deps_def dom
  proof (intro allI impI)
    fix j x d
    assume x: "M' j = Some x" "d \<in> set (depends_on x)"
    show "M d \<noteq> None \<or> d \<in> nid ` B"
      using x n'(4) Bdeps shape_closedD [OF S] n(1) unfolding M' by blast
  qed
  have l: "light_ungated m M'"
    using S ME n'(3) light unfolding shape_def light_ungated_def by metis
  have f: "flat_gates M'"
    using S ME n'(3) B unfolding shape_def flat_gates_def by metis
  have nobody: "parent x \<noteq> Some i" if "M j = Some x" for j x
    using shape_childless [OF S n(1,2) that] .
  have p: "parented M'"
    unfolding parented_def
  proof (intro allI impI)
    fix j x p
    assume x: "M' j = Some x" "parent x = Some p"
    from x(1) consider "x \<in> B" "nid x = j" | "j = i" "x = n'" | "M j = Some x"
      using ME by blast
    then consider "x \<in> B" "nid x = j" | y where "M j = Some y" "parent y = Some p"
      using n(1) n'(1) x(2) by metis
    then show "\<exists>q. M' p = Some q \<and> expanded q \<and> j \<in> set (depends_on q)"
    proof cases
      case 1
      then have "p = i" using B x(2) by fastforce
      then show ?thesis using Mi n'(2,4) 1 by blast
    next
      case 2
      with shape_parentD [OF S] obtain q where
        q: "M p = Some q" "expanded q" "j \<in> set (depends_on q)" by blast
      then have "p \<noteq> i" using n by auto
      then show ?thesis using q Mold by blast
    qed
  qed
  have s: "scoped M'"
    unfolding scoped_def
  proof (intro allI impI)
    fix j g d
    assume g: "M' j = Some g" "is_gate g"
    then have ji: "j \<noteq> i" using Mi n'(3) by auto
    show "d \<in> set (depends_on g) \<longleftrightarrow> (\<exists>c. M' d = Some c \<and> \<not> is_gate c \<and> parent c = parent g)"
    proof (cases "M j = Some g")
      case True
      have "parent g \<noteq> Some i" using nobody True .
      moreover have "(\<exists>c. M' d = Some c \<and> \<not> is_gate c \<and> parent c = q)
          \<longleftrightarrow> (\<exists>c. M d = Some c \<and> \<not> is_gate c \<and> parent c = q)" (is "?l = ?r") if q: "q \<noteq> Some i" for q
      proof
        assume ?l
        then obtain c where c: "M' d = Some c" "\<not> is_gate c" "parent c = q" by blast
        from c(1) consider "d = i" "c = n'" | "M d = Some c" | "c \<in> B" using ME by blast
        then show ?r
        proof cases
          case 1
          then show ?thesis using n n'(1) c by auto
        next
          case 2
          then show ?thesis using c by blast
        next
          case 3
          then show ?thesis using B c(3) q by metis
        qed
      next
        assume ?r
        then obtain c where c: "M d = Some c" "\<not> is_gate c" "parent c = q" by blast
        show ?l
        proof (cases "d = i")
          case True
          then have "M' d = Some n'" "parent n' = q" using c n n'(1) Mi by auto
          then show ?thesis using n'(3) by blast
        next
          case False
          then show ?thesis using c Mold by blast
        qed
      qed
      ultimately show ?thesis using shape_scopeD [OF S True g(2)] by simp
    next
      case False
      then have "g \<in> B" using ME [OF g(1)] ji by blast
      then have e: "set (depends_on g) = nid ` {y \<in> B. \<not> is_gate y}" "parent g = Some i"
        using gate g(2) B by blast+
      have "M' d = Some c \<and> \<not> is_gate c \<and> parent c = Some i
          \<longleftrightarrow> c \<in> B \<and> nid c = d \<and> \<not> is_gate c" (is "?l \<longleftrightarrow> ?r") for c
      proof
        assume ?l
        then show ?r using nobody [of d c] nobody [OF n(1)] n'(1) ME [of d c] by auto
      next
        assume ?r
        then show ?l using B Mnew by blast
      qed
      then show ?thesis using e by auto
    qed
  qed
  have o: "one_gate M'"
    unfolding one_gate_def
  proof (intro allI impI)
    fix j g k h
    assume "M' j = Some g" "M' k = Some h" "is_gate g" "is_gate h" "parent g = parent h"
    then show "j = k"
      using S ME n'(3) B gate nobody unfolding shape_def one_gate_def by metis
  qed
  have cg: "composite_gated m M'"
    unfolding composite_gated_def
  proof (intro impI allI)
    fix j x
    assume m: "requires_gates m" and x: "M' j = Some x" "expanded x"
    show "\<exists>k g. M' k = Some g \<and> is_gate g \<and> parent g = Some j"
    proof (cases "j = i")
      case True
      obtain G where "G \<in> B" "is_gate G" using deep m by blast
      then show ?thesis using True B Mnew by blast
    next
      case False
      then have "M j = Some x" using x B ME by blast
      then obtain k g where "M k = Some g" "is_gate g" "parent g = Some j"
        using S m x(2) unfolding shape_def composite_gated_def by blast
      then show ?thesis using Mold n(1,3) by (metis option.inject)
    qed
  qed
  have rg: "root_gated m M'"
    unfolding root_gated_def
  proof (intro impI)
    assume m: "requires_gates m" and "\<exists>j x. M' j = Some x \<and> \<not> is_gate x \<and> parent x = None"
    then obtain j x where x: "M' j = Some x" "\<not> is_gate x" "parent x = None" by blast
    then have "\<exists>j x. M j = Some x \<and> \<not> is_gate x \<and> parent x = None"
      using ME [OF x(1)] n n'(1) B by (metis option.distinct(1))
    then obtain k g where g: "M k = Some g" "is_gate g" "parent g = None"
      using S m unfolding shape_def root_gated_def by blast
    then show "\<exists>j g. M' j = Some g \<and> is_gate g \<and> parent g = None"
      using Mold n(1,3) by (metis option.inject)
  qed
  show ?thesis unfolding shape_def using c l p f s o cg rg by blast
qed

section \<open>Growing the scope of a gate\<close>

text \<open>
  New siblings under a gate (\<open>inject_from_gate\<close>, or new seeds under the root gate): the
  gate and the parent, if there is one, wait for them.
\<close>

lemma shape_grow:
  assumes S: "shape m M" and h: "M gid = Some h" "is_gate h" "parent h = par"
    and M': "\<And>j x. M' j = Some x \<longleftrightarrow> (\<exists>y. M j = Some y \<and> x = f j y) \<or> (x \<in> B \<and> nid x = j)"
    and f: "\<And>j y. M j = Some y \<Longrightarrow> parent (f j y) = parent y \<and> expanded (f j y) = expanded y
        \<and> is_gate (f j y) = is_gate y \<and> set (depends_on (f j y))
            = set (depends_on y) \<union> (if j = gid \<or> par = Some j then nid ` B else {})"
    and B: "\<And>x. x \<in> B \<Longrightarrow> parent x = par \<and> \<not> expanded x \<and> \<not> is_gate x \<and> M (nid x) = None"
    and Bdeps: "\<And>x d. x \<in> B \<Longrightarrow> d \<in> set (depends_on x) \<Longrightarrow> M d \<noteq> None \<or> d \<in> nid ` B"
  shows "shape m M'"
proof -
  have ME: "(\<exists>y. M j = Some y \<and> x = f j y) \<or> (x \<in> B \<and> nid x = j)" if "M' j = Some x" for j x
    using iffD1 [OF M' that] .
  have Mold: "M' j = Some (f j y)" if "M j = Some y" for j y using that M' by blast
  have Mnew: "x \<in> B \<Longrightarrow> M' (nid x) = Some x" for x using M' by blast
  have dom: "M d \<noteq> None \<or> d \<in> nid ` B \<Longrightarrow> M' d \<noteq> None" for d
    using Mold Mnew by (metis image_iff not_None_eq)
  have c: "closed_deps M'"
    unfolding closed_deps_def
  proof (intro allI impI)
    fix j x d
    assume x: "M' j = Some x" and d: "d \<in> set (depends_on x)"
    from ME [OF x] show "M' d \<noteq> None"
    proof (elim disjE exE conjE)
      fix y
      assume y: "M j = Some y" "x = f j y"
      then have "d \<in> set (depends_on y) \<or> d \<in> nid ` B" using f d by (auto split: if_splits)
      then show ?thesis using shape_closedD [OF S y(1)] dom by blast
    next
      assume "x \<in> B"
      then show ?thesis using Bdeps d dom by blast
    qed
  qed
  have l: "light_ungated m M'"
    using S ME f B unfolding shape_def light_ungated_def by metis
  have fl: "flat_gates M'"
    using S ME f B unfolding shape_def flat_gates_def by metis
  have p: "parented M'"
    unfolding parented_def
  proof (intro allI impI)
    fix j x p
    assume x: "M' j = Some x" "parent x = Some p"
    from ME [OF x(1)] show "\<exists>q. M' p = Some q \<and> expanded q \<and> j \<in> set (depends_on q)"
    proof (elim disjE exE conjE)
      fix y
      assume "M j = Some y" "x = f j y"
      then obtain q where "M p = Some q" "expanded q" "j \<in> set (depends_on q)"
        using x(2) f shape_parentD [OF S] by metis
      then show ?thesis using Mold f by (metis Un_iff)
    next
      assume new: "x \<in> B" "nid x = j"
      then have par: "par = Some p" using B x(2) by metis
      then obtain q where "M p = Some q" "expanded q" using shape_parentD [OF S h(1)] h(3) by blast
      moreover from this have "j \<in> set (depends_on (f p q))" using f par new by auto
      ultimately show ?thesis using Mold f by metis
    qed
  qed
  have kids: "(\<exists>c. M' d = Some c \<and> \<not> is_gate c \<and> parent c = q)
      \<longleftrightarrow> (\<exists>c. M d = Some c \<and> \<not> is_gate c \<and> parent c = q) \<or> (q = par \<and> d \<in> nid ` B)" for d q
  proof
    assume "\<exists>c. M' d = Some c \<and> \<not> is_gate c \<and> parent c = q"
    then show "(\<exists>c. M d = Some c \<and> \<not> is_gate c \<and> parent c = q) \<or> (q = par \<and> d \<in> nid ` B)"
      using ME f B by (metis image_eqI)
  next
    assume "(\<exists>c. M d = Some c \<and> \<not> is_gate c \<and> parent c = q) \<or> (q = par \<and> d \<in> nid ` B)"
    then show "\<exists>c. M' d = Some c \<and> \<not> is_gate c \<and> parent c = q"
      using Mold Mnew f B by (metis imageE)
  qed
  have one: "j = k"
    if "M j = Some g1" "M k = Some g2" "is_gate g1" "is_gate g2" "parent g1 = parent g2" for j k g1 g2
    using that S unfolding shape_def one_gate_def by blast
  have s: "scoped M'"
    unfolding scoped_def kids
  proof (intro allI impI)
    fix j g d
    assume g: "M' j = Some g" "is_gate g"
    then obtain y where y: "M j = Some y" "g = f j y" using ME B by metis
    then have gy: "is_gate y" "parent g = parent y" using f g(2) by metis+
    have "(j = gid \<or> par = Some j) \<longleftrightarrow> parent y = par"
    proof
      assume "j = gid \<or> par = Some j"
      moreover have "par \<noteq> Some j"
        using shape_parentD [OF S h(1)] h(3) y(1) gy(1) S unfolding shape_def flat_gates_def by force
      ultimately show "parent y = par" using h y(1) by auto
    next
      assume "parent y = par"
      then show "j = gid \<or> par = Some j" using one [OF y(1) h(1) gy(1) h(2)] h(3) by simp
    qed
    then have "d \<in> set (depends_on g) \<longleftrightarrow> d \<in> set (depends_on y) \<or> (parent y = par \<and> d \<in> nid ` B)"
      using f [OF y(1)] y(2) by auto
    then show "d \<in> set (depends_on g) \<longleftrightarrow>
        (\<exists>c. M d = Some c \<and> \<not> is_gate c \<and> parent c = parent g) \<or> (parent g = par \<and> d \<in> nid ` B)"
      using shape_scopeD [OF S y(1) gy(1)] gy(2) by simp
  qed
  have o: "one_gate M'"
    unfolding one_gate_def
  proof (intro allI impI)
    fix j g k h
    assume a: "M' j = Some g" "M' k = Some h" "is_gate g" "is_gate h" "parent g = parent h"
    then obtain y z where "M j = Some y" "g = f j y" "M k = Some z" "h = f k z" using ME B by metis
    then show "j = k" using one f a(3-5) by metis
  qed
  have cg: "composite_gated m M'"
    unfolding composite_gated_def
  proof (intro impI allI)
    fix j x
    assume m: "requires_gates m" and x: "M' j = Some x" "expanded x"
    then obtain y where "M j = Some y" "expanded y" using ME f B by metis
    then obtain k g where "M k = Some g" "is_gate g" "parent g = Some j"
      using S m unfolding shape_def composite_gated_def by blast
    then show "\<exists>k g. M' k = Some g \<and> is_gate g \<and> parent g = Some j" using Mold f by metis
  qed
  have rg: "root_gated m M'"
    unfolding root_gated_def
  proof (intro impI)
    assume m: "requires_gates m" and "\<exists>j x. M' j = Some x \<and> \<not> is_gate x \<and> parent x = None"
    then have "(\<exists>j x. M j = Some x \<and> \<not> is_gate x \<and> parent x = None) \<or> par = None"
      using ME f B by metis
    then obtain k g where "M k = Some g" "is_gate g" "parent g = None"
      using S m h unfolding shape_def root_gated_def by blast
    then show "\<exists>j g. M' j = Some g \<and> is_gate g \<and> parent g = None" using Mold f by metis
  qed
  show ?thesis unfolding shape_def using c l fl p s o cg rg by blast
qed

section \<open>New roots\<close>

lemma shape_roots:
  assumes S: "shape m M" and none: "\<And>j g. M j = Some g \<Longrightarrow> is_gate g \<Longrightarrow> parent g \<noteq> None"
    and M': "\<And>j x. M' j = Some x \<longleftrightarrow> M j = Some x \<or> (x \<in> B \<and> nid x = j)"
    and B: "\<And>x. x \<in> B \<Longrightarrow> parent x = None \<and> \<not> expanded x \<and> M (nid x) = None"
    and Bdeps: "\<And>x d. x \<in> B \<Longrightarrow> d \<in> set (depends_on x) \<Longrightarrow> M d \<noteq> None \<or> d \<in> nid ` B"
    and light: "\<not> requires_gates m \<Longrightarrow> \<forall>x \<in> B. \<not> is_gate x"
    and deep: "requires_gates m \<Longrightarrow>
        (\<exists>j x. M' j = Some x \<and> \<not> is_gate x \<and> parent x = None) \<Longrightarrow> \<exists>x \<in> B. is_gate x"
    and gate: "\<And>x. x \<in> B \<Longrightarrow> is_gate x \<Longrightarrow> (\<forall>y \<in> B. is_gate y \<longrightarrow> y = x)
        \<and> (\<forall>d. d \<in> set (depends_on x) \<longleftrightarrow> (\<exists>c. M' d = Some c \<and> \<not> is_gate c \<and> parent c = None))"
  shows "shape m M'"
proof -
  have ME: "M j = Some x \<or> (x \<in> B \<and> nid x = j)" if "M' j = Some x" for j x
    using iffD1 [OF M' that] .
  have Mold: "M j = Some y \<Longrightarrow> M' j = Some y" for j y using M' by blast
  have Mnew: "x \<in> B \<Longrightarrow> M' (nid x) = Some x" for x using M' by blast
  have c: "closed_deps M'"
    unfolding closed_deps_def
  proof (intro allI impI)
    fix j x d
    assume x: "M' j = Some x" and d: "d \<in> set (depends_on x)"
    then have "M d \<noteq> None \<or> d \<in> nid ` B" using ME [OF x] Bdeps shape_closedD [OF S] by blast
    then show "M' d \<noteq> None" using Mold Mnew by (metis image_iff not_None_eq)
  qed
  have l: "light_ungated m M'" using S ME light unfolding shape_def light_ungated_def by metis
  have f: "flat_gates M'" using S ME B unfolding shape_def flat_gates_def by metis
  have p: "parented M'"
    unfolding parented_def
  proof (intro allI impI)
    fix j n p
    assume n: "M' j = Some n" "parent n = Some p"
    then have "M j = Some n" using ME [OF n(1)] B by fastforce
    then show "\<exists>q. M' p = Some q \<and> expanded q \<and> j \<in> set (depends_on q)"
      using shape_parentD [OF S _ n(2)] Mold by blast
  qed
  have s: "scoped M'"
    unfolding scoped_def
  proof (intro allI impI)
    fix j g d
    assume g: "M' j = Some g" "is_gate g"
    from ME [OF g(1)] show "d \<in> set (depends_on g)
        \<longleftrightarrow> (\<exists>c. M' d = Some c \<and> \<not> is_gate c \<and> parent c = parent g)"
    proof (elim disjE conjE)
      assume j: "M j = Some g"
      have "parent g \<noteq> None" using none [OF j g(2)] .
      then have "(\<exists>c. M' d = Some c \<and> \<not> is_gate c \<and> parent c = parent g)
          \<longleftrightarrow> (\<exists>c. M d = Some c \<and> \<not> is_gate c \<and> parent c = parent g)"
        using ME [of d] Mold [of d] B by metis
      then show ?thesis using shape_scopeD [OF S j g(2)] by simp
    next
      assume "g \<in> B"
      then show ?thesis using gate g(2) B by simp
    qed
  qed
  have o: "one_gate M'"
    unfolding one_gate_def
  proof (intro allI impI)
    fix j g k h
    assume g: "M' j = Some g" and h: "M' k = Some h" and e: "is_gate g" "is_gate h" "parent g = parent h"
    have one: "j = k" if "M j = Some g" "M k = Some h"
      using S that e unfolding shape_def one_gate_def by blast
    have new: "h = g" if "g \<in> B" "h \<in> B" using gate that e(1,2) by blast
    have "parent h = None \<longleftrightarrow> h \<in> B" "parent g = None \<longleftrightarrow> g \<in> B"
      using ME [OF g] ME [OF h] none e B by blast+
    moreover have "M j = Some g \<Longrightarrow> parent g \<noteq> None" "M k = Some h \<Longrightarrow> parent h \<noteq> None"
      using none e(1,2) by blast+
    ultimately show "j = k" using one new ME [OF g] ME [OF h] e(3) by metis
  qed
  have cg: "composite_gated m M'"
    using S ME Mold B unfolding shape_def composite_gated_def by metis
  have rg: "root_gated m M'"
    unfolding root_gated_def using deep B Mnew by metis
  show ?thesis unfolding shape_def using c l f p s o cg rg by blast
qed

end
