(* ===== verification/Dag_Invariant.thy ===== *)
theory Dag_Invariant
  imports Dag_Shape
begin

text \<open>
  The structural invariant of the engine and its preservation by every operation: ids are
  unique, the dependency relation is acyclic, and the lookup map has the shape of
  \<open>Dag_Shape\<close>.
\<close>

definition struct_inv :: "task_graph \<Rightarrow> bool" where
  "struct_inv g \<longleftrightarrow> unique_ids g \<and> acyclic (dep_rel g) \<and> shape (mode g) (get g)"

lemma struct_invD:
  assumes "struct_inv g"
  shows struct_unique: "unique_ids g" and struct_acyclic: "acyclic (dep_rel g)"
    and struct_shape: "shape (mode g) (get g)"
  using assms by (simp_all add: struct_inv_def)

lemma struct_inv_new: "struct_inv (new_graph m)"
proof -
  have "get (new_graph m) = (\<lambda>_. None)" by (auto simp: get_def new_graph_def)
  then show ?thesis
    by (simp add: struct_inv_def shape_empty)
      (simp add: unique_ids_def new_graph_def dep_rel_def acyclic_def)
qed

lemma get_nid: "get g i = Some n \<Longrightarrow> nid n = i"
  using get_SomeD by blast

lemma get_push_fresh:
  assumes "nid n \<notin> ids g"
  shows "get (push g n) j = Some x \<longleftrightarrow> get g j = Some x \<or> (x = n \<and> nid x = j)"
proof -
  have "get g (nid n) = None" using assms by (simp add: get_None_iff)
  then show ?thesis by (cases "get g j") (auto simp: get_push)
qed

lemma get_ids: "get g i \<noteq> None \<longleftrightarrow> i \<in> ids g"
  by (simp add: get_None_iff)

lemma dep_rel_get:
  "unique_ids g \<Longrightarrow> dep_rel g =
     {(d, i). \<exists>n. get g i = Some n \<and> d \<in> set (depends_on n) \<and> get g d \<noteq> None}"
  unfolding dep_rel_def get_ids by (auto simp: get_Some_iff)

lemma dep_relI:
  "struct_inv g \<Longrightarrow> get g i = Some n \<Longrightarrow> d \<in> set (depends_on n) \<Longrightarrow> (d, i) \<in> dep_rel g"
  using shape_closedD [OF struct_shape] by (force simp: dep_rel_get [OF struct_unique])

section \<open>Lifecycle updates\<close>

lemma struct_inv_modify:
  assumes S: "struct_inv g" and f: "\<And>n. same_place (f n) n"
  shows "struct_inv (modify g i f)"
proof -
  have nid: "\<And>n. nid (f n) = nid n" using f by (simp add: same_place_def)
  note get = get_modify [OF nid, of g i]
  have u: "unique_ids (modify g i f)"
    using S by (simp add: struct_inv_def unique_ids_modify [OF nid])
  have "dep_rel (modify g i f) = dep_rel g"
    using f struct_unique [OF S] u
    by (auto simp: dep_rel_get get same_place_def split: if_splits)
  moreover have "shape (mode g) (get (modify g i f))"
  proof (rule shape_same_place [OF struct_shape [OF S]])
    have refl: "same_place n n" for n by (simp add: same_place_def)
    show "get (modify g i f) j = Some x \<Longrightarrow> \<exists>y. get g j = Some y \<and> same_place x y" for j x
      using f refl by (auto simp: get split: if_splits)
    show "get g j = Some y \<Longrightarrow> \<exists>x. get (modify g i f) j = Some x \<and> same_place x y" for j y
      using f refl by (auto simp: get)
  qed
  ultimately show ?thesis using u struct_acyclic [OF S] by (simp add: struct_inv_def)
qed

lemma struct_inv_complete: "struct_inv g \<Longrightarrow> complete_node g i actor a = Inr g' \<Longrightarrow> struct_inv g'"
  unfolding complete_node_ok by (auto intro: struct_inv_modify simp: same_place_def)

lemma struct_inv_fail: "struct_inv g \<Longrightarrow> fail_node g i actor = Inr g' \<Longrightarrow> struct_inv g'"
  unfolding fail_node_ok by (auto intro: struct_inv_modify simp: same_place_def)

lemma struct_inv_requeue: "struct_inv g \<Longrightarrow> requeue_failed g i = Inr g' \<Longrightarrow> struct_inv g'"
  unfolding requeue_failed_ok by (auto intro: struct_inv_modify simp: same_place_def)

lemma struct_inv_dispatch: "struct_inv g \<Longrightarrow> dispatch g i w = (g', b) \<Longrightarrow> struct_inv g'"
  by (auto simp: dispatch_def same_place_def split: if_splits intro: struct_inv_modify)

section \<open>Expansion\<close>

lemma spec_nodes_deps:
  assumes "\<forall>s \<in> set ss. set (spec_depends_on s) \<subseteq> K"
    and "x \<in> set (spec_nodes ss par orig)" "d \<in> set (depends_on x)"
  shows "d \<in> K"
proof -
  from assms(2) obtain s where "s \<in> set ss" "x = spec_to_node s par orig"
    by (auto simp: spec_nodes_def)
  then show ?thesis using assms(1,3) by auto
qed

text \<open>The graph an expansion leaves, as a map.\<close>

lemma expand_news_ids:
  "map nid (expand_news g i k cs) = spec_ids cs @
     (if requires_gates (mode g)
      then [unique_gate_id (append_nodes g (spec_nodes cs (Some i) OExpand)) i] else [])"
  by (simp add: expand_news_def)

lemma expand_news_fresh:
  assumes "distinct (spec_ids cs)" "set (spec_ids cs) \<inter> ids g = {}"
  shows "distinct (map nid (expand_news g i k cs))" "nid ` set (expand_news g i k cs) \<inter> ids g = {}"
proof -
  let ?u = "unique_gate_id (append_nodes g (spec_nodes cs (Some i) OExpand)) i"
  have "?u \<notin> ids (append_nodes g (spec_nodes cs (Some i) OExpand))" by (rule unique_gate_id_fresh)
  then have u: "?u \<notin> ids g" "?u \<notin> set (spec_ids cs)" by simp_all
  show "distinct (map nid (expand_news g i k cs))"
    using assms(1) u(2) by (simp add: expand_news_ids)
  have "nid ` set (expand_news g i k cs) = set (map nid (expand_news g i k cs))" by simp
  then show "nid ` set (expand_news g i k cs) \<inter> ids g = {}"
    unfolding expand_news_ids using assms(2) u(1) by auto
qed

lemma expand_news_in:
  "x \<in> set (expand_news g i k cs) \<Longrightarrow> parent x = Some i \<and> \<not> expanded x \<and> status x = Queued
     \<and> owner x = None \<and> node_output x = None"
  by (auto simp: expand_news_def gate_node_def split: if_splits dest: spec_nodes_fields)

lemma get_expand:
  assumes u: "unique_ids g" and n: "get g i = Some n"
    and B: "distinct (map nid B)" "nid ` set B \<inter> ids g = {}"
    and f: "\<And>n. nid (f n) = nid n"
  shows "get (modify (append_nodes g B) i f) j = Some x \<longleftrightarrow>
    (j = i \<and> x = f n) \<or> (j \<noteq> i \<and> (get g j = Some x \<or> (x \<in> set B \<and> nid x = j)))"
proof -
  have "get (append_nodes g B) i = Some n" using n by (simp add: get_append)
  then have "get (modify (append_nodes g B) i f) i = Some (f n)" by (simp add: get_modify [OF f])
  moreover have "get (modify (append_nodes g B) i f) j = get (append_nodes g B) j" if "j \<noteq> i"
    using that by (simp add: get_modify [OF f])
  ultimately show ?thesis using get_append_fresh [OF u B, of j x] by (cases "j = i") auto
qed

lemma struct_inv_expand:
  assumes S: "struct_inv g" and ok: "expand_node g i actor cs = Inr (g', out)"
  shows "struct_inv g'"
proof -
  from ok obtain n where n: "get g i = Some n" "\<not> is_gate n" "\<not> expanded n"
    and fresh: "distinct (spec_ids cs)" "set (spec_ids cs) \<inter> ids g = {}"
    and deps: "\<forall>s \<in> set cs. set (spec_depends_on s) \<subseteq> set (spec_ids cs) \<union> ids g"
    and acy: "acyclic (dep_rel g')"
    and g': "g' = modify (append_nodes g (expand_news g i (kind n) cs)) i
            (compose_parent (map nid (expand_news g i (kind n) cs)))"
    by (rule expand_node_ok) blast
  let ?B = "expand_news g i (kind n) cs"
  let ?f = "compose_parent (map nid ?B)"
  note B = expand_news_fresh [OF fresh, of i "kind n"]
  have u: "unique_ids g'"
    using unique_ids_append [OF struct_unique [OF S] B]
    by (simp add: g' unique_ids_modify)
  have "shape (mode g) (get g')"
  proof (rule shape_expand [OF struct_shape [OF S] n(1,3,2), where B = "set ?B" and n' = "?f n"])
    show "get g' j = Some x \<longleftrightarrow> (j = i \<and> x = ?f n) \<or>
        (j \<noteq> i \<and> (get g j = Some x \<or> (x \<in> set ?B \<and> nid x = j)))" for j x
      unfolding g' by (rule get_expand [OF struct_unique [OF S] n(1) B]) simp
    show "x \<in> set ?B \<Longrightarrow> parent x = Some i \<and> \<not> expanded x \<and> get g (nid x) = None" for x
      using B(2) expand_news_in by (auto simp: get_None_iff)
    show "get g d \<noteq> None \<or> d \<in> nid ` set ?B" if "x \<in> set ?B" "d \<in> set (depends_on x)" for x d
    proof -
      have "set (spec_ids cs) \<subseteq> set (map nid ?B)" by (simp add: expand_news_ids)
      moreover have "d \<in> set (spec_ids cs) \<union> ids g"
        using that spec_nodes_deps [OF deps]
        by (auto simp: expand_news_def split: if_splits)
      ultimately show ?thesis by (auto simp: get_None_iff)
    qed
    have gates: "{y \<in> set ?B. \<not> is_gate y} = set (spec_nodes cs (Some i) OExpand)"
      by (auto simp: expand_news_def dest: spec_nodes_fields split: if_splits)
    show "set (depends_on x) = nid ` {y \<in> set ?B. \<not> is_gate y} \<and> (\<forall>y \<in> set ?B. is_gate y \<longrightarrow> y = x)"
      if "x \<in> set ?B" "is_gate x" for x
      unfolding gates using that
      by (auto simp: expand_news_def dest: spec_nodes_fields split: if_splits)
    show "set (depends_on (?f n)) = set (depends_on n) \<union> nid ` set ?B" by simp
    show "requires_gates (mode g) \<Longrightarrow> \<exists>x \<in> set ?B. is_gate x" by (simp add: expand_news_def)
    show "\<not> requires_gates (mode g) \<Longrightarrow> \<forall>x \<in> set ?B. \<not> is_gate x"
      by (auto simp: expand_news_def dest: spec_nodes_fields)
  qed (simp_all add: n)
  then show ?thesis using acy u by (simp add: struct_inv_def g')
qed

section \<open>Injection\<close>

definition inject_update :: "string \<Rightarrow> string option \<Rightarrow> string list \<Rightarrow> string \<Rightarrow> task_node \<Rightarrow> task_node" where
  "inject_update i par new_ids j n =
     (let n1 = (if j = i then reopen_gate new_ids n else n)
      in if par = Some j then add_deps new_ids n1 else n1)"

lemma inject_update_fields [simp]:
  "nid (inject_update i par ds j n) = nid n"
  "parent (inject_update i par ds j n) = parent n"
  "expanded (inject_update i par ds j n) = expanded n"
  "is_gate (inject_update i par ds j n) = is_gate n"
  "set (depends_on (inject_update i par ds j n)) =
     set (depends_on n) \<union> (if j = i \<or> par = Some j then set ds else {})"
  by (auto simp: inject_update_def Let_def)

lemma get_inject:
  assumes u: "unique_ids g" and n: "get g i \<noteq> None" and p: "\<And>p. par = Some p \<Longrightarrow> get g p \<noteq> None"
    and B: "distinct (spec_ids ss)" "set (spec_ids ss) \<inter> ids g = {}"
  shows "get (inject_result g i par ss) j = Some x \<longleftrightarrow>
     (\<exists>y. get g j = Some y \<and> x = inject_update i par (spec_ids ss) j y)
     \<or> (x \<in> set (spec_nodes ss par OGap) \<and> nid x = j)"
proof -
  let ?B = "spec_nodes ss par OGap"
  have d: "distinct (map nid ?B)" "nid ` set ?B \<inter> ids g = {}" using B by simp_all
  have old: "j \<noteq> i \<and> par \<noteq> Some j" if "x \<in> set ?B" "nid x = j" for x
  proof -
    have "j \<in> set (spec_ids ss)" using that by (metis imageI nid_set_spec_nodes)
    then show ?thesis using B(2) n p by (auto simp: get_None_iff)
  qed
  have r: "get (inject_result g i par ss) j =
      map_option (inject_update i par (spec_ids ss) j) (get (append_nodes g ?B) j)"
    by (cases "get (append_nodes g ?B) j"; cases par)
      (auto simp: inject_result_def get_modify inject_update_def Let_def)
  have "get (inject_result g i par ss) j = Some x \<longleftrightarrow>
      (\<exists>y. (get g j = Some y \<or> (y \<in> set ?B \<and> nid y = j))
         \<and> x = inject_update i par (spec_ids ss) j y)"
    unfolding r map_option_eq_Some get_append_fresh [OF u d] by blast
  moreover have "inject_update i par (spec_ids ss) j y = y" if "y \<in> set ?B" "nid y = j" for y
    using old [OF that] by (simp add: inject_update_def)
  then have "(\<exists>y. (y \<in> set ?B \<and> nid y = j) \<and> x = inject_update i par (spec_ids ss) j y)
      \<longleftrightarrow> x \<in> set ?B \<and> nid x = j" by metis
  ultimately show ?thesis unfolding conj_disj_distribR ex_disj_distrib by simp
qed

lemma inject_result_unique:
  assumes "unique_ids g" "distinct (spec_ids ss)" "set (spec_ids ss) \<inter> ids g = {}"
  shows "unique_ids (inject_result g i par ss)" "mode (inject_result g i par ss) = mode g"
  using assms by (auto simp: inject_result_def Let_def unique_ids_modify unique_ids_append
      split: option.split)

lemma struct_inv_inject:
  assumes S: "struct_inv g" and ok: "inject_from_gate g i actor ss = Inr (g', new_ids)"
  shows "struct_inv g'"
proof -
  from ok obtain n where n: "get g i = Some n" "is_gate n"
    and fresh: "distinct (spec_ids ss)" "set (spec_ids ss) \<inter> ids g = {}"
    and deps: "\<forall>s \<in> set ss. set (spec_depends_on s) \<subseteq> set (spec_ids ss) \<union> ids g"
    and acy: "acyclic (dep_rel g')" and g': "g' = inject_result g i (parent n) ss"
    by (rule inject_from_gate_ok) blast
  note M = struct_shape [OF S]
  have par: "get g p \<noteq> None" if "parent n = Some p" for p
    using shape_parentD [OF M n(1) that] by auto
  have "shape (mode g) (get g')"
  proof (rule shape_grow [OF M n refl, where f = "inject_update i (parent n) (spec_ids ss)"
        and B = "set (spec_nodes ss (parent n) OGap)"])
    show "get g' j = Some x \<longleftrightarrow>
        (\<exists>y. get g j = Some y \<and> x = inject_update i (parent n) (spec_ids ss) j y)
        \<or> (x \<in> set (spec_nodes ss (parent n) OGap) \<and> nid x = j)" for j x
      unfolding g' by (rule get_inject [OF struct_unique [OF S] _ par fresh]) (simp_all add: n)
    show "parent x = parent n \<and> \<not> expanded x \<and> \<not> is_gate x \<and> get g (nid x) = None"
      if "x \<in> set (spec_nodes ss (parent n) OGap)" for x
    proof -
      have "nid x \<in> set (spec_ids ss)" using that by (metis imageI nid_set_spec_nodes)
      then show ?thesis using spec_nodes_fields [OF that] fresh(2) by (auto simp: get_None_iff)
    qed
    show "get g d \<noteq> None \<or> d \<in> nid ` set (spec_nodes ss (parent n) OGap)"
      if "x \<in> set (spec_nodes ss (parent n) OGap)" "d \<in> set (depends_on x)" for x d
      using spec_nodes_deps [OF deps that] by (auto simp: get_None_iff)
  qed simp
  then show ?thesis
    using acy inject_result_unique [OF struct_unique [OF S] fresh]
    by (simp add: struct_inv_def g')
qed

section \<open>Seeding\<close>

lemma seed_news_fresh:
  assumes "distinct (spec_ids us)"
  shows "distinct (map nid (seed_news g us))" "nid ` set (seed_news g us) \<inter> ids g = {}"
    "set (spec_ids us) \<subseteq> nid ` set (seed_news g us) \<union> ids g"
proof -
  show "distinct (map nid (seed_news g us))"
    using assms unfolding seed_news_def nid_spec_nodes by (simp add: spec_ids_def distinct_map_filter)
  show "nid ` set (seed_news g us) \<inter> ids g = {}" "set (spec_ids us) \<subseteq> nid ` set (seed_news g us) \<union> ids g"
    unfolding seed_news_def nid_set_spec_nodes by (auto simp: spec_ids_def)
qed

lemma seed_news_in:
  "x \<in> set (seed_news g us) \<Longrightarrow> parent x = None \<and> \<not> is_gate x \<and> \<not> expanded x
     \<and> status x = Queued \<and> owner x = None \<and> node_output x = None \<and> origin x = Some OSeed"
  unfolding seed_news_def by (drule spec_nodes_fields) auto

lemma seed_news_deps:
  assumes "\<forall>s \<in> set us. set (spec_depends_on s) \<subseteq> set (spec_ids us) \<union> ids g" "distinct (spec_ids us)"
    and "x \<in> set (seed_news g us)" "d \<in> set (depends_on x)"
  shows "get g d \<noteq> None \<or> d \<in> nid ` set (seed_news g us)"
proof -
  from assms(3) obtain s where "s \<in> set us" "x = spec_to_node s None OSeed"
    by (auto simp: seed_news_def spec_nodes_def)
  then have "d \<in> set (spec_ids us) \<union> ids g" using assms(1,4) by auto
  then show ?thesis using seed_news_fresh(3) [OF assms(2), of g] by (auto simp: get_None_iff)
qed

lemma root_ids_append:
  "(\<And>x. x \<in> set B \<Longrightarrow> parent x = None \<and> \<not> is_gate x) \<Longrightarrow>
     set (map nid (root_nodes (append_nodes g B))) = set (map nid (root_nodes g)) \<union> nid ` set B"
  by (auto simp: root_nodes_def append_nodes_def)

lemma root_nodes_get:
  "unique_ids g \<Longrightarrow> d \<in> set (map nid (root_nodes g))
     \<longleftrightarrow> (\<exists>c. get g d = Some c \<and> \<not> is_gate c \<and> parent c = None)"
  by (auto simp: root_nodes_def get_Some_iff)

lemma find_root_gate_Some:
  "unique_ids g \<Longrightarrow> find_root_gate g = Some h
     \<Longrightarrow> get g (nid h) = Some h \<and> is_gate h \<and> parent h = None"
  unfolding find_root_gate_def by (drule find_SomeD) (simp add: get_Some_iff)

lemma find_root_gate_None:
  "unique_ids g \<Longrightarrow> find_root_gate g = None
     \<longleftrightarrow> (\<forall>i h. get g i = Some h \<longrightarrow> is_gate h \<longrightarrow> parent h \<noteq> None)"
  by (auto simp: find_root_gate_def find_None_iff_all get_Some_iff)

definition seed_update :: "string \<Rightarrow> string list \<Rightarrow> string \<Rightarrow> task_node \<Rightarrow> task_node" where
  "seed_update i rs j n = (if j = i then widen_gate rs n else n)"

text \<open>The three outcomes of the root-gate step, as maps.\<close>

lemma ensure_root_gate_cases:
  assumes u: "unique_ids g1"
  obtains "root_nodes g1 = []" "ensure_root_gate g1 = g1"
  | h where "root_nodes g1 \<noteq> []" "get g1 (nid h) = Some h" "is_gate h" "parent h = None"
      "ensure_root_gate g1 = modify g1 (nid h) (widen_gate (map nid (root_nodes g1)))"
      "\<And>j. get (ensure_root_gate g1) j
         = map_option (seed_update (nid h) (map nid (root_nodes g1)) j) (get g1 j)"
  | k where "root_nodes g1 \<noteq> []" "\<And>i h. get g1 i = Some h \<Longrightarrow> is_gate h \<Longrightarrow> parent h \<noteq> None"
      "ensure_root_gate g1 = push g1 (gate_node (unique_gate_id g1 ''plan'')
         (root_gate_content k) k None (map nid (root_nodes g1)))"
proof (cases "root_nodes g1 = []")
  case True
  then show ?thesis using that(1) by (simp add: ensure_root_gate_def)
next
  case False
  show ?thesis
  proof (cases "find_root_gate g1")
    case None
    have "ensure_root_gate g1 = push g1 (gate_node (unique_gate_id g1 ''plan'')
        (root_gate_content (if list_all (\<lambda>n. kind n = Implement \<or> kind n = Fix) (root_nodes g1)
           then Verify else Critique))
        (if list_all (\<lambda>n. kind n = Implement \<or> kind n = Fix) (root_nodes g1)
           then Verify else Critique) None (map nid (root_nodes g1)))"
      using False None by (simp add: ensure_root_gate_def Let_def)
    then show ?thesis using that(3) False None find_root_gate_None [OF u] by blast
  next
    case (Some h)
    have e: "ensure_root_gate g1 = modify g1 (nid h) (widen_gate (map nid (root_nodes g1)))"
      using False Some by (simp add: ensure_root_gate_def)
    have "get (ensure_root_gate g1) j
        = map_option (seed_update (nid h) (map nid (root_nodes g1)) j) (get g1 j)" for j
      by (cases "j = nid h"; cases "get g1 j") (auto simp: e get_modify seed_update_def)
    then show ?thesis using that(2) False find_root_gate_Some [OF u Some] e by blast
  qed
qed

text \<open>A batch of new root nodes, as \<open>seed\<close> appends it.\<close>

definition root_batch :: "task_graph \<Rightarrow> task_node list \<Rightarrow> bool" where
  "root_batch g B \<longleftrightarrow> distinct (map nid B) \<and> nid ` set B \<inter> ids g = {}
     \<and> (\<forall>x \<in> set B. parent x = None \<and> \<not> is_gate x \<and> \<not> expanded x \<and> get g (nid x) = None)
     \<and> (\<forall>x \<in> set B. \<forall>d \<in> set (depends_on x). get g d \<noteq> None \<or> d \<in> nid ` set B)"

lemma root_batch_seed:
  assumes d: "distinct (spec_ids us)"
    and deps: "\<forall>s \<in> set us. set (spec_depends_on s) \<subseteq> set (spec_ids us) \<union> ids g"
  shows "root_batch g (seed_news g us)"
proof -
  note fresh = seed_news_fresh [OF d, of g]
  have "parent x = None \<and> \<not> is_gate x \<and> \<not> expanded x \<and> get g (nid x) = None"
    if "x \<in> set (seed_news g us)" for x
    using that seed_news_in fresh(2) by (auto simp: get_None_iff)
  then show ?thesis
    using fresh(1,2) seed_news_deps [OF deps d] unfolding root_batch_def by blast
qed

lemma root_batchD:
  assumes "root_batch g B"
  shows "distinct (map nid B)" "nid ` set B \<inter> ids g = {}"
    and "x \<in> set B \<Longrightarrow> parent x = None \<and> \<not> is_gate x \<and> \<not> expanded x \<and> get g (nid x) = None"
    and "x \<in> set B \<Longrightarrow> d \<in> set (depends_on x) \<Longrightarrow> get g d \<noteq> None \<or> d \<in> nid ` set B"
  using assms unfolding root_batch_def by blast+

lemma root_batch_append:
  assumes S: "struct_inv g" and B: "root_batch g B"
  shows "unique_ids (append_nodes g B)"
    and "get (append_nodes g B) j = Some x \<longleftrightarrow> get g j = Some x \<or> (x \<in> set B \<and> nid x = j)"
    and "set (map nid (root_nodes (append_nodes g B))) = set (map nid (root_nodes g)) \<union> nid ` set B"
  using unique_ids_append [OF struct_unique [OF S] root_batchD(1,2) [OF B]]
    get_append_fresh [OF struct_unique [OF S] root_batchD(1,2) [OF B]]
    root_ids_append root_batchD(3) [OF B] by blast+

lemma shape_batch_light:
  assumes S: "struct_inv g" and B: "root_batch g B" and l: "\<not> requires_gates (mode g)"
  shows "shape (mode g) (get (append_nodes g B))"
proof (rule shape_roots [OF struct_shape [OF S] _ root_batch_append(2) [OF S B]])
  show "get g j = Some h \<Longrightarrow> is_gate h \<Longrightarrow> parent h \<noteq> None" for j h
    using struct_shape [OF S] l unfolding shape_def light_ungated_def by blast
qed (use l root_batchD [OF B] in blast)+

lemma shape_batch_widen:
  assumes S: "struct_inv g" and B: "root_batch g B"
    and h: "get g (nid h) = Some h" "is_gate h" "parent h = None"
    and M': "\<And>j. M' j = map_option
        (seed_update (nid h) (map nid (root_nodes (append_nodes g B))) j) (get (append_nodes g B) j)"
  shows "shape (mode g) M'"
proof -
  define f where "f = seed_update (nid h) (map nid (root_nodes (append_nodes g B)))"
  have deps_h: "set (depends_on h) = set (map nid (root_nodes g))"
    using shape_scopeD [OF struct_shape [OF S] h(1,2)] root_nodes_get [OF struct_unique [OF S]] h(3)
    by (intro set_eqI) simp
  have "f j y = y" if "y \<in> set B" "nid y = j" for j y
    using that h(1) root_batchD(3) [OF B that(1)] by (auto simp: f_def seed_update_def)
  then have new: "(\<exists>y. (y \<in> set B \<and> nid y = j) \<and> f j y = x) \<longleftrightarrow> x \<in> set B \<and> nid x = j" for j x
    by metis
  show ?thesis
  proof (rule shape_grow [OF struct_shape [OF S] h, where B = "set B" and f = f])
    show "M' j = Some x \<longleftrightarrow> (\<exists>y. get g j = Some y \<and> x = f j y) \<or> (x \<in> set B \<and> nid x = j)" for j x
      using new [of j x] unfolding M' f_def [symmetric] map_option_eq_Some
        root_batch_append(2) [OF S B] conj_disj_distribR ex_disj_distrib
      by (simp only: eq_commute [of x])
    show "parent (f j y) = parent y \<and> expanded (f j y) = expanded y \<and> is_gate (f j y) = is_gate y
        \<and> set (depends_on (f j y))
           = set (depends_on y) \<union> (if j = nid h \<or> None = Some j then nid ` set B else {})"
      if "get g j = Some y" for j y
      using that h(1) deps_h root_batch_append(3) [OF S B]
      by (auto simp: f_def seed_update_def simp del: set_map)
  qed (use root_batchD [OF B] in blast)+
qed

lemma shape_batch_gate:
  assumes S: "struct_inv g" and B: "root_batch g B" and r: "requires_gates (mode g)"
    and none: "\<And>i h. get (append_nodes g B) i = Some h \<Longrightarrow> is_gate h \<Longrightarrow> parent h \<noteq> None"
    and G: "nid G \<notin> ids (append_nodes g B)" "is_gate G" "parent G = None" "\<not> expanded G"
      "depends_on G = map nid (root_nodes (append_nodes g B))"
  shows "shape (mode g) (get (push (append_nodes g B) G))"
proof -
  let ?M' = "get (push (append_nodes g B) G)"
  note M1 = root_batch_append(2) [OF S B]
  have M2: "?M' j = Some x \<longleftrightarrow> get g j = Some x \<or> (x \<in> insert G (set B) \<and> nid x = j)" for j x
    unfolding get_push_fresh [OF G(1)] M1 insert_iff by blast
  have scope: "d \<in> set (depends_on G) \<longleftrightarrow> (\<exists>c. ?M' d = Some c \<and> \<not> is_gate c \<and> parent c = None)" for d
  proof -
    have "d \<in> set (depends_on G)
        \<longleftrightarrow> (\<exists>c. get (append_nodes g B) d = Some c \<and> \<not> is_gate c \<and> parent c = None)"
      using root_nodes_get [OF root_batch_append(1) [OF S B], of d] G(5) by simp
    also have "\<dots> \<longleftrightarrow> (\<exists>c. ?M' d = Some c \<and> \<not> is_gate c \<and> parent c = None)"
      unfolding M1 M2 using G(2) by blast
    finally show ?thesis .
  qed
  have deps: "get g d \<noteq> None \<or> d \<in> nid ` insert G (set B)"
    if "x \<in> insert G (set B)" "d \<in> set (depends_on x)" for x d
  proof (cases "x = G")
    case True
    then have "d \<in> set (map nid (root_nodes g)) \<union> nid ` set B"
      using that(2) G(5) root_batch_append(3) [OF S B] by simp
    then show ?thesis using root_nodes_get [OF struct_unique [OF S]] by auto
  next
    case False
    then show ?thesis using that root_batchD(4) [OF B] by blast
  qed
  show ?thesis
  proof (rule shape_roots [OF struct_shape [OF S] _ M2 _ deps])
    show "get g j = Some h \<Longrightarrow> is_gate h \<Longrightarrow> parent h \<noteq> None" for j h using none M1 by blast
    show "x \<in> insert G (set B) \<Longrightarrow> parent x = None \<and> \<not> expanded x \<and> get g (nid x) = None" for x
      using root_batchD(3) [OF B] G by (auto simp: get_None_iff)
    show "(\<forall>y \<in> insert G (set B). is_gate y \<longrightarrow> y = x) \<and> (\<forall>d. d \<in> set (depends_on x)
          \<longleftrightarrow> (\<exists>c. ?M' d = Some c \<and> \<not> is_gate c \<and> parent c = None))"
      if "x \<in> insert G (set B)" "is_gate x" for x
      using that root_batchD(3) [OF B] scope by blast
  qed (use r G(2) in blast)+
qed

lemma struct_inv_seed:
  assumes S: "struct_inv g" and ok: "seed g specs = Inr g'"
  shows "struct_inv g'"
proof -
  from ok obtain us where d: "distinct (spec_ids us)"
    and deps: "\<forall>s \<in> set us. set (spec_depends_on s) \<subseteq> set (spec_ids us) \<union> ids g"
    and acy: "acyclic (dep_rel g')" and g': "g' = gate_if_deep (append_nodes g (seed_news g us))"
    by (rule seed_ok) blast
  let ?B = "seed_news g us"
  let ?g1 = "append_nodes g ?B"
  note B = root_batch_seed [OF d deps]
  note u1 = root_batch_append(1) [OF S B]
  have "unique_ids g' \<and> shape (mode g) (get g')"
  proof (cases "requires_gates (mode g)")
    case False
    then show ?thesis using shape_batch_light [OF S B] u1 by (simp add: g' gate_if_deep_def)
  next
    case True
    then have e: "g' = ensure_root_gate ?g1" by (simp add: g' gate_if_deep_def)
    from u1 show ?thesis
    proof (cases rule: ensure_root_gate_cases)
      case 1
      then have "?B = []" using root_batch_append(3) [OF S B] by simp
      then show ?thesis using 1 e S by (simp add: struct_inv_def)
    next
      case (2 h)
      then have "get g (nid h) = Some h"
        using root_batch_append(2) [OF S B] root_batchD(3) [OF B] by blast
      then show ?thesis
        using shape_batch_widen [OF S B _ 2(3,4,6)] u1 by (simp add: e 2(5) unique_ids_modify)
    next
      case (3 k)
      note fr = unique_gate_id_fresh [of ?g1 "''plan''"]
      show ?thesis
        unfolding e 3(3) using shape_batch_gate [OF S B True 3(2)] unique_ids_push [OF u1] fr
        by (simp del: ids_append)
    qed
  qed
  moreover have "mode g' = mode g"
    by (auto simp: g' gate_if_deep_def ensure_root_gate_def Let_def split: option.split)
  ultimately show ?thesis using acy by (simp add: struct_inv_def)
qed

end
