(* ===== verification/Dag_Engine.thy ===== *)
theory Dag_Engine
  imports Dag_Invariant
begin

text \<open>
  The engine as a state machine: its events are the mutations of \<open>dag/ops.rs\<close> and the
  dispatch of \<open>dag/schedule.rs\<close>. Besides the structural invariant every reachable graph
  satisfies a lifecycle invariant: who owns what, that work only ever started on satisfied
  dependencies, and that what is done passed its validation and stays as it was.
\<close>

section \<open>Steps\<close>

datatype dag_event =
    EvSeed "node_spec list"
  | EvDispatch string string
  | EvExpand string string "node_spec list"
  | EvComplete string string handoff_artifact
  | EvFail string string
  | EvInject string string "node_spec list"
  | EvRequeue string

inductive dag_step :: "task_graph \<Rightarrow> dag_event \<Rightarrow> task_graph \<Rightarrow> bool" where
  step_seed: "seed g specs = Inr g' \<Longrightarrow> dag_step g (EvSeed specs) g'"
| step_dispatch: "dispatch g i w = (g', True) \<Longrightarrow> dag_step g (EvDispatch i w) g'"
| step_expand: "expand_node g i actor cs = Inr (g', out) \<Longrightarrow> dag_step g (EvExpand i actor cs) g'"
| step_complete: "complete_node g i actor a = Inr g' \<Longrightarrow> dag_step g (EvComplete i actor a) g'"
| step_fail: "fail_node g i actor = Inr g' \<Longrightarrow> dag_step g (EvFail i actor) g'"
| step_inject: "inject_from_gate g i actor ss = Inr (g', new_ids) \<Longrightarrow> dag_step g (EvInject i actor ss) g'"
| step_requeue: "requeue_failed g i = Inr g' \<Longrightarrow> dag_step g (EvRequeue i) g'"

inductive_cases dag_step_elims:
  "dag_step g (EvSeed specs) g'"
  "dag_step g (EvDispatch i w) g'"
  "dag_step g (EvExpand i actor cs) g'"
  "dag_step g (EvComplete i actor a) g'"
  "dag_step g (EvFail i actor) g'"
  "dag_step g (EvInject i actor ss) g'"
  "dag_step g (EvRequeue i) g'"

inductive reachable :: "mode \<Rightarrow> task_graph \<Rightarrow> bool" for m where
  reach_new: "reachable m (new_graph m)"
| reach_step: "reachable m g \<Longrightarrow> dag_step g e g' \<Longrightarrow> reachable m g'"

text \<open>The same machine as a function: an event that is refused leaves the graph as it is.\<close>

fun exec_event :: "dag_event \<Rightarrow> task_graph \<Rightarrow> task_graph" where
  "exec_event (EvSeed specs) g = (case seed g specs of Inl _ \<Rightarrow> g | Inr g' \<Rightarrow> g')"
| "exec_event (EvDispatch i w) g = fst (dispatch g i w)"
| "exec_event (EvExpand i actor cs) g =
     (case expand_node g i actor cs of Inl _ \<Rightarrow> g | Inr (g', _) \<Rightarrow> g')"
| "exec_event (EvComplete i actor a) g = (case complete_node g i actor a of Inl _ \<Rightarrow> g | Inr g' \<Rightarrow> g')"
| "exec_event (EvFail i actor) g = (case fail_node g i actor of Inl _ \<Rightarrow> g | Inr g' \<Rightarrow> g')"
| "exec_event (EvInject i actor ss) g =
     (case inject_from_gate g i actor ss of Inl _ \<Rightarrow> g | Inr (g', _) \<Rightarrow> g')"
| "exec_event (EvRequeue i) g = (case requeue_failed g i of Inl _ \<Rightarrow> g | Inr g' \<Rightarrow> g')"

definition run_events :: "mode \<Rightarrow> dag_event list \<Rightarrow> task_graph" where
  "run_events m es = fold exec_event es (new_graph m)"

lemma exec_event_step: "exec_event e g = g \<or> dag_step g e (exec_event e g)"
proof (cases e)
  case (EvDispatch i w)
  then show ?thesis
    by (cases "dispatch g i w") (auto simp: dispatch_def split: if_splits intro!: step_dispatch)
qed (auto split: sum.split intro: dag_step.intros)

lemma reachable_run: "reachable m (run_events m es)"
proof -
  have "reachable m (fold exec_event es g)" if "reachable m g" for g
    using that
  proof (induction es arbitrary: g)
    case (Cons e es)
    have "reachable m (exec_event e g)"
      using exec_event_step [of e g] Cons.prems by (metis reach_step)
    then show ?case using Cons.IH by simp
  qed simp
  then show ?thesis by (simp add: run_events_def reach_new)
qed

lemma dispatch_True_mode: "dispatch g i w = (g', b) \<Longrightarrow> mode g' = mode g"
  by (auto simp: dispatch_def split: if_splits)

lemma mode_gate_if_deep [simp]: "mode (gate_if_deep g) = mode g"
  by (auto simp: gate_if_deep_def ensure_root_gate_def Let_def split: option.split)

lemma dag_step_mode: "dag_step g e g' \<Longrightarrow> mode g' = mode g"
proof (induction rule: dag_step.induct)
  case (step_seed g specs g')
  then obtain us where "g' = gate_if_deep (append_nodes g (seed_news g us))"
    by (rule seed_ok) blast
  then show ?case by simp
next
  case (step_expand g i actor cs g' out)
  then obtain B f where "g' = modify (append_nodes g B) i f" by (rule expand_node_ok) blast
  then show ?case by simp
next
  case (step_inject g i actor ss g' new_ids)
  then obtain par where "g' = inject_result g i par ss" by (rule inject_from_gate_ok) blast
  then show ?case by (simp add: inject_result_def Let_def split: option.split)
qed (auto simp: complete_node_ok fail_node_ok requeue_failed_ok dest: dispatch_True_mode)

lemma dag_step_struct: "dag_step g e g' \<Longrightarrow> struct_inv g \<Longrightarrow> struct_inv g'"
  by (induction rule: dag_step.induct)
    (erule (1) struct_inv_seed struct_inv_dispatch struct_inv_expand struct_inv_complete
      struct_inv_fail struct_inv_inject struct_inv_requeue)+

lemma reachable_struct: "reachable m g \<Longrightarrow> struct_inv g \<and> mode g = m"
proof (induction rule: reachable.induct)
  case reach_new
  then show ?case by (simp add: struct_inv_new) (simp add: new_graph_def)
next
  case (reach_step g e g')
  then show ?case using dag_step_struct dag_step_mode by blast
qed

section \<open>The root gate is above everything\<close>

definition root_gate :: "task_node \<Rightarrow> bool" where
  "root_gate n \<longleftrightarrow> is_gate n \<and> parent n = None"

lemma below_root_gate:
  assumes S: "struct_inv g" and r: "get g r = Some h" "root_gate h"
    and x: "get g x = Some n" "x \<noteq> r"
  shows "(x, r) \<in> (dep_rel g)\<^sup>+"
proof -
  note M = struct_shape [OF S]
  have "wf ((dep_rel g)\<inverse>)"
    using struct_acyclic [OF S] finite_dep_rel by (simp add: finite_acyclic_wf_converse)
  then show ?thesis
    using x
  proof (induction x arbitrary: n rule: wf_induct_rule)
    case (less x)
    show ?case
    proof (cases "parent n")
      case None
      have "\<not> is_gate n"
        using less.prems r None M unfolding shape_def one_gate_def root_gate_def by metis
      then have "x \<in> set (depends_on h)"
        using shape_scopeD [OF M r(1)] r(2) less.prems(1) None by (auto simp: root_gate_def)
      then show ?thesis using dep_relI [OF S r(1)] by blast
    next
      case (Some p)
      then obtain q where q: "get g p = Some q" "expanded q" "x \<in> set (depends_on q)"
        using shape_parentD [OF M less.prems(1)] by blast
      have "p \<noteq> r" using q r M unfolding shape_def flat_gates_def root_gate_def by force
      moreover have e: "(x, p) \<in> dep_rel g" using dep_relI [OF S q(1,3)] .
      ultimately have "(p, r) \<in> (dep_rel g)\<^sup>+" using less.IH q(1) by simp
      then show ?thesis using e by (rule trancl_into_trancl2 [rotated])
    qed
  qed
qed

lemma root_gate_not_dep:
  assumes S: "struct_inv g" and n: "get g i = Some n" "d \<in> set (depends_on n)"
    and h: "get g d = Some h"
  shows "\<not> root_gate h"
proof
  assume r: "root_gate h"
  have e: "(d, i) \<in> dep_rel g" using dep_relI [OF S n] .
  show False
  proof (cases "i = d")
    case True
    then show ?thesis using e struct_acyclic [OF S] by (auto simp: acyclic_def)
  next
    case False
    have "(i, d) \<in> (dep_rel g)\<^sup>+" using below_root_gate [OF S h r n(1) False] .
    with e have "(d, d) \<in> (dep_rel g)\<^sup>+" by (rule trancl_into_trancl2)
    then show ?thesis using struct_acyclic [OF S] by (auto simp: acyclic_def)
  qed
qed

section \<open>Lawful nodes\<close>

definition lawful :: "task_graph \<Rightarrow> task_node \<Rightarrow> bool" where
  "lawful g n \<longleftrightarrow>
     (owner n = None \<longleftrightarrow> status n = Queued)
     \<and> (status n = Done \<longrightarrow> node_output n \<noteq> None)
     \<and> (status n \<noteq> Queued \<longrightarrow> root_gate n \<longrightarrow> status n = Done \<longrightarrow> deps_satisfied g n)
     \<and> (status n \<noteq> Queued \<longrightarrow> \<not> root_gate n \<longrightarrow> deps_satisfied g n)
     \<and> (\<forall>a. status n = Done \<longrightarrow> requires_gates (mode g) \<longrightarrow> node_output n = Some a \<longrightarrow>
          (if is_gate n then validate_gate_pass g (nid n) a = Inr ()
           else validate_artifact (mode g) (nid n) False a = Inr ()))"

definition life_inv :: "task_graph \<Rightarrow> bool" where
  "life_inv g \<longleftrightarrow> (\<forall>i n. get g i = Some n \<longrightarrow> lawful g n)"

definition keeps_done :: "task_graph \<Rightarrow> task_graph \<Rightarrow> bool" where
  "keeps_done g g' \<longleftrightarrow>
     (\<forall>i n. get g i = Some n \<longrightarrow> status n = Done \<longrightarrow> \<not> root_gate n \<longrightarrow> get g' i = Some n)"

lemma lawful_queued: "status n = Queued \<Longrightarrow> owner n = None \<Longrightarrow> lawful g n"
  by (simp add: lawful_def)

lemma lawfulD:
  assumes "lawful g n"
  shows "owner n = None \<longleftrightarrow> status n = Queued"
    and "status n = Done \<Longrightarrow> deps_satisfied g n"
    and "status n \<noteq> Queued \<Longrightarrow> \<not> root_gate n \<Longrightarrow> deps_satisfied g n"
  using assms by (auto simp: lawful_def)

lemma deps_satisfied_iff:
  "deps_satisfied g n \<longleftrightarrow>
     (\<forall>d \<in> set (depends_on n). \<exists>c. get g d = Some c \<and> status c = Done)"
  by (auto simp: deps_satisfied_def list_all_iff dep_done_iff)

text \<open>Satisfied dependencies are never a root gate, so they stay as they are.\<close>

lemma deps_kept:
  assumes "struct_inv g" "get g i = Some n" "deps_satisfied g n" "keeps_done g g'"
    and "d \<in> set (depends_on n)"
  shows "\<exists>c. get g d = Some c \<and> status c = Done \<and> get g' d = Some c"
  using assms root_gate_not_dep unfolding deps_satisfied_iff keeps_done_def by blast

lemma deps_satisfied_kept:
  assumes "struct_inv g" "get g i = Some n" "deps_satisfied g n" "keeps_done g g'"
    and "depends_on n' = depends_on n"
  shows "deps_satisfied g' n'"
  using deps_kept [OF assms(1-4)] assms(5) unfolding deps_satisfied_iff by metis

lemma gate_audit_scope_kept:
  assumes "struct_inv g" "get g i = Some n" "deps_satisfied g n" "keeps_done g g'"
    and "depends_on n' = depends_on n"
  shows "gate_audit_scope g' n' = gate_audit_scope g n"
proof -
  have "get g' d = get g d" if "d \<in> set (depends_on n)" for d
    using deps_kept [OF assms(1-4) that] by auto
  then have "List.map_filter (get g') (depends_on n) = List.map_filter (get g) (depends_on n)"
    by (simp add: map_filter_def cong: map_cong filter_cong)
  then show ?thesis using assms(5) by (simp add: gate_audit_scope_def)
qed

lemma validate_gate_pass_kept:
  assumes "struct_inv g" "get g i = Some n" "deps_satisfied g n" "keeps_done g g'"
    and "depends_on n' = depends_on n" "get g' i = Some n'"
  shows "validate_gate_pass g' i a = validate_gate_pass g i a"
  using assms gate_audit_scope_kept [OF assms(1-5)] by (simp add: validate_gate_pass_def)

lemma lawful_kept:
  assumes S: "struct_inv g" and n: "get g i = Some n" "get g' i = Some n"
    and l: "lawful g n" and k: "keeps_done g g'" and m: "mode g' = mode g"
  shows "lawful g' n"
proof -
  have d: "deps_satisfied g n \<Longrightarrow> deps_satisfied g' n"
    using deps_satisfied_kept [OF S n(1) _ k refl] .
  have v: "status n = Done \<Longrightarrow> validate_gate_pass g' (nid n) a = validate_gate_pass g (nid n) a" for a
    using validate_gate_pass_kept [OF S n(1) _ k refl n(2)] lawfulD(2) [OF l] get_nid [OF n(1)] by simp
  show ?thesis using l d v m unfolding lawful_def by simp
qed

lemma life_inv_step:
  assumes S: "struct_inv g" and L: "life_inv g" and m: "mode g' = mode g" and k: "keeps_done g g'"
    and new: "\<And>j x. get g' j = Some x \<Longrightarrow> get g j = Some x \<or> lawful g' x"
  shows "life_inv g'"
  unfolding life_inv_def
proof (intro allI impI)
  fix j x
  assume x: "get g' j = Some x"
  from new [OF x] show "lawful g' x"
  proof
    assume "get g j = Some x"
    then show ?thesis using lawful_kept [OF S _ x _ k m] L unfolding life_inv_def by blast
  qed
qed

lemma life_invD: "life_inv g \<Longrightarrow> get g i = Some n \<Longrightarrow> lawful g n"
  unfolding life_inv_def by blast

lemma life_inv_new: "life_inv (new_graph m)"
  by (simp add: life_inv_def get_def new_graph_def)

section \<open>Every step is lawful\<close>

text \<open>What a step owes: the lifecycle invariant again, and every finished node left alone.\<close>

definition lawful_step :: "task_graph \<Rightarrow> task_graph \<Rightarrow> bool" where
  "lawful_step g g' \<longleftrightarrow> life_inv g' \<and> keeps_done g g'"

lemma lawful_stepI:
  assumes "struct_inv g" "life_inv g" "mode g' = mode g" "keeps_done g g'"
    and "\<And>j x. get g' j = Some x \<Longrightarrow> get g j = Some x \<or> lawful g' x"
  shows "lawful_step g g'"
  using assms life_inv_step [OF assms(1-4)] unfolding lawful_step_def by blast

text \<open>One node changes, and it was not finished (or it is the root gate).\<close>

lemma keeps_done_modify:
  assumes "\<And>n. nid (f n) = nid n" and "get g i = Some n" "status n \<noteq> Done \<or> root_gate n"
  shows "keeps_done g (modify g i f)"
  using assms(2,3) by (auto simp: keeps_done_def get_modify [OF assms(1)])

lemma lawful_step_modify:
  assumes S: "struct_inv g" "life_inv g" and nid: "\<And>n. nid (f n) = nid n"
    and n: "get g i = Some n" "status n \<noteq> Done"
    and l: "keeps_done g (modify g i f) \<Longrightarrow> lawful (modify g i f) (f n)"
  shows "lawful_step g (modify g i f)"
proof (rule lawful_stepI [OF S])
  show k: "keeps_done g (modify g i f)" using keeps_done_modify [OF nid n(1)] n(2) by blast
  show "get (modify g i f) j = Some x \<Longrightarrow> get g j = Some x \<or> lawful (modify g i f) x" for j x
    using l [OF k] n(1) by (auto simp: get_modify [OF nid] split: if_splits)
qed simp

lemma lawful_dispatch:
  assumes S: "struct_inv g" "life_inv g" and ok: "dispatch g i w = (g', True)"
  shows "lawful_step g g'"
proof -
  let ?f = "\<lambda>n. n\<lparr>owner := Some w, status := Running\<rparr>"
  from ok obtain n where n: "get g i = Some n" "status n = Queued" "deps_satisfied g n"
    and g': "g' = modify g i ?f" by (auto simp: dispatch_True)
  show ?thesis
    unfolding g'
  proof (rule lawful_step_modify [OF S _ n(1)])
    assume "keeps_done g (modify g i ?f)"
    then have "deps_satisfied (modify g i ?f) (?f n)"
      by (rule deps_satisfied_kept [OF S(1) n(1,3)]) simp
    then show "lawful (modify g i ?f) (?f n)" by (simp add: lawful_def)
  qed (simp_all add: n)
qed

lemma lawful_fail:
  assumes S: "struct_inv g" "life_inv g" and ok: "fail_node g i actor = Inr g'"
  shows "lawful_step g g'"
proof -
  let ?f = "\<lambda>n. n\<lparr>status := Failed\<rparr>"
  from ok obtain n where n: "get g i = Some n" "status n = Running" "owner n = Some actor"
    and g': "g' = modify g i ?f" by (auto simp: fail_node_ok)
  show ?thesis
    unfolding g'
  proof (rule lawful_step_modify [OF S _ n(1)])
    assume k: "keeps_done g (modify g i ?f)"
    have "deps_satisfied (modify g i ?f) (?f n)" if "\<not> root_gate n"
      using lawfulD(3) [OF life_invD [OF S(2) n(1)]] that n(2)
      by (intro deps_satisfied_kept [OF S(1) n(1) _ k]) simp_all
    then show "lawful (modify g i ?f) (?f n)" using n by (simp add: lawful_def root_gate_def)
  qed (simp_all add: n)
qed

lemma lawful_requeue:
  assumes S: "struct_inv g" "life_inv g" and ok: "requeue_failed g i = Inr g'"
  shows "lawful_step g g'"
proof -
  from ok obtain n where n: "get g i = Some n" "status n = Failed"
    and g': "g' = modify g i (\<lambda>n. n\<lparr>status := Queued, owner := None\<rparr>)"
    by (auto simp: requeue_failed_ok)
  show ?thesis
    unfolding g' by (rule lawful_step_modify [OF S _ n(1)]) (simp_all add: n lawful_queued)
qed

text \<open>A gate that passes has every node of its scope done.\<close>

lemma validate_gate_pass_scope:
  "validate_gate_pass g i a = Inr u \<Longrightarrow> get g i = Some n \<Longrightarrow> c \<in> set (gate_audit_scope g n)
     \<Longrightarrow> status c = Done"
  by (auto simp: validate_gate_pass_def Let_def filter_empty_iff is_done_def split: if_splits)

lemma gate_scope_deps:
  assumes S: "struct_inv g" and n: "get g i = Some n" "is_gate n" and d: "d \<in> set (depends_on n)"
  shows "\<exists>c. get g d = Some c \<and> c \<in> set (gate_audit_scope g n)"
proof -
  obtain c where c: "get g d = Some c" "\<not> is_gate c"
    using shape_scopeD [OF struct_shape [OF S] n, of d] d by blast
  then have "c \<in> set (List.map_filter (get g) (depends_on n))"
    using d by (force simp: map_filter_def)
  then show ?thesis using c by (auto simp: gate_audit_scope_def)
qed

lemma gate_pass_deps_done:
  assumes "struct_inv g" "get g i = Some n" "is_gate n" "validate_gate_pass g i a = Inr u"
  shows "deps_satisfied g n"
  using gate_scope_deps [OF assms(1-3)] validate_gate_pass_scope [OF assms(4,2)]
  unfolding deps_satisfied_iff by blast

lemma gate_deep: "struct_inv g \<Longrightarrow> get g i = Some n \<Longrightarrow> is_gate n \<Longrightarrow> requires_gates (mode g)"
  using struct_shape unfolding shape_def light_ungated_def by blast

lemma lawful_complete:
  assumes S: "struct_inv g" "life_inv g" and ok: "complete_node g i actor a = Inr g'"
  shows "lawful_step g g'"
proof -
  let ?f = "\<lambda>n. n\<lparr>status := Done, node_output := Some a\<rparr>"
  from ok obtain n where n: "get g i = Some n" "status n = Running" "owner n = Some actor"
    and v: "validate_artifact (mode g) i (is_gate n) a = Inr ()"
    and p: "is_gate n \<and> requires_gates (mode g) \<longrightarrow> validate_gate_pass g i a = Inr ()"
    and g': "g' = modify g i ?f" by (auto simp: complete_node_ok)
  have pass: "is_gate n \<Longrightarrow> validate_gate_pass g i a = Inr ()" using p gate_deep [OF S(1) n(1)] by blast
  have d: "deps_satisfied g n"
    using gate_pass_deps_done [OF S(1) n(1)] pass lawfulD(3) [OF life_invD [OF S(2) n(1)]] n(2)
    by (auto simp: root_gate_def)
  show ?thesis
    unfolding g'
  proof (rule lawful_step_modify [OF S _ n(1)])
    assume k: "keeps_done g (modify g i ?f)"
    have "deps_satisfied (modify g i ?f) (?f n)"
      by (rule deps_satisfied_kept [OF S(1) n(1) d k]) simp
    moreover have "is_gate n \<Longrightarrow> validate_gate_pass (modify g i ?f) i a = Inr ()"
      using pass validate_gate_pass_kept [OF S(1) n(1) d k, of "?f n" a] n(1)
      by (simp add: get_modify)
    ultimately show "lawful (modify g i ?f) (?f n)"
      using v n get_nid [OF n(1)] by (cases "is_gate n") (simp_all add: lawful_def)
  qed (simp_all add: n)
qed

lemma lawful_expand:
  assumes S: "struct_inv g" "life_inv g" and ok: "expand_node g i actor cs = Inr (g', out)"
  shows "lawful_step g g'"
proof -
  from ok obtain n where n: "get g i = Some n" "status n = Running"
    and fresh: "distinct (spec_ids cs)" "set (spec_ids cs) \<inter> ids g = {}"
    and g': "g' = modify (append_nodes g (expand_news g i (kind n) cs)) i
            (compose_parent (map nid (expand_news g i (kind n) cs)))"
    by (rule expand_node_ok) blast
  let ?B = "expand_news g i (kind n) cs"
  have get: "get g' j = Some x \<longleftrightarrow> (j = i \<and> x = compose_parent (map nid ?B) n) \<or>
      (j \<noteq> i \<and> (get g j = Some x \<or> (x \<in> set ?B \<and> nid x = j)))" for j x
    unfolding g' by (rule get_expand [OF struct_unique [OF S(1)] n(1)
          expand_news_fresh [OF fresh, of i "kind n"]]) simp
  show ?thesis
  proof (rule lawful_stepI [OF S])
    show "keeps_done g g'"
      unfolding keeps_done_def get using n by auto
    show "get g j = Some x \<or> lawful g' x" if "get g' j = Some x" for j x
    proof -
      have "x \<in> set ?B \<Longrightarrow> lawful g' x" using expand_news_in lawful_queued by blast
      moreover have "lawful g' (compose_parent (map nid ?B) n)" by (simp add: lawful_queued)
      ultimately show ?thesis using that unfolding get by blast
    qed
  qed (simp add: g')
qed

lemma running_gate_parent_queued:
  assumes S: "struct_inv g" "life_inv g" and n: "get g i = Some n" "status n \<noteq> Done" "parent n = Some p"
    and q: "get g p = Some q"
  shows "status q = Queued \<and> owner q = None"
proof -
  have e: "expanded q" "i \<in> set (depends_on q)"
    using shape_parentD [OF struct_shape [OF S(1)] n(1,3)] q by auto
  then have "\<not> root_gate q"
    using struct_shape [OF S(1)] q unfolding shape_def flat_gates_def root_gate_def by blast
  moreover have "\<not> deps_satisfied g q" using e(2) n unfolding deps_satisfied_iff by force
  ultimately show ?thesis using lawfulD(1,3) [OF life_invD [OF S(2) q]] by blast
qed

lemma lawful_inject:
  assumes S: "struct_inv g" "life_inv g" and ok: "inject_from_gate g i actor ss = Inr (g', new_ids)"
  shows "lawful_step g g'"
proof -
  from ok obtain n where n: "get g i = Some n" "is_gate n" "status n = Running"
    and fresh: "distinct (spec_ids ss)" "set (spec_ids ss) \<inter> ids g = {}"
    and g': "g' = inject_result g i (parent n) ss"
    by (rule inject_from_gate_ok) blast
  have par: "get g p \<noteq> None" if "parent n = Some p" for p
    using shape_parentD [OF struct_shape [OF S(1)] n(1) that] by auto
  let ?u = "inject_update i (parent n) (spec_ids ss)"
  have get: "get g' j = Some x \<longleftrightarrow> (\<exists>y. get g j = Some y \<and> x = ?u j y)
     \<or> (x \<in> set (spec_nodes ss (parent n) OGap) \<and> nid x = j)" for j x
    unfolding g' by (rule get_inject [OF struct_unique [OF S(1)] _ par fresh]) (simp_all add: n)
  have upd: "?u j y = y \<or> status y \<noteq> Done \<and> status (?u j y) = Queued \<and> owner (?u j y) = None"
    if y: "get g j = Some y" for j y
  proof -
    consider "j = i" | "j \<noteq> i" "parent n = Some j" | "j \<noteq> i" "parent n \<noteq> Some j" by blast
    then show ?thesis
    proof cases
      case 1
      then show ?thesis using y n by (simp add: inject_update_def Let_def)
    next
      case 2
      then show ?thesis
        using running_gate_parent_queued [OF S n(1) _ 2(2) y] n(3) by (simp add: inject_update_def)
    qed (simp add: inject_update_def)
  qed
  show ?thesis
  proof (rule lawful_stepI [OF S])
    show "keeps_done g g'" unfolding keeps_done_def get using upd by metis
    show "get g j = Some x \<or> lawful g' x" if "get g' j = Some x" for j x
      using that upd lawful_queued spec_nodes_fields [of x ss "parent n" OGap] unfolding get by metis
    show "mode g' = mode g" using inject_result_unique(2) [OF struct_unique [OF S(1)] fresh] by (simp add: g')
  qed
qed

lemma widen_gate_lawful:
  assumes "lawful g n" "root_gate n"
  shows "widen_gate rs n = n \<or> lawful g' (widen_gate rs n)"
proof -
  have r: "root_gate (widen_gate rs n)" using assms(2) by (simp add: root_gate_def)
  from widen_gate_lifecycle [of rs n] show ?thesis
    using lawfulD(1) [OF assms(1)] r by (auto simp: lawful_def)
qed

text \<open>A batch of roots: nothing changes but the root gate, and what is new is lawful.\<close>

definition settles :: "task_graph \<Rightarrow> task_graph \<Rightarrow> bool" where
  "settles g g' \<longleftrightarrow> (\<forall>j x.
     (get g j = Some x \<longrightarrow> get g' j = Some x \<or> root_gate x)
     \<and> (get g' j = Some x \<longrightarrow> get g j = Some x \<or> lawful g' x))"

definition queued_batch :: "task_node list \<Rightarrow> bool" where
  "queued_batch B \<longleftrightarrow> (\<forall>x \<in> set B. status x = Queued \<and> owner x = None)"

lemma queued_batch_lawful: "queued_batch B \<Longrightarrow> x \<in> set B \<Longrightarrow> lawful g x"
  unfolding queued_batch_def using lawful_queued by blast

lemma settles_append:
  assumes "struct_inv g" "root_batch g B" "queued_batch B"
  shows "settles g (append_nodes g B)"
  unfolding settles_def root_batch_append(2) [OF assms(1,2)]
  using queued_batch_lawful [OF assms(3)] by blast

lemma settles_widen:
  assumes S: "struct_inv g" "life_inv g" and B: "root_batch g B" "queued_batch B"
    and h: "get g (nid h) = Some h" "root_gate h"
    and g': "\<And>j. get g' j = map_option (seed_update (nid h) rs j) (get (append_nodes g B) j)"
  shows "settles g g'"
proof -
  note get1 = root_batch_append(2) [OF S(1) B(1)]
  have h1: "get (append_nodes g B) (nid h) = Some h" using h(1) get1 by blast
  have upd: "seed_update (nid h) rs k y = y \<or> y = h \<and> lawful g' (seed_update (nid h) rs k y)"
    if "get (append_nodes g B) k = Some y" for k y
    using that h1 widen_gate_lawful [OF life_invD [OF S(2) h(1)] h(2), of rs g']
    by (auto simp: seed_update_def)
  have "get g' j = Some x \<or> root_gate x" if "get g j = Some x" for j x
  proof -
    have "get (append_nodes g B) j = Some x" using that get1 by blast
    then show ?thesis using upd h(2) g' by fastforce
  qed
  moreover have "get g j = Some x \<or> lawful g' x" if x: "get g' j = Some x" for j x
  proof -
    obtain y where y: "get (append_nodes g B) j = Some y" "x = seed_update (nid h) rs j y"
      using x unfolding g' map_option_eq_Some by blast
    then show ?thesis using upd [OF y(1)] get1 queued_batch_lawful [OF B(2)] by metis
  qed
  ultimately show ?thesis unfolding settles_def by blast
qed

lemma settles_push:
  assumes S: "struct_inv g" and B: "root_batch g B" "queued_batch B"
    and G: "nid G \<notin> ids (append_nodes g B)" "status G = Queued" "owner G = None"
  shows "settles g (push (append_nodes g B) G)"
  unfolding settles_def get_push_fresh [OF G(1)] root_batch_append(2) [OF S B(1)]
  using queued_batch_lawful [OF B(2)] lawful_queued [OF G(2,3)] by blast

lemma settles_batch:
  assumes S: "struct_inv g" "life_inv g" and B: "root_batch g B" "queued_batch B"
  shows "settles g (gate_if_deep (append_nodes g B))"
proof -
  let ?g1 = "append_nodes g B"
  show ?thesis
  proof (cases "requires_gates (mode g)")
    case False
    then show ?thesis using settles_append [OF S(1) B] by (simp add: gate_if_deep_def)
  next
    case True
    then have e: "gate_if_deep ?g1 = ensure_root_gate ?g1" by (simp add: gate_if_deep_def)
    from root_batch_append(1) [OF S(1) B(1)] show ?thesis
    proof (cases rule: ensure_root_gate_cases)
      case 1
      then show ?thesis using settles_append [OF S(1) B] by (simp add: e)
    next
      case (2 h)
      have "get g (nid h) = Some h"
        using 2(2,3) root_batch_append(2) [OF S(1) B(1)] root_batchD(3) [OF B(1)] by blast
      moreover have "root_gate h" using 2(3,4) by (simp add: root_gate_def)
      ultimately show ?thesis unfolding e by (rule settles_widen [OF S B _ _ 2(6)])
    next
      case (3 k)
      show ?thesis
        unfolding e 3(3) using unique_gate_id_fresh [of ?g1 "''plan''"]
        by (intro settles_push [OF S(1) B]) simp_all
    qed
  qed
qed

lemma settles_seed:
  assumes S: "struct_inv g" "life_inv g" and ok: "seed g specs = Inr g'"
  shows "settles g g'"
proof -
  from ok obtain us where d: "distinct (spec_ids us)"
    and deps: "\<forall>s \<in> set us. set (spec_depends_on s) \<subseteq> set (spec_ids us) \<union> ids g"
    and g': "g' = gate_if_deep (append_nodes g (seed_news g us))"
    by (rule seed_ok) blast
  show ?thesis
    unfolding g' using seed_news_in
    by (intro settles_batch [OF S root_batch_seed [OF d deps]]) (auto simp: queued_batch_def)
qed

lemma lawful_seed:
  assumes S: "struct_inv g" "life_inv g" and ok: "seed g specs = Inr g'"
  shows "lawful_step g g'"
proof -
  from ok obtain us where "g' = gate_if_deep (append_nodes g (seed_news g us))"
    by (rule seed_ok) blast
  then show ?thesis
    using settles_seed [OF S ok] unfolding settles_def
    by (intro lawful_stepI [OF S]) (auto simp: keeps_done_def)
qed

lemma dag_step_lawful: "dag_step g e g' \<Longrightarrow> struct_inv g \<Longrightarrow> life_inv g \<Longrightarrow> lawful_step g g'"
  by (induction rule: dag_step.induct)
    (erule (2) lawful_seed lawful_dispatch lawful_expand lawful_complete lawful_fail
      lawful_inject lawful_requeue)+

lemma reachable_life: "reachable m g \<Longrightarrow> life_inv g"
proof (induction rule: reachable.induct)
  case reach_new
  then show ?case by (rule life_inv_new)
next
  case (reach_step g e g')
  then show ?case using dag_step_lawful reachable_struct unfolding lawful_step_def by blast
qed

lemma done_deps_done:
  assumes "reachable m g" "get g i = Some n" "status n = Done" "d \<in> set (depends_on n)"
  shows "\<exists>c. get g d = Some c \<and> status c = Done"
  using lawfulD(2) [OF life_invD [OF reachable_life [OF assms(1)] assms(2)] assms(3)] assms(4)
  unfolding deps_satisfied_iff by blast

lemma idle_graph_has_ready:
  assumes R: "reachable m g" and "\<forall>n \<in> set (nodes g). status n = Queued \<or> status n = Done"
    and "\<not> all_terminal g"
  shows "ready_nodes g \<noteq> []"
proof -
  from reachable_struct [OF R] have S: "struct_inv g" by blast
  let ?Q = "{i. \<exists>n. get g i = Some n \<and> status n = Queued}"
  obtain n where "n \<in> set (nodes g)" "status n = Queued"
    using assms(2,3) by (auto simp: all_terminal_def list_all_iff node_is_terminal_def)
  then have "nid n \<in> ?Q" using mem_nodes_get [OF struct_unique [OF S]] by blast
  then obtain i where i: "i \<in> ?Q" and min: "\<And>d. (d, i) \<in> dep_rel g \<Longrightarrow> d \<notin> ?Q"
    by (rule wfE_min [OF acyclic_wf [OF struct_acyclic [OF S]]]) blast
  then obtain q where q: "get g i = Some q" "status q = Queued" by blast
  have "deps_satisfied g q"
    unfolding deps_satisfied_iff
  proof
    fix d
    assume d: "d \<in> set (depends_on q)"
    then obtain c where c: "get g d = Some c" using shape_closedD [OF struct_shape [OF S] q(1)] by blast
    then have "status c \<noteq> Queued" using min dep_relI [OF S q(1) d] by blast
    then show "\<exists>c. get g d = Some c \<and> status c = Done" using c assms(2) get_SomeD by blast
  qed
  then have "q \<in> set (filter (\<lambda>n. status n = Queued \<and> deps_satisfied g n) (nodes g))"
    using q get_SomeD by auto
  then have "q \<in> set (ready_nodes g)" by (simp add: ready_nodes_def)
  then show ?thesis by auto
qed

lemma done_root_gate_all:
  assumes R: "reachable m g" and h: "get g r = Some h" "root_gate h" "status h = Done"
    and x: "n \<in> set (nodes g)"
  shows "status n = Done"
proof -
  from reachable_struct [OF R] have S: "struct_inv g" by blast
  have n: "get g (nid n) = Some n" using mem_nodes_get [OF struct_unique [OF S] x] .
  have "\<exists>c. get g x = Some c \<and> status c = Done" if "(x, r) \<in> (dep_rel g)\<^sup>+" for x
    using that
  proof (induction rule: converse_trancl_induct)
    case (base y)
    then obtain m where "get g r = Some m" "y \<in> set (depends_on m)"
      by (auto simp: dep_rel_get [OF struct_unique [OF S]])
    then show ?case using done_deps_done [OF R h(1,3)] h(1) by auto
  next
    case (step y z)
    from step(1) obtain m where "get g z = Some m" "y \<in> set (depends_on m)"
      by (auto simp: dep_rel_get [OF struct_unique [OF S]])
    moreover from this step(3) have "status m = Done" by auto
    ultimately show ?case using done_deps_done [OF R] by blast
  qed
  then show "status n = Done"
    using below_root_gate [OF S h(1,2) n] h n by (cases "nid n = r") fastforce+
qed

lemma deep_root_gate_exists:
  assumes S: "struct_inv g" and m: "requires_gates (mode g)" and n: "get g x = Some n"
  shows "\<exists>r h. get g r = Some h \<and> root_gate h"
proof -
  have "wf ((dep_rel g)\<inverse>)"
    using struct_acyclic [OF S] finite_dep_rel by (simp add: finite_acyclic_wf_converse)
  then show ?thesis
    using n
  proof (induction x arbitrary: n rule: wf_induct_rule)
    case (less x)
    show ?case
    proof (cases "parent n")
      case None
      then show ?thesis
        using struct_shape [OF S] m less.prems unfolding shape_def root_gated_def root_gate_def by blast
    next
      case (Some p)
      then obtain q where "get g p = Some q" "x \<in> set (depends_on q)"
        using shape_parentD [OF struct_shape [OF S] less.prems] by blast
      then show ?thesis using less.IH dep_relI [OF S] by blast
    qed
  qed
qed

lemma spec_nodes_mem: "s \<in> set ss \<Longrightarrow> spec_to_node s par orig \<in> set (spec_nodes ss par orig)"
  by (simp add: spec_nodes_def)

end
