(* ===== verification/Dag_Scenario.thy ===== *)
theory Dag_Scenario
  imports Dag_Engine
begin

text \<open>
  A deep-mode run from seeding to completion, evaluated by the kernel: one root \<open>a\<close>,
  expanded into \<open>x\<close>, whose low-confidence result the gate of \<open>a\<close> has to address before \<open>a\<close>
  is synthesized and the plan-wide gate passes. The theorems about the engine are
  instantiated at these graphs.
\<close>

definition demo_artifact :: "string \<Rightarrow> string \<Rightarrow> handoff_artifact" where
  "demo_artifact f c =
     default_artifact\<lparr>findings := f, confidence := Some c, what_i_did_not_check := [''nothing'']\<rparr>"

definition demo_start :: "dag_event list" where
  "demo_start =
    [EvSeed [new_spec ''a'' ''A'' Explore],
     EvDispatch ''a'' ''w'',
     EvExpand ''a'' ''w'' [new_spec ''x'' ''X'' Explore],
     EvDispatch ''x'' ''v'',
     EvComplete ''x'' ''v'' (demo_artifact ''did x'' ''low''),
     EvDispatch ''a::gate'' ''c'']"

definition demo_middle :: "dag_event list" where
  "demo_middle =
    [EvComplete ''a::gate'' ''c'' (brief ''x: low confidence is fine here''),
     EvDispatch ''a'' ''w'',
     EvComplete ''a'' ''w'' (demo_artifact ''synthesis of x'' ''high'')]"

definition demo_finish :: "dag_event list" where
  "demo_finish =
    [EvDispatch ''plan::gate'' ''c'',
     EvComplete ''plan::gate'' ''c'' (brief ''a is covered'')]"

text \<open>The graphs after each part, node by node.\<close>

definition demo_a :: task_node where
  "demo_a = (spec_to_node (new_spec ''a'' ''A'' Explore) None OSeed)
     \<lparr>depends_on := [''x'', ''a::gate''], expanded := True, planner := Some ''w''\<rparr>"

definition demo_x :: task_node where
  "demo_x = (spec_to_node (new_spec ''x'' ''X'' Explore) (Some ''a'') OExpand)
     \<lparr>status := Done, owner := Some ''v'', node_output := Some (demo_artifact ''did x'' ''low'')\<rparr>"

definition demo_gate :: task_node where
  "demo_gate = (gate_node ''a::gate'' (gate_content Critique ''a'') Critique (Some ''a'') [''x''])
     \<lparr>status := Running, owner := Some ''c''\<rparr>"

definition demo_gate_done :: task_node where
  "demo_gate_done = demo_gate
     \<lparr>status := Done, node_output := Some (brief ''x: low confidence is fine here'')\<rparr>"

definition demo_a_done :: task_node where
  "demo_a_done = demo_a
     \<lparr>status := Done, owner := Some ''w'',
      node_output := Some (demo_artifact ''synthesis of x'' ''high'')\<rparr>"

definition demo_root_gate :: task_node where
  "demo_root_gate = gate_node ''plan::gate'' (root_gate_content Critique) Critique None [''a'']"

definition demo_root_gate_done :: task_node where
  "demo_root_gate_done = demo_root_gate
     \<lparr>status := Done, owner := Some ''c'', node_output := Some (brief ''a is covered'')\<rparr>"

definition demo1 :: task_graph where
  "demo1 = \<lparr>mode = Deep, nodes = [demo_a, demo_root_gate, demo_x, demo_gate]\<rparr>"

definition demo2 :: task_graph where
  "demo2 = \<lparr>mode = Deep, nodes = [demo_a_done, demo_root_gate, demo_x, demo_gate_done]\<rparr>"

definition demo3 :: task_graph where
  "demo3 = \<lparr>mode = Deep, nodes = [demo_a_done, demo_root_gate_done, demo_x, demo_gate_done]\<rparr>"

lemma run_events_append: "run_events m (es @ fs) = fold exec_event fs (run_events m es)"
  by (simp add: run_events_def)

lemma demo1_run: "run_events Deep demo_start = demo1"
  by code_simp

lemma demo2_step: "fold exec_event demo_middle demo1 = demo2"
  by code_simp

lemma demo3_step: "fold exec_event demo_finish demo2 = demo3"
  by code_simp

lemma demo_reachable: "reachable Deep demo1" "reachable Deep demo2" "reachable Deep demo3"
  using reachable_run [of Deep demo_start] reachable_run [of Deep "demo_start @ demo_middle"]
    reachable_run [of Deep "(demo_start @ demo_middle) @ demo_finish"]
  by (simp_all only: run_events_append demo1_run demo2_step demo3_step)

lemma demo_get:
  "get demo1 ''a'' = Some demo_a" "get demo1 ''x'' = Some demo_x"
  "get demo1 ''a::gate'' = Some demo_gate"
  "get demo2 ''a'' = Some demo_a_done" "get demo2 ''a::gate'' = Some demo_gate_done"
  "get demo2 ''x'' = Some demo_x"
  "get demo3 ''plan::gate'' = Some demo_root_gate_done"
  by code_simp+

lemma demo_nodes:
  "nodes demo1 = [demo_a, demo_root_gate, demo_x, demo_gate]"
  "nodes demo2 = [demo_a_done, demo_root_gate, demo_x, demo_gate_done]"
  "nodes demo3 = [demo_a_done, demo_root_gate_done, demo_x, demo_gate_done]"
  by (simp_all add: demo1_def demo2_def demo3_def)

lemma demo_fields:
  "status demo_a = Queued" "status demo_x = Done" "status demo_gate = Running"
  "status demo_gate_done = Done" "status demo_a_done = Done" "status demo_root_gate_done = Done"
  "status demo_root_gate = Queued"
  "is_gate demo_gate_done" "is_gate demo_root_gate_done" "is_gate demo_root_gate" "is_gate demo_gate"
  "\<not> is_gate demo_x" "\<not> is_gate demo_a" "\<not> is_gate demo_a_done"
  "expanded demo_a_done"
  "parent demo_x = Some ''a''" "parent demo_gate_done = Some ''a''" "parent demo_root_gate_done = None"
  "depends_on demo_a_done = [''x'', ''a::gate'']"
  by (simp_all add: demo_a_def demo_x_def demo_gate_def demo_gate_done_def demo_a_done_def
      demo_root_gate_def demo_root_gate_done_def)

end
