(* ===== verification/Dag_Mentions.thy ===== *)
theory Dag_Mentions
  imports Dag_Ops
begin

text \<open>
  How \<open>mentions_node_id\<close> (\<open>dag/ops.rs\<close>) finds an id in the text of a gate artifact: the loop
  inspects every occurrence that can start at a character boundary.
\<close>

text \<open>Where an id stands delimited in a text.\<close>

definition mention_at :: "string \<Rightarrow> string \<Rightarrow> nat \<Rightarrow> bool" where
  "mention_at t i k \<longleftrightarrow> take (length i) (drop k t) = i \<and> k \<le> length t
     \<and> before_ok (take k t) \<and> after_ok (drop (k + length i) t)"

lemma occurs_split: "take (length i) (drop k t) = i \<Longrightarrow> t = take k t @ i @ drop (k + length i) t"
  by (metis add.commute append_take_drop_id drop_drop)

lemma find_str_drop:
  assumes "find_str (drop s t) i = Some p"
  shows "take (length i) (drop (s + p) t) = i" "s + p + length i \<le> length t \<or> drop s t = []"
proof -
  from find_str_SomeD [OF assms] obtain pre post where e: "drop s t = pre @ i @ post" "length pre = p"
    by blast
  then have "drop (s + p) t = i @ post" by (metis add.commute append_eq_conv_conj drop_drop)
  then show "take (length i) (drop (s + p) t) = i" by simp
  have "length t - s = p + length i + length post" using arg_cong [OF e(1), of length] e(2) by simp
  then show "s + p + length i \<le> length t \<or> drop s t = []" by (cases "s \<le> length t") auto
qed

lemma find_str_drop_least:
  assumes "find_str (drop s t) i = Some p" "s \<le> k" "take (length i) (drop k t) = i" "k \<le> length t"
  shows "s + p \<le> k"
proof -
  have "drop s t = drop s (take k t) @ i @ drop (k + length i) t"
    using arg_cong [OF occurs_split [OF assms(3)], of "drop s"] assms(2,4) by simp
  from find_str_leastD [OF assms(1) this] show ?thesis using assms(2) by simp
qed

lemma find_str_drop_None:
  assumes "find_str (drop s t) i = None" "s \<le> k" "k \<le> length t"
  shows "take (length i) (drop k t) \<noteq> i"
proof
  assume "take (length i) (drop k t) = i"
  then have "drop k t = i @ drop (k + length i) t" by (metis add.commute append_take_drop_id drop_drop)
  then have "drop s t = take (k - s) (drop s t) @ i @ drop (k + length i) t"
    by (metis append_take_drop_id assms(2) drop_drop le_add_diff_inverse2)
  then have "contains (drop s t) i" by (metis contains_infix)
  then show False using assms(1) by (simp add: contains_def)
qed

text \<open>Between an occurrence and the next character boundary no id can start.\<close>

lemma no_start_inside_char:
  assumes "b < k" "k < b + first_char_len (drop b t)" "k < length t" "i \<noteq> []" "\<not> is_cont (hd i)"
  shows "take (length i) (drop k t) \<noteq> i"
proof
  assume occ: "take (length i) (drop k t) = i"
  have "b < length t" using assms by simp
  then obtain c cs where c: "drop b t = c # cs" by (metis Cons_nth_drop_Suc)
  then have "k - b - 1 < length (takeWhile is_cont cs)" using assms(1,2) by (simp add: first_char_len_def)
  then have "is_cont (cs ! (k - b - 1))" by (metis nth_mem set_takeWhileD takeWhile_nth)
  moreover have "cs ! (k - b - 1) = t ! k"
    using c assms(1,3) by (metis Suc_diff_Suc diff_Suc_1 le_add_diff_inverse less_imp_le_nat nth_Cons_Suc nth_drop One_nat_def \<open>b < length t\<close>)
  moreover have "t ! k = hd i"
    using occ assms(3,4) by (metis hd_drop_conv_nth hd_take length_greater_0_conv)
  ultimately show False using assms(5) by simp
qed

lemma mentions_loop_iff:
  "i \<noteq> [] \<Longrightarrow> \<not> is_cont (hd i) \<Longrightarrow> start \<le> length t \<Longrightarrow>
     mentions_loop t i start \<longleftrightarrow> (\<exists>k \<ge> start. mention_at t i k)"
proof (induction t i start rule: mentions_loop.induct)
  case (1 t i start)
  note ne = 1(2,3)
  show ?case
  proof (cases "find_str (drop start t) i")
    case None
    then show ?thesis
      using find_str_drop_None [OF None] by (subst mentions_loop.simps) (auto simp: mention_at_def)
  next
    case (Some p)
    let ?b = "start + p"
    let ?s = "?b + first_char_len (drop ?b t)"
    note occ = find_str_drop [OF Some]
    have len: "?b + length i \<le> length t" using occ Some ne(1) by (cases "drop start t") (auto split: if_splits)
    show ?thesis
    proof (cases "before_ok (take ?b t) \<and> after_ok (drop (?b + length i) t)")
      case True
      then have "mention_at t i ?b" using occ len by (simp add: mention_at_def)
      then have "\<exists>k \<ge> start. mention_at t i k" by (intro exI [of _ ?b]) simp
      then show ?thesis using True Some by (subst mentions_loop.simps) (simp add: Let_def)
    next
      case False
      have later: "?s \<le> k" if "mention_at t i k" "start \<le> k" for k
      proof (rule ccontr)
        assume k: "\<not> ?s \<le> k"
        have m: "take (length i) (drop k t) = i" "k \<le> length t" using that(1) by (auto simp: mention_at_def)
        then have "k < length t" using ne(1) by (cases "k = length t") auto
        moreover have "?b \<noteq> k" using that(1) False by (auto simp: mention_at_def)
        ultimately show False
          using find_str_drop_least [OF Some that(2) m] no_start_inside_char [of ?b k t i] k ne m(1)
          by simp
      qed
      have "?s > start" using first_char_len_pos [of "drop ?b t"] by simp
      show ?thesis
      proof (cases "length t \<le> ?s")
        case True
        have "\<not> mention_at t i k" if "start \<le> k" for k
        proof
          assume m: "mention_at t i k"
          then have "k = length t" "take (length i) (drop k t) = i"
            using later [OF m that] True by (simp_all add: mention_at_def)
          then show False using ne(1) by simp
        qed
        then show ?thesis using True False Some by (subst mentions_loop.simps) (auto simp: Let_def)
      next
        case F2: False
        have "mentions_loop t i start = mentions_loop t i ?s"
          using F2 False Some by (subst mentions_loop.simps) (auto simp: Let_def)
        also have "\<dots> \<longleftrightarrow> (\<exists>k \<ge> ?s. mention_at t i k)"
          using 1(1) [OF Some refl refl] False F2 ne by (simp add: Let_def)
        finally show ?thesis using later \<open>?s > start\<close> by (meson le_trans less_imp_le_nat)
      qed
    qed
  qed
qed

end
