(* ===== verification/Dag_Properties.thy ===== *)
theory Dag_Properties
  imports Dag_Scenario Dag_Mentions
begin

text \<open>
  What the task-DAG engine promises, on every graph that its operations can reach from an
  empty one. Each property is stated over the operations of \<open>dag/ops.rs\<close>,
  \<open>dag/schedule.rs\<close> and \<open>dag/mod.rs\<close> and instantiated at the graphs of \<open>Dag_Scenario\<close>.
\<close>

text \<open>
  C1: A deep plan cannot finish before its plan-wide audit: once the root gate is done, every
  node of the plan is done.
\<close>

theorem plan_done_after_root_gate:
  assumes R: "reachable Deep g" and h: "get g r = Some h" "is_gate h" "parent h = None" "status h = Done"
  shows "\<forall>n \<in> set (nodes g). status n = Done"
  using done_root_gate_all [OF R h(1) _ h(4)] h(2,3) unfolding root_gate_def by blast

theorem plan_done_after_root_gate_witness:
  "list_all (\<lambda>n. status n = Done) (nodes demo3)"
  unfolding list_all_iff
  by (rule plan_done_after_root_gate [OF demo_reachable(3) demo_get(7)]) (simp_all add: demo_fields)

text \<open>
  C2: A deep composite is done only after its children and the gate over them are done.
\<close>

theorem composite_done_after_gate:
  assumes R: "reachable Deep g" and n: "get g i = Some n" "expanded n" "status n = Done"
  shows "(\<exists>h. gate_of g i = Some h \<and> status h = Done)
    \<and> (\<forall>c \<in> set (nodes g). parent c = Some i \<longrightarrow> status c = Done)"
proof -
  from reachable_struct [OF R] have S: "struct_inv g" and m: "mode g = Deep" by blast+
  have kids: "status c = Done" if "c \<in> set (nodes g)" "parent c = Some i" for c
  proof -
    have "get g (nid c) = Some c" using mem_nodes_get [OF struct_unique [OF S] that(1)] .
    moreover from this have "nid c \<in> set (depends_on n)"
      using shape_parentD [OF struct_shape [OF S] _ that(2)] n(1) by auto
    ultimately show ?thesis using done_deps_done [OF R n(1,3)] by fastforce
  qed
  obtain j h where "get g j = Some h" "is_gate h" "parent h = Some i"
    using struct_shape [OF S] n(1,2) m unfolding shape_def composite_gated_def by fastforce
  then have "gate_of g i \<noteq> None"
    using get_SomeD unfolding gate_of_def find_None_iff_all by blast
  then obtain k where k: "gate_of g i = Some k" by blast
  then have "k \<in> set (nodes g)" "parent k = Some i" unfolding gate_of_def by (auto dest: find_SomeD)
  then show ?thesis using kids k by blast
qed

theorem composite_done_after_gate_witness:
  "gate_of demo2 ''a'' \<noteq> None \<and> status demo_x = Done"
proof -
  have "(\<exists>h. gate_of demo2 ''a'' = Some h \<and> status h = Done)
    \<and> (\<forall>c \<in> set (nodes demo2). parent c = Some ''a'' \<longrightarrow> status c = Done)"
    by (rule composite_done_after_gate [OF demo_reachable(2) demo_get(4)]) (simp_all add: demo_fields)
  then show ?thesis by (auto simp: demo_nodes demo_fields)
qed

text \<open>
  C3: A gate that passed has an artifact that addresses every node it audits (the non-gate
  nodes under its parent), except high-confidence nodes of a scope of more than 20; and
  all of them are done. In particular no low-confidence sibling goes unaddressed.
\<close>

theorem gate_done_covers_scope:
  assumes R: "reachable m g" and n: "get g i = Some h" "is_gate h" "status h = Done"
    and c: "c \<in> set (nodes g)" "\<not> is_gate c" "parent c = parent h"
  shows "status c = Done \<and> (\<exists>a. node_output h = Some a
     \<and> (output_level c \<noteq> Some High \<or> length (gate_audit_scope g h) \<le> 20
           \<longrightarrow> addressed a (nid c)))"
proof -
  from reachable_struct [OF R] have S: "struct_inv g" by blast
  have l: "lawful g h" using life_invD [OF reachable_life [OF R] n(1)] .
  then obtain a where a: "node_output h = Some a" using n(3) by (auto simp: lawful_def)
  then have v: "validate_gate_pass g i a = Inr ()"
    using l n gate_deep [OF S n(1,2)] get_nid [OF n(1)] by (auto simp: lawful_def)
  have "get g (nid c) = Some c" using mem_nodes_get [OF struct_unique [OF S] c(1)] .
  moreover from this have "nid c \<in> set (depends_on h)"
    using shape_scopeD [OF struct_shape [OF S] n(1,2)] c(2,3) by blast
  ultimately have sc: "c \<in> set (gate_audit_scope g h)"
    using gate_scope_deps [OF S n(1,2)] by (metis option.inject)
  then have "status c = Done" using validate_gate_pass_scope [OF v n(1)] by blast
  moreover have "addressed a (nid c)" if "output_level c \<noteq> Some High"
    using v n(1) sc that
    by (auto simp: validate_gate_pass_def Let_def filter_empty_iff split: if_splits)
  moreover have "addressed a (nid c)" if "length (gate_audit_scope g h) \<le> 20"
    using v n(1) sc that
    by (auto simp: validate_gate_pass_def Let_def filter_empty_iff gate_coverage_enumeration_cap_def
        split: if_splits)
  ultimately show ?thesis using a by blast
qed

theorem gate_done_covers_scope_witness:
  "status demo_x = Done \<and> (\<exists>a. node_output demo_gate_done = Some a \<and> addressed a (nid demo_x))"
proof -
  have "length (gate_audit_scope demo2 demo_gate_done) \<le> 20" by code_simp
  moreover have "status demo_x = Done \<and> (\<exists>a. node_output demo_gate_done = Some a
     \<and> (output_level demo_x \<noteq> Some High \<or> length (gate_audit_scope demo2 demo_gate_done) \<le> 20
           \<longrightarrow> addressed a (nid demo_x)))"
    by (rule gate_done_covers_scope [OF demo_reachable(2) demo_get(5)])
      (simp_all add: demo_fields demo_nodes)
  ultimately show ?thesis by blast
qed

text \<open>
  C4: Work starts only on finished dependencies: whatever has left the queue (running, done or
  failed) has all its dependencies done. The plan-wide gate, whose scope may grow while it
  runs, satisfies this once it is done.
\<close>

theorem started_after_dependencies:
  assumes R: "reachable m g" and n: "get g i = Some n" "status n \<noteq> Queued" "d \<in> set (depends_on n)"
    and "is_gate n \<longrightarrow> parent n = None \<longrightarrow> status n = Done"
  shows "\<exists>c. get g d = Some c \<and> status c = Done"
proof -
  have "deps_satisfied g n"
    using lawfulD(2,3) [OF life_invD [OF reachable_life [OF R] n(1)]] assms(5) n(2)
    by (auto simp: root_gate_def)
  then show ?thesis using n(3) unfolding deps_satisfied_iff by blast
qed

theorem started_after_dependencies_witness:
  "\<exists>c. get demo2 ''a::gate'' = Some c \<and> status c = Done"
  by (rule started_after_dependencies [OF demo_reachable(2) demo_get(4)])
    (simp_all add: demo_fields)

text \<open>
  C5: A finished node is never touched again, by any operation; only the plan-wide gate may be
  reopened, when new roots are seeded.
\<close>

theorem done_is_final:
  assumes "reachable m g" "dag_step g e g'" "get g i = Some n" "status n = Done"
    "\<not> (is_gate n \<and> parent n = None)"
  shows "get g' i = Some n"
  using assms dag_step_lawful reachable_struct reachable_life
  unfolding lawful_step_def keeps_done_def root_gate_def by metis

theorem done_is_final_witness:
  "get (modify demo1 ''a::gate'' (\<lambda>n. n\<lparr>status := Failed\<rparr>)) ''x'' = Some demo_x"
proof (rule done_is_final [OF demo_reachable(1) step_fail demo_get(2)])
  show "fail_node demo1 ''a::gate'' ''c'' = Inr (modify demo1 ''a::gate'' (\<lambda>n. n\<lparr>status := Failed\<rparr>))"
    by (simp add: fail_node_ok demo_get demo_gate_def)
qed (simp_all add: demo_fields)

text \<open>
  C6: Progress: a plan with nothing running and nothing failed that is not finished has a node
  to dispatch; the engine cannot deadlock.
\<close>

theorem ready_node_exists:
  assumes R: "reachable m g" and "\<forall>n \<in> set (nodes g). status n = Queued \<or> status n = Done"
    and "\<not> all_terminal g"
  shows "ready_nodes g \<noteq> []"
  using idle_graph_has_ready [OF assms] .

theorem ready_node_exists_witness:
  "ready_nodes demo2 \<noteq> []"
  by (rule ready_node_exists [OF demo_reachable(2)])
    (simp_all add: demo_nodes demo_fields all_terminal_def node_is_terminal_def)

text \<open>
  C7: Every non-empty deep graph has its plan-wide gate; it waits for exactly the roots, and
  every other node reaches it along dependency edges.
\<close>

theorem root_gate_dominates:
  assumes R: "reachable Deep g" and n: "nodes g \<noteq> []"
  shows "\<exists>h. find_root_gate g = Some h
    \<and> set (depends_on h) = set (map nid (root_nodes g))
    \<and> (\<forall>n \<in> set (nodes g). n \<noteq> h \<longrightarrow> (nid n, nid h) \<in> (dep_rel g)\<^sup>+)"
proof -
  from reachable_struct [OF R] have S: "struct_inv g" and m: "requires_gates (mode g)" by auto
  obtain n where "n \<in> set (nodes g)" using n by (cases "nodes g") auto
  then have "get g (nid n) = Some n" by (rule mem_nodes_get [OF struct_unique [OF S]])
  from deep_root_gate_exists [OF S m this] have "find_root_gate g \<noteq> None"
    using find_root_gate_None [OF struct_unique [OF S]] unfolding root_gate_def by blast
  then obtain h where f: "find_root_gate g = Some h" by blast
  note h = find_root_gate_Some [OF struct_unique [OF S] f]
  have "set (depends_on h) = set (map nid (root_nodes g))"
    using shape_scopeD [OF struct_shape [OF S], of "nid h" h] root_nodes_get [OF struct_unique [OF S]] h
    by (intro set_eqI) simp
  moreover have "(nid n, nid h) \<in> (dep_rel g)\<^sup>+" if "n \<in> set (nodes g)" "n \<noteq> h" for n
  proof -
    have g: "get g (nid n) = Some n" using mem_nodes_get [OF struct_unique [OF S] that(1)] .
    then have "nid n \<noteq> nid h" using that(2) h by auto
    then show ?thesis using below_root_gate [OF S _ _ g] h by (simp add: root_gate_def)
  qed
  ultimately show ?thesis using f by blast
qed

theorem root_gate_dominates_witness:
  "\<exists>h. find_root_gate demo1 = Some h \<and> set (depends_on h) = set (map nid (root_nodes demo1))"
proof -
  have "nodes demo1 \<noteq> []" by (simp add: demo_nodes)
  from root_gate_dominates [OF demo_reachable(1) this] show ?thesis by blast
qed

text \<open>
  C8: Every graph the engine can reach has unique ids, edges to nodes of the graph only, and
  no cycle.
\<close>

theorem reachable_well_formed:
  assumes "reachable m g"
  shows "mode g = m \<and> distinct (map nid (nodes g)) \<and> cycle_nodes g = []
    \<and> (\<forall>n \<in> set (nodes g). set (depends_on n) \<subseteq> ids g)"
proof -
  from reachable_struct [OF assms] have S: "struct_inv g" and m: "mode g = m" by blast+
  have "d \<in> ids g" if "n \<in> set (nodes g)" "d \<in> set (depends_on n)" for n d
    using shape_closedD [OF struct_shape [OF S] mem_nodes_get [OF struct_unique [OF S] that(1)] that(2)]
    by (metis get_ids option.distinct(1))
  then show ?thesis
    using struct_unique [OF S] struct_acyclic [OF S] m by (auto simp: unique_ids_def cycle_nodes_Nil_iff)
qed

theorem reachable_well_formed_witness:
  "distinct (map nid (nodes demo1)) \<and> cycle_nodes demo1 = []"
  using reachable_well_formed [OF demo_reachable(1)] by blast

text \<open>
  C9: A finished non-gate node of a deep plan carries a hand-off artifact with findings, a
  statement of what was not checked, and a confidence that parses.
\<close>

theorem deep_artifact_is_honest:
  assumes R: "reachable Deep g" and n: "get g i = Some n" "\<not> is_gate n" "status n = Done"
  shows "\<exists>a. node_output n = Some a \<and> trim (findings a) \<noteq> [] \<and> what_i_did_not_check a \<noteq> []
     \<and> output_level n \<noteq> None"
proof -
  have l: "lawful g n" using life_invD [OF reachable_life [OF R] n(1)] .
  then obtain a where a: "node_output n = Some a" using n(3) by (auto simp: lawful_def)
  then have "validate_artifact (mode g) (nid n) False a = Inr ()"
    using l n reachable_struct [OF R] by (auto simp: lawful_def)
  then show ?thesis
    using a reachable_struct [OF R]
    by (auto simp: validate_artifact_def output_level_def split: if_splits)
qed

theorem deep_artifact_is_honest_witness:
  "\<exists>a. node_output demo_x = Some a \<and> trim (findings a) \<noteq> [] \<and> what_i_did_not_check a \<noteq> []
     \<and> output_level demo_x \<noteq> None"
  by (rule deep_artifact_is_honest [OF demo_reachable(1) demo_get(2)]) (simp_all add: demo_fields)

text \<open>
  C10: \<open>cycle_nodes\<close> returns, sorted, exactly the nodes downstream of a dependency cycle, on
  any graph, whatever the order its stack visits the nodes in.
\<close>

theorem cycle_nodes_exact:
  "set (cycle_nodes g) = {i \<in> ids g. \<exists>c. (c, c) \<in> (dep_rel g)\<^sup>+ \<and> (c, i) \<in> (dep_rel g)\<^sup>*}
   \<and> sorted (cycle_nodes g)"
proof -
  have "sorted (cycle_nodes g)" by (simp add: cycle_nodes_def Let_def)
  moreover have "i \<notin> Wellfounded.acc (dep_rel g)
      \<longleftrightarrow> (\<exists>c. (c, c) \<in> (dep_rel g)\<^sup>+ \<and> (c, i) \<in> (dep_rel g)\<^sup>*)" for i
    using not_acc_cycle [OF finite_dep_rel] acc_no_cycle acc_rtrancl by metis
  ultimately show ?thesis unfolding set_cycle_nodes by blast
qed

text \<open>
  What a successful expansion does: the caller's running node becomes a queued composite
  with the caller as planner, waiting for the children and, in deep mode, for a fresh gate
  whose only dependencies are the children; every other node is left as it was.
\<close>

theorem expand_builds_composite:
  assumes R: "reachable m g" and ok: "expand_node g i actor cs = Inr (g', out)"
  shows "\<exists>n. get g i = Some n \<and> owner n = Some actor \<and> status n = Running \<and> cs \<noteq> []
    \<and> get g' i = Some (n\<lparr>expanded := True, status := Queued, owner := None,
         planner := (if planner n = None then owner n else planner n),
         depends_on := push_missing (depends_on n)
           (child_ids out @ (case outcome_gate_id out of None \<Rightarrow> [] | Some k \<Rightarrow> [k]))\<rparr>)
    \<and> child_ids out = map (\<lambda>s. unwrap_or (spec_id s) []) cs
    \<and> (\<forall>s \<in> set cs. get g (unwrap_or (spec_id s) []) = None
         \<and> get g' (unwrap_or (spec_id s) []) = Some (spec_to_node s (Some i) OExpand))
    \<and> (m = Light \<longrightarrow> outcome_gate_id out = None)
    \<and> (m = Deep \<longrightarrow> (\<exists>k h. outcome_gate_id out = Some k \<and> get g k = None \<and> get g' k = Some h
         \<and> is_gate h \<and> parent h = Some i \<and> depends_on h = child_ids out \<and> kind h = gate_kind (kind n)))
    \<and> (\<forall>j n'. get g j = Some n' \<longrightarrow> j \<noteq> i \<longrightarrow> get g' j = Some n')"
proof -
  from reachable_struct [OF R] have S: "struct_inv g" and md: "mode g = m" by blast+
  from ok obtain n where n: "get g i = Some n" "owner n = Some actor" "status n = Running" "cs \<noteq> []"
    and fresh: "distinct (spec_ids cs)" "set (spec_ids cs) \<inter> ids g = {}" "child_ids out = spec_ids cs"
    and g': "g' = modify (append_nodes g (expand_news g i (kind n) cs)) i
            (compose_parent (map nid (expand_news g i (kind n) cs)))"
    and gate: "outcome_gate_id out = (if requires_gates (mode g)
        then Some (unique_gate_id (append_nodes g (spec_nodes cs (Some i) OExpand)) i) else None)"
    by (rule expand_node_ok) blast
  let ?B = "expand_news g i (kind n) cs"
  have get: "get g' j = Some x \<longleftrightarrow> (j = i \<and> x = compose_parent (map nid ?B) n) \<or>
      (j \<noteq> i \<and> (get g j = Some x \<or> (x \<in> set ?B \<and> nid x = j)))" for j x
    unfolding g' by (rule get_expand [OF struct_unique [OF S] n(1)
          expand_news_fresh [OF fresh(1,2), of i "kind n"]]) simp
  have new: "get g (nid x) = None \<and> get g' (nid x) = Some x" if "x \<in> set ?B" for x
  proof -
    have "nid x \<notin> ids g" using that expand_news_fresh(2) [OF fresh(1,2), of i "kind n"] by blast
    then show ?thesis using get that n(1) by (metis get_None_iff option.distinct(1))
  qed
  have join: "map nid ?B = child_ids out @ (case outcome_gate_id out of None \<Rightarrow> [] | Some k \<Rightarrow> [k])"
    by (simp add: expand_news_ids fresh(3) gate)
  have kids: "get g (unwrap_or (spec_id s) []) = None
      \<and> get g' (unwrap_or (spec_id s) []) = Some (spec_to_node s (Some i) OExpand)" if "s \<in> set cs" for s
    using new [of "spec_to_node s (Some i) OExpand"] spec_nodes_mem [OF that, of "Some i" OExpand]
    by (simp add: expand_news_def)
  have deep: "\<exists>k h. outcome_gate_id out = Some k \<and> get g k = None \<and> get g' k = Some h
      \<and> is_gate h \<and> parent h = Some i \<and> depends_on h = child_ids out \<and> kind h = gate_kind (kind n)"
    if "m = Deep"
  proof -
    let ?u = "unique_gate_id (append_nodes g (spec_nodes cs (Some i) OExpand)) i"
    let ?h = "gate_node ?u (gate_content (gate_kind (kind n)) i) (gate_kind (kind n)) (Some i) (spec_ids cs)"
    have "?h \<in> set ?B" using that md by (simp add: expand_news_def)
    from new [OF this] show ?thesis using that md gate fresh(3) by (intro exI [of _ ?u] exI [of _ ?h]) simp
  qed
  have parent': "get g' i = Some (compose_parent (map nid ?B) n)" using get by blast
  have rest: "\<forall>j n'. get g j = Some n' \<longrightarrow> j \<noteq> i \<longrightarrow> get g' j = Some n'" using get by blast
  show ?thesis
    using n parent' kids deep rest gate md fresh(3) unfolding join compose_parent_def
    by (intro exI [of _ n]) (auto simp: spec_ids_def)
qed

definition demo_seeded :: task_graph where
  "demo_seeded = run_events Deep (take 2 demo_start)"

theorem expand_builds_composite_witness:
  "\<exists>g' out. expand_node demo_seeded ''a'' ''w'' [new_spec ''x'' ''X'' Explore] = Inr (g', out)
     \<and> child_ids out = [''x''] \<and> get g' ''x'' = Some (spec_to_node (new_spec ''x'' ''X'' Explore) (Some ''a'') OExpand)"
proof -
  have "is_ok (expand_node demo_seeded ''a'' ''w'' [new_spec ''x'' ''X'' Explore])" by code_simp
  then obtain g' out where ok: "expand_node demo_seeded ''a'' ''w'' [new_spec ''x'' ''X'' Explore] = Inr (g', out)"
    by (auto simp: is_ok_iff)
  have "reachable Deep demo_seeded" unfolding demo_seeded_def by (rule reachable_run)
  from expand_builds_composite [OF this ok] show ?thesis using ok by (auto simp: new_spec_def)
qed

text \<open>
  What a gate that found a gap does: it goes back to the queue, waiting for the nodes it
  injected under its own parent; the parent, still queued, waits for them too; nothing
  else changes.
\<close>

theorem injection_reopens_gate:
  assumes R: "reachable m g" and ok: "inject_from_gate g k actor ss = Inr (g', new_ids)"
  shows "\<exists>h. get g k = Some h \<and> is_gate h \<and> status h = Running
    \<and> (\<exists>h'. get g' k = Some h' \<and> status h' = Queued \<and> owner h' = None
         \<and> set (depends_on h') = set (depends_on h) \<union> set new_ids)
    \<and> (\<forall>s \<in> set ss. get g (unwrap_or (spec_id s) []) = None
         \<and> get g' (unwrap_or (spec_id s) []) = Some (spec_to_node s (parent h) OGap))
    \<and> (\<forall>p. parent h = Some p \<longrightarrow> (\<exists>q q'. get g p = Some q \<and> get g' p = Some q'
         \<and> status q' = Queued \<and> set (depends_on q') = set (depends_on q) \<union> set new_ids))
    \<and> (\<forall>j n. get g j = Some n \<longrightarrow> j \<noteq> k \<longrightarrow> parent h \<noteq> Some j \<longrightarrow> get g' j = Some n)"
proof -
  from reachable_struct [OF R] have S: "struct_inv g" and md: "mode g = m" by blast+
  note L = reachable_life [OF R]
  from ok obtain h where h: "get g k = Some h" "is_gate h" "status h = Running"
    and fresh: "distinct (spec_ids ss)" "set (spec_ids ss) \<inter> ids g = {}" and ids: "new_ids = spec_ids ss"
    and g': "g' = inject_result g k (parent h) ss"
    by (rule inject_from_gate_ok) blast
  have par: "get g p \<noteq> None" if "parent h = Some p" for p
    using shape_parentD [OF struct_shape [OF S] h(1) that] by auto
  let ?u = "inject_update k (parent h) (spec_ids ss)"
  have get: "get g' j = Some x \<longleftrightarrow> (\<exists>y. get g j = Some y \<and> x = ?u j y)
     \<or> (x \<in> set (spec_nodes ss (parent h) OGap) \<and> nid x = j)" for j x
    unfolding g' by (rule get_inject [OF struct_unique [OF S] _ par fresh]) (simp_all add: h)
  have gate: "get g' k = Some (?u k h)" using get h(1) by blast
  have gate': "status (?u k h) = Queued" "owner (?u k h) = None"
    "set (depends_on (?u k h)) = set (depends_on h) \<union> set (spec_ids ss)"
    by (simp_all add: inject_update_def Let_def)
  have kids: "get g (unwrap_or (spec_id s) []) = None
      \<and> get g' (unwrap_or (spec_id s) []) = Some (spec_to_node s (parent h) OGap)" if "s \<in> set ss" for s
  proof -
    have "unwrap_or (spec_id s) [] \<notin> ids g" using that fresh(2) by (auto simp: spec_ids_def)
    moreover have "get g' (unwrap_or (spec_id s) []) = Some (spec_to_node s (parent h) OGap)"
      using get spec_nodes_mem [OF that, of "parent h" OGap] by simp
    ultimately show ?thesis by (simp add: get_None_iff)
  qed
  have up: "\<exists>q q'. get g p = Some q \<and> get g' p = Some q'
         \<and> status q' = Queued \<and> set (depends_on q') = set (depends_on q) \<union> set (spec_ids ss)"
    if p: "parent h = Some p" for p
  proof -
    obtain q where q: "get g p = Some q" using par [OF p] by blast
    have "get g' p = Some (?u p q)" using get q by blast
    moreover have "status (?u p q) = Queued"
      using running_gate_parent_queued [OF S L h(1) _ p q] h(3) p by (simp add: inject_update_def Let_def)
    moreover have "set (depends_on (?u p q)) = set (depends_on q) \<union> set (spec_ids ss)" using p by simp
    ultimately show ?thesis using q by blast
  qed
  have rest: "get g' j = Some n" if "get g j = Some n" "j \<noteq> k" "parent h \<noteq> Some j" for j n
    using get [of j n] that by (auto simp: inject_update_def)
  show ?thesis using h gate gate' kids up rest unfolding ids by blast
qed

theorem injection_reopens_gate_witness:
  "\<exists>g' new_ids. inject_from_gate demo1 ''a::gate'' ''c'' [new_spec ''y'' ''Y'' Fix] = Inr (g', new_ids)
     \<and> (\<exists>q'. get g' ''a'' = Some q' \<and> status q' = Queued)"
proof -
  have "is_ok (inject_from_gate demo1 ''a::gate'' ''c'' [new_spec ''y'' ''Y'' Fix])" by code_simp
  then obtain g' new_ids where
    ok: "inject_from_gate demo1 ''a::gate'' ''c'' [new_spec ''y'' ''Y'' Fix] = Inr (g', new_ids)"
    by (auto simp: is_ok_iff)
  from injection_reopens_gate [OF demo_reachable(1) ok]
  have "\<exists>q'. get g' ''a'' = Some q' \<and> status q' = Queued"
    using demo_get(3) by (auto simp: demo_gate_def)
  then show ?thesis using ok by blast
qed

text \<open>
  C11: Exactly when a completion is accepted: the caller owns the running node and, in deep
  mode, a gate's scope is finished and addressed, and any other artifact is complete.
\<close>

theorem complete_node_succeeds_iff:
  "(\<exists>g'. complete_node g i actor a = Inr g') \<longleftrightarrow>
     (\<exists>n. get g i = Some n \<and> owner n = Some actor \<and> status n = Running
        \<and> (mode g = Deep \<longrightarrow>
            (if is_gate n
             then \<forall>c \<in> set (gate_audit_scope g n). status c = Done
               \<and> (output_level c \<noteq> Some High \<or> length (gate_audit_scope g n) \<le> 20
                   \<longrightarrow> addressed a (nid c))
             else trim (findings a) \<noteq> [] \<and> what_i_did_not_check a \<noteq> [] \<and> artifact_level a \<noteq> None)))"
proof -
  have art: "validate_artifact m i' b a = Inr () \<longleftrightarrow> (m = Deep \<longrightarrow> \<not> b \<longrightarrow>
      trim (findings a) \<noteq> [] \<and> what_i_did_not_check a \<noteq> [] \<and> artifact_level a \<noteq> None)" for m b i'
    by (cases m) (auto simp: validate_artifact_def)
  have gate: "validate_gate_pass g i a = Inr () \<longleftrightarrow>
      (\<forall>c \<in> set (gate_audit_scope g n). status c = Done
         \<and> (output_level c \<noteq> Some High \<or> length (gate_audit_scope g n) \<le> 20
             \<longrightarrow> addressed a (nid c)))" if "get g i = Some n" for n
    using that
    by (auto simp: validate_gate_pass_def Let_def filter_empty_iff is_done_def
        gate_coverage_enumeration_cap_def)
  show ?thesis
    unfolding complete_node_ok using art gate by (cases "mode g") auto
qed

theorem complete_node_succeeds_iff_witness:
  "\<exists>n. get demo1 ''a::gate'' = Some n \<and> owner n = Some ''c'' \<and> status n = Running"
proof -
  have "is_ok (complete_node demo1 ''a::gate'' ''c'' (brief ''x: low confidence is fine here''))"
    by code_simp
  then have "\<exists>g'. complete_node demo1 ''a::gate'' ''c'' (brief ''x: low confidence is fine here'') = Inr g'"
    by (simp add: is_ok_iff)
  then show ?thesis unfolding complete_node_succeeds_iff by blast
qed

text \<open>
  A node is dispatched to one worker only, and only from the ready set.
\<close>

theorem dispatch_is_exclusive:
  assumes ok: "dispatch g i w = (g', True)"
  shows "dispatch g' i w' = (g', False)
    \<and> (\<exists>n. get g' i = Some n \<and> owner n = Some w \<and> status n = Running)
    \<and> (\<exists>n \<in> set (ready_nodes g). nid n = i)"
proof -
  from ok obtain n where n: "get g i = Some n" "status n = Queued" "deps_satisfied g n"
    and g': "g' = modify g i (\<lambda>n. n\<lparr>owner := Some w, status := Running\<rparr>)" by (auto simp: dispatch_True)
  then have "get g' i = Some (n\<lparr>owner := Some w, status := Running\<rparr>)" by (simp add: get_modify)
  moreover have "n \<in> set (ready_nodes g)" "nid n = i" using n get_SomeD by (auto simp: ready_nodes_def)
  ultimately show ?thesis by (auto simp: dispatch_def dispatchable_def)
qed

theorem dispatch_is_exclusive_witness:
  "dispatch (fst (dispatch demo2 ''plan::gate'' ''c'')) ''plan::gate'' ''d''
     = (fst (dispatch demo2 ''plan::gate'' ''c''), False)"
proof -
  have "snd (dispatch demo2 ''plan::gate'' ''c'')" by code_simp
  then have "dispatch demo2 ''plan::gate'' ''c'' = (fst (dispatch demo2 ''plan::gate'' ''c''), True)"
    by (metis prod.collapse)
  from dispatch_is_exclusive [OF this, of "''d''"] show ?thesis by blast
qed

text \<open>
  The ready set: the queued nodes with every dependency done, ordered by priority and
  then id.
\<close>

theorem ready_nodes_spec:
  "set (ready_nodes g) = {n \<in> set (nodes g). status n = Queued
      \<and> (\<forall>d \<in> set (depends_on n). \<exists>c. get g d = Some c \<and> status c = Done)}
   \<and> sorted_wrt (\<lambda>a b. priority a < priority b \<or> priority a = priority b \<and> nid a \<le> nid b) (ready_nodes g)"
proof
  have "sorted_wrt (lex_le (\<lambda>n. unat (priority n)) nid) (ready_nodes g)"
    unfolding ready_nodes_def by (rule sort_key_twice)
  then show "sorted_wrt (\<lambda>a b. priority a < priority b \<or> priority a = priority b \<and> nid a \<le> nid b)
      (ready_nodes g)"
    by (rule sorted_wrt_mono_rel [rotated]) (auto simp: lex_le_def word_less_nat_alt word_unat_eq_iff)
qed (auto simp: ready_nodes_def deps_satisfied_iff)

theorem ready_nodes_spec_witness:
  "demo_root_gate \<in> set (ready_nodes demo2)"
  using ready_nodes_spec [of demo2] by (simp add: demo_nodes demo_fields demo_get demo_root_gate_def)

text \<open>
  A node has an owner exactly when it has left the queue.
\<close>

theorem owned_iff_taken:
  "reachable m g \<Longrightarrow> n \<in> set (nodes g) \<Longrightarrow> owner n = None \<longleftrightarrow> status n = Queued"
  using mem_nodes_get struct_unique reachable_struct lawfulD(1) life_invD reachable_life by metis

theorem owned_iff_taken_witness:
  "owner demo_x = None \<longleftrightarrow> status demo_x = Queued"
  by (rule owned_iff_taken [OF demo_reachable(1)]) (simp add: demo_nodes)

text \<open>
  The scan for an id in a gate artifact finds it exactly when it occurs somewhere with id
  boundaries on both sides (a trailing dot or colon is a boundary unless an id character
  follows), overlapping occurrences included. Ids are UTF-8 strings: they never start with
  a continuation byte.
\<close>

theorem mentions_node_id_iff:
  assumes "i = [] \<or> \<not> is_cont (hd i)"
  shows "mentions_node_id t i \<longleftrightarrow>
     i \<noteq> [] \<and> (\<exists>pre post. t = pre @ i @ post \<and> before_ok pre \<and> after_ok post)"
proof (cases "i = []")
  case True
  then show ?thesis by (simp add: mentions_node_id_def)
next
  case False
  then have "mentions_node_id t i \<longleftrightarrow> (\<exists>k. mention_at t i k)"
    using mentions_loop_iff [of i 0 t] assms by (simp add: mentions_node_id_def)
  also have "\<dots> \<longleftrightarrow> (\<exists>pre post. t = pre @ i @ post \<and> before_ok pre \<and> after_ok post)"
  proof
    assume "\<exists>k. mention_at t i k"
    then show "\<exists>pre post. t = pre @ i @ post \<and> before_ok pre \<and> after_ok post"
      using occurs_split unfolding mention_at_def by metis
  next
    assume "\<exists>pre post. t = pre @ i @ post \<and> before_ok pre \<and> after_ok post"
    then obtain pre post where "t = pre @ i @ post" "before_ok pre" "after_ok post" by blast
    then have "mention_at t i (length pre)" by (simp add: mention_at_def)
    then show "\<exists>k. mention_at t i k" ..
  qed
  finally show ?thesis using False by simp
qed

theorem mentions_node_id_iff_witness:
  "\<not> mentions_node_id ''n10 and n12.'' ''n1'' \<and>
   (mentions_node_id ''see n1. n10'' ''n1'' \<longleftrightarrow> ''n1'' \<noteq> [] \<and> (\<exists>pre post.
      ''see n1. n10'' = pre @ ''n1'' @ post \<and> before_ok pre \<and> after_ok post))"
proof
  show "\<not> mentions_node_id ''n10 and n12.'' ''n1''" by code_simp
  have "\<not> is_cont (hd ''n1'')" by code_simp
  then show "mentions_node_id ''see n1. n10'' ''n1'' \<longleftrightarrow> ''n1'' \<noteq> [] \<and> (\<exists>pre post.
      ''see n1. n10'' = pre @ ''n1'' @ post \<and> before_ok pre \<and> after_ok post)"
    by (intro mentions_node_id_iff) simp
qed

text \<open>
  A gate id is new to the graph, and is the first free one of \<open>i::gate\<close>, \<open>i::gate2\<close>,
  \<open>i::gate3\<close>, ...; the suffix stays within the number of nodes.
\<close>

theorem unique_gate_id_least:
  "\<not> has_node g (unique_gate_id g i)
   \<and> (unique_gate_id g i = i @ ''::gate''
      \<or> (\<exists>n. 2 \<le> n \<and> n \<le> 2 + length (nodes g) \<and> unique_gate_id g i = i @ ''::gate'' @ show_nat n
           \<and> has_node g (i @ ''::gate'')
           \<and> (\<forall>k. 2 \<le> k \<longrightarrow> k < n \<longrightarrow> has_node g (i @ ''::gate'' @ show_nat k))))"
proof -
  let ?b = "i @ ''::gate''"
  have fresh: "\<not> has_node g (unique_gate_id g i)" using unique_gate_id_fresh by (simp add: has_node_iff)
  show ?thesis
  proof (cases "has_node g ?b")
    case True
    then have e: "unique_gate_id g i = gate_id_loop g ?b 2" by (simp add: unique_gate_id_def)
    obtain n where n: "2 \<le> n" "gate_id_loop g ?b 2 = ?b @ show_nat n"
      "\<forall>k. 2 \<le> k \<and> k < n \<longrightarrow> has_node g (?b @ show_nat k)"
      using gate_id_loop_least by blast
    obtain n' where "gate_id_loop g ?b 2 = ?b @ show_nat n'" "n' \<le> 2 + length (nodes g)"
      using gate_id_loop_index by blast
    then have "n \<le> 2 + length (nodes g)" using n(2) show_nat_inj by (metis same_append_eq)
    then show ?thesis using fresh n True e by auto
  next
    case False
    then show ?thesis using fresh by (simp add: unique_gate_id_def)
  qed
qed

theorem unique_gate_id_least_witness:
  "\<not> has_node demo1 (unique_gate_id demo1 ''a'')"
  using unique_gate_id_least [of demo1 "''a''"] by blast

end
