(* ===== verification/Plan_Model.thy ===== *)
theory Plan_Model
  imports Rust_Str
begin

text \<open>
  The live plan (\<open>crates/next-code-plan/src/lib.rs\<close>, first half): plan items, durable task
  progress, node metadata, the versioned plan and its two projections, the status
  vocabulary and the task-control actions. Statuses and priorities are strings, as in the
  code.
\<close>

section \<open>Records\<close>

record plan_item =
  pi_content :: string
  pi_status :: string
  pi_priority :: string
  pi_id :: string
  pi_subsystem :: "string option"
  pi_file_scope :: "string list"
  pi_blocked_by :: "string list"
  pi_assigned_to :: "string option"

record swarm_task_progress =
  assigned_session_id :: "string option"
  assignment_summary :: "string option"
  assigned_at_unix_ms :: "u64 option"
  started_at_unix_ms :: "u64 option"
  last_heartbeat_unix_ms :: "u64 option"
  last_detail :: "string option"
  last_checkpoint_unix_ms :: "u64 option"
  checkpoint_summary :: "string option"
  completed_at_unix_ms :: "u64 option"
  stale_since_unix_ms :: "u64 option"
  heartbeat_count :: "u64 option"
  checkpoint_count :: "u64 option"
  no_artifact_requeues :: "u32 option"
  dead_assignee_reclaims :: "u32 option"

definition default_progress :: swarm_task_progress where
  "default_progress =
     \<lparr>assigned_session_id = None, assignment_summary = None, assigned_at_unix_ms = None,
      started_at_unix_ms = None, last_heartbeat_unix_ms = None, last_detail = None,
      last_checkpoint_unix_ms = None, checkpoint_summary = None, completed_at_unix_ms = None,
      stale_since_unix_ms = None, heartbeat_count = None, checkpoint_count = None,
      no_artifact_requeues = None, dead_assignee_reclaims = None\<rparr>"

record swarm_plan_item_spec =
  ps_id :: string
  ps_content :: string
  ps_priority :: string
  ps_subsystem :: "string option"
  ps_file_scope :: "string list"
  ps_blocked_by :: "string list"

record swarm_plan_definition =
  def_version :: u64
  def_participants :: "string list"
  def_items :: "swarm_plan_item_spec list"

record swarm_execution_item_state =
  exec_task_id :: string
  exec_status :: string
  exec_assigned_to :: "string option"
  exec_progress :: "swarm_task_progress option"

type_synonym swarm_execution_state = "swarm_execution_item_state list"

record node_meta =
  meta_kind :: "string option"
  meta_parent :: "string option"
  meta_expanded :: bool
  meta_is_gate :: bool
  meta_planner :: "string option"
  artifact_json :: "string option"
  meta_origin :: "string option"

definition default_meta :: node_meta where
  "default_meta =
     \<lparr>meta_kind = None, meta_parent = None, meta_expanded = False, meta_is_gate = False,
      meta_planner = None, artifact_json = None, meta_origin = None\<rparr>"

record versioned_plan =
  plan_items :: "plan_item list"
  plan_version :: u64
  participants :: "string fset"
  task_progress :: "string \<rightharpoonup> swarm_task_progress"
  plan_mode :: string
  node_meta_map :: "string \<rightharpoonup> node_meta"

definition new_plan :: versioned_plan where
  "new_plan =
     \<lparr>plan_items = [], plan_version = 0, participants = {||}, task_progress = Map.empty,
      plan_mode = ''light'', node_meta_map = Map.empty\<rparr>"

definition item_spec :: "plan_item \<Rightarrow> swarm_plan_item_spec" where
  "item_spec i =
     \<lparr>ps_id = pi_id i, ps_content = pi_content i, ps_priority = pi_priority i,
      ps_subsystem = pi_subsystem i, ps_file_scope = pi_file_scope i,
      ps_blocked_by = pi_blocked_by i\<rparr>"

definition plan_definition :: "versioned_plan \<Rightarrow> swarm_plan_definition" where
  "plan_definition p =
     \<lparr>def_version = plan_version p, def_participants = sorted_list_of_fset (participants p),
      def_items = map item_spec (plan_items p)\<rparr>"

definition item_state :: "versioned_plan \<Rightarrow> plan_item \<Rightarrow> swarm_execution_item_state" where
  "item_state p i =
     \<lparr>exec_task_id = pi_id i, exec_status = pi_status i, exec_assigned_to = pi_assigned_to i,
      exec_progress = task_progress p (pi_id i)\<rparr>"

definition execution_state :: "versioned_plan \<Rightarrow> swarm_execution_state" where
  "execution_state p = map (item_state p) (plan_items p)"

section \<open>Statuses\<close>

definition is_completed_status :: "string \<Rightarrow> bool" where
  "is_completed_status s \<longleftrightarrow> s \<in> {''completed'', ''done''}"

definition is_terminal_status :: "string \<Rightarrow> bool" where
  "is_terminal_status s \<longleftrightarrow> s \<in> {''completed'', ''done'', ''failed'', ''stopped'', ''crashed''}"

definition is_active_status :: "string \<Rightarrow> bool" where
  "is_active_status s \<longleftrightarrow> s \<in> {''running'', ''running_stale''}"

definition is_failed_status :: "string \<Rightarrow> bool" where
  "is_failed_status s \<longleftrightarrow> is_terminal_status s \<and> \<not> is_completed_status s"

definition is_runnable_status :: "string \<Rightarrow> bool" where
  "is_runnable_status s \<longleftrightarrow> s \<in> {''queued'', ''ready'', ''pending'', ''todo''}"

lemmas status_defs = is_completed_status_def is_terminal_status_def is_active_status_def
  is_failed_status_def is_runnable_status_def

lemma status_classes_disjoint:
  "is_runnable_status s \<Longrightarrow> \<not> is_terminal_status s \<and> \<not> is_active_status s \<and> s \<noteq> ''blocked''"
  "is_active_status s \<Longrightarrow> \<not> is_terminal_status s"
  "is_completed_status s \<Longrightarrow> is_terminal_status s"
  by (auto simp: status_defs)

definition priority_rank :: "string \<Rightarrow> u8" where
  "priority_rank s =
     (if s \<in> {''high'', ''urgent'', ''p0''} then 0
      else if s \<in> {''medium'', ''normal'', ''p1''} then 1
      else if s \<in> {''low'', ''p2''} then 2
      else 1)"

section \<open>Task control\<close>

datatype task_control_action = Start | Wake | Resume | Retry | Reassign | Replace | Salvage

definition tc_parse :: "string \<Rightarrow> task_control_action option" where
  "tc_parse s =
     (if s = ''start'' then Some Start
      else if s = ''wake'' then Some Wake
      else if s = ''resume'' then Some Resume
      else if s = ''retry'' then Some Retry
      else if s = ''reassign'' then Some Reassign
      else if s = ''replace'' then Some Replace
      else if s = ''salvage'' then Some Salvage
      else None)"

fun tc_str :: "task_control_action \<Rightarrow> string" where
  "tc_str Start = ''start''"
| "tc_str Wake = ''wake''"
| "tc_str Resume = ''resume''"
| "tc_str Retry = ''retry''"
| "tc_str Reassign = ''reassign''"
| "tc_str Replace = ''replace''"
| "tc_str Salvage = ''salvage''"

definition combine_assignment_text :: "string \<Rightarrow> string option \<Rightarrow> string" where
  "combine_assignment_text c message =
     (case message of
        Some extra \<Rightarrow> c @ nl @ nl @ ''Additional coordinator instructions:'' @ nl @ extra
      | None \<Rightarrow> c)"

fun restart_instruction_prefix :: "task_control_action \<Rightarrow> string option" where
  "restart_instruction_prefix Resume =
     Some ''Resume your assigned task from the current session context and continue the work.''"
| "restart_instruction_prefix Retry =
     Some ''Retry your assigned task. Fix any earlier issues and continue toward completion.''"
| "restart_instruction_prefix _ = None"

definition build_control_assignment_text ::
  "task_control_action \<Rightarrow> string \<Rightarrow> string option \<Rightarrow> string" where
  "build_control_assignment_text action c message =
     join (nl @ nl)
       ((case restart_instruction_prefix action of Some p \<Rightarrow> [p] | None \<Rightarrow> [])
        @ [c]
        @ (case message of
             Some extra \<Rightarrow> [''Additional coordinator instructions:'' @ nl @ extra]
           | None \<Rightarrow> []))"

fun task_control_action_allows_status :: "task_control_action \<Rightarrow> string \<Rightarrow> bool" where
  "task_control_action_allows_status Start s = (s = ''queued'')"
| "task_control_action_allows_status Wake s = (s = ''queued'')"
| "task_control_action_allows_status Resume s = (s \<in> {''queued'', ''running'', ''running_stale''})"
| "task_control_action_allows_status Retry s = (s \<in> {''failed'', ''running_stale''})"
| "task_control_action_allows_status Reassign s = (\<not> is_completed_status s)"
| "task_control_action_allows_status Replace s = (\<not> is_completed_status s)"
| "task_control_action_allows_status Salvage s = (\<not> is_completed_status s)"

definition tc_quote :: "string \<Rightarrow> string" where
  "tc_quote s = CHR 0x27 # s @ [CHR 0x27]"

fun task_control_status_error :: "task_control_action \<Rightarrow> string \<Rightarrow> string \<Rightarrow> string" where
  "task_control_status_error Start s t =
     ''Task '' @ tc_quote t @ '' is '' @ tc_quote s
     @ '' and cannot be started. Use start only for queued assignments.''"
| "task_control_status_error Wake s t =
     ''Task '' @ tc_quote t @ '' is '' @ tc_quote s
     @ '' and cannot be woken. Use wake only for queued assignments.''"
| "task_control_status_error Resume s t =
     ''Task '' @ tc_quote t @ '' is '' @ tc_quote s @ '' and cannot be resumed safely.''"
| "task_control_status_error Retry s t =
     ''Task '' @ tc_quote t @ '' is '' @ tc_quote s
     @ '' and cannot be retried. Retry is only for failed or stale work.''"
| "task_control_status_error Reassign s t =
     ''Task '' @ tc_quote t @ '' is already complete. Reassign unfinished work instead.''"
| "task_control_status_error Replace s t =
     ''Task '' @ tc_quote t @ '' is already complete. Replace is only for unfinished work.''"
| "task_control_status_error Salvage s t =
     ''Task '' @ tc_quote t @ '' is already complete. Salvage is only for unfinished or failed work.''"

text \<open>
  Candidates of an implicit task-control target: unfinished work first. \<open>sort_by_key\<close> is
  stable.
\<close>

definition target_rank :: "string \<Rightarrow> nat" where
  "target_rank s =
     (if s \<in> {''running'', ''running_stale''} then 0
      else if s \<in> {''queued'', ''ready'', ''pending'', ''todo''} then 1
      else if s \<in> {''failed'', ''stopped'', ''crashed''} then 2
      else if s \<in> {''completed'', ''done''} then 3
      else 4)"

definition task_control_candidates ::
  "plan_item list \<Rightarrow> string \<Rightarrow> task_control_action \<Rightarrow> plan_item list" where
  "task_control_candidates items target action =
     sort_key (\<lambda>i. target_rank (pi_status i))
       (filter (\<lambda>i. task_control_action_allows_status action (pi_status i))
         (filter (\<lambda>i. pi_assigned_to i = Some target) items))"

definition task_control_target_item_id ::
  "plan_item list \<Rightarrow> string \<Rightarrow> task_control_action \<Rightarrow> string + string" where
  "task_control_target_item_id items target action =
     (let candidates = task_control_candidates items target action;
          ambiguous = err (''Multiple tasks assigned to '' @ tc_quote target @ '' can be ''
            @ tc_str action @ '': '' @ join '', '' (map pi_id candidates)
            @ ''. Provide task_id explicitly.'')
      in case candidates of
           [] \<Rightarrow> err (''No task assigned to '' @ tc_quote target @ '' can be '' @ tc_str action
                  @ ''. Provide task_id explicitly, or assign a task first.'')
         | [i] \<Rightarrow> ok (pi_id i)
         | a # b # _ \<Rightarrow> (if pi_status a \<noteq> pi_status b then ok (pi_id a) else ambiguous))"

end
