(* ===== verification/Plan_Graph.thy ===== *)
theory Plan_Graph
  imports Plan_Model Kahn
begin

text \<open>
  The plan scheduler (\<open>crates/next-code-plan/src/lib.rs\<close>, second half): dependency
  classification, cycle detection, the plan summary, the runnable queue, stranded
  assignments, explicit-assignment checks and assignment affinities.
\<close>

section \<open>Dependencies\<close>

definition item_ids :: "plan_item list \<Rightarrow> string set" where
  "item_ids items = set (map pi_id items)"

definition completed_item_ids :: "plan_item list \<Rightarrow> string set" where
  "completed_item_ids items = set (map pi_id (filter (\<lambda>i. is_completed_status (pi_status i)) items))"

definition unresolved_dependencies :: "plan_item \<Rightarrow> string set \<Rightarrow> string set \<Rightarrow> string list" where
  "unresolved_dependencies i known completed =
     filter (\<lambda>d. d \<in> known \<and> d \<notin> completed) (pi_blocked_by i)"

definition missing_dependencies :: "plan_item \<Rightarrow> string set \<Rightarrow> string list" where
  "missing_dependencies i known = filter (\<lambda>d. d \<notin> known) (pi_blocked_by i)"

definition is_unblocked :: "plan_item \<Rightarrow> string set \<Rightarrow> string set \<Rightarrow> bool" where
  "is_unblocked i known completed \<longleftrightarrow>
     missing_dependencies i known = [] \<and> unresolved_dependencies i known completed = []"

section \<open>Cycles\<close>

text \<open>
  The \<open>dependents\<close> multimap is the list of its insertions \<open>(dependency, item)\<close>; looking a
  key up yields the items pushed under it, in order, which is what \<open>relax\<close> walks.
\<close>

definition dependents :: "plan_item list \<Rightarrow> (string \<times> string) list" where
  "dependents items =
     concat (map (\<lambda>i. map (\<lambda>d. (d, pi_id i))
       (filter (\<lambda>d. d \<in> item_ids items) (pi_blocked_by i))) items)"

fun item_indegree :: "string set \<Rightarrow> plan_item list \<Rightarrow> (string \<rightharpoonup> nat) \<Rightarrow> (string \<rightharpoonup> nat)" where
  "item_indegree known [] deg = deg"
| "item_indegree known (i # is) deg =
     item_indegree known is
       (deg(pi_id i \<mapsto> unwrap_or (deg (pi_id i)) 0
          + length (filter (\<lambda>d. d \<in> known) (pi_blocked_by i))))"

definition item_indegree_table :: "plan_item list \<Rightarrow> string \<rightharpoonup> nat" where
  "item_indegree_table items =
     item_indegree (item_ids items) items
       (\<lambda>c. if c \<in> item_ids items then Some 0 else None)"

text \<open>
  \<open>keys\<close> is the order in which the hash map of indegrees is iterated. The queue is a
  vector popped from its end.
\<close>

definition cycle_item_ids_in :: "string list \<Rightarrow> plan_item list \<Rightarrow> string list" where
  "cycle_item_ids_in keys items =
     (let indegree = item_indegree_table items;
          queue = filter (\<lambda>i. indegree i = Some 0) keys;
          (degree, visited) = kahn_run (dependents items) indegree (rev queue) {}
      in sort (filter (\<lambda>i. 0 < unwrap_or (degree i) 0 \<and> i \<notin> visited) keys))"

text \<open>
  The iteration order does not matter (\<open>cycle_item_ids_in_eq\<close>); the rest of the model
  iterates in the order of the items.
\<close>

definition cycle_item_ids :: "plan_item list \<Rightarrow> string list" where
  "cycle_item_ids items = cycle_item_ids_in (remdups (map pi_id items)) items"

section \<open>The summary\<close>

record plan_graph_summary =
  ready_ids :: "string list"
  blocked_ids :: "string list"
  active_ids :: "string list"
  completed_ids :: "string list"
  failed_ids :: "string list"
  terminal_ids :: "string list"
  unresolved_dependency_ids :: "string list"
  cycle_ids :: "string list"

text \<open>One pass over the items; \<open>BTreeSet\<close>s are kept as lists and sorted at the end.\<close>

definition has_dependency_blocker ::
  "string set \<Rightarrow> string set \<Rightarrow> string set \<Rightarrow> plan_item \<Rightarrow> bool" where
  "has_dependency_blocker known completed cycle_set i \<longleftrightarrow>
     unresolved_dependencies i known completed \<noteq> [] \<or> pi_id i \<in> cycle_set"

definition item_is_ready ::
  "string set \<Rightarrow> string set \<Rightarrow> string set \<Rightarrow> plan_item \<Rightarrow> bool" where
  "item_is_ready known completed cycle_set i \<longleftrightarrow>
     is_runnable_status (pi_status i) \<and> missing_dependencies i known = []
     \<and> \<not> has_dependency_blocker known completed cycle_set i"

definition item_is_blocked ::
  "string set \<Rightarrow> string set \<Rightarrow> string set \<Rightarrow> plan_item \<Rightarrow> bool" where
  "item_is_blocked known completed cycle_set i \<longleftrightarrow>
     \<not> item_is_ready known completed cycle_set i
     \<and> \<not> is_terminal_status (pi_status i) \<and> \<not> is_active_status (pi_status i)
     \<and> (missing_dependencies i known \<noteq> [] \<or> has_dependency_blocker known completed cycle_set i
        \<or> pi_status i = ''blocked'')"

definition btree :: "string list \<Rightarrow> string list" where
  "btree xs = sort (remdups xs)"

definition summarize_plan_graph :: "plan_item list \<Rightarrow> plan_graph_summary" where
  "summarize_plan_graph items =
     (let known = item_ids items;
          completed = completed_item_ids items;
          cycles = cycle_item_ids items;
          cycle_set = set cycles;
          select = (\<lambda>P. map pi_id (filter P items))
      in \<lparr>ready_ids = sort (select (item_is_ready known completed cycle_set)),
          blocked_ids = sort (select (item_is_blocked known completed cycle_set)),
          active_ids = sort (select (\<lambda>i. is_active_status (pi_status i))),
          completed_ids = btree (select (\<lambda>i. is_completed_status (pi_status i))),
          failed_ids = btree (select (\<lambda>i. is_failed_status (pi_status i))),
          terminal_ids = btree (select (\<lambda>i. is_terminal_status (pi_status i))),
          unresolved_dependency_ids = btree (concat (map (\<lambda>i. missing_dependencies i known) items)),
          cycle_ids = cycles\<rparr>)"

section \<open>The runnable queue\<close>

definition runnable_items :: "plan_item list \<Rightarrow> plan_item list" where
  "runnable_items items =
     (let ready = set (ready_ids (summarize_plan_graph items))
      in sort_key (\<lambda>i. unat (priority_rank (pi_priority i)))
           (sort_key pi_id (filter (\<lambda>i. pi_id i \<in> ready) items)))"

definition next_runnable_item_ids :: "plan_item list \<Rightarrow> nat option \<Rightarrow> string list" where
  "next_runnable_item_ids items limit =
     (let ids = map pi_id (runnable_items items)
      in case limit of Some n \<Rightarrow> take n ids | None \<Rightarrow> ids)"

definition find_item :: "plan_item list \<Rightarrow> string \<Rightarrow> plan_item option" where
  "find_item items i = find (\<lambda>it. pi_id it = i) items"

fun bump :: "(string \<rightharpoonup> nat) \<Rightarrow> string \<Rightarrow> nat \<Rightarrow> (string \<rightharpoonup> nat)" where
  "bump m k n = m(k \<mapsto> unwrap_or (m k) 0 + n)"

definition assignment_loads :: "versioned_plan \<Rightarrow> string \<rightharpoonup> nat" where
  "assignment_loads p =
     fold (\<lambda>i loads. if is_terminal_status (pi_status i) then loads
                     else case pi_assigned_to i of None \<Rightarrow> loads | Some a \<Rightarrow> bump loads a 1)
       (plan_items p) Map.empty"

definition next_unassigned_runnable_item_id :: "versioned_plan \<Rightarrow> string option" where
  "next_unassigned_runnable_item_id p =
     find (\<lambda>c. case find_item (plan_items p) c of
                 None \<Rightarrow> False | Some i \<Rightarrow> pi_assigned_to i = None)
       (next_runnable_item_ids (plan_items p) None)"

section \<open>Stranded assignments\<close>

definition max_dead_assignee_reclaims :: u32 where
  "max_dead_assignee_reclaims = 3"

definition reclaims :: "versioned_plan \<Rightarrow> string \<Rightarrow> u32" where
  "reclaims p i = unwrap_or (Option.bind (task_progress p i) dead_assignee_reclaims) 0"

definition stranded :: "versioned_plan \<Rightarrow> (string \<Rightarrow> bool) \<Rightarrow> string \<Rightarrow> bool" where
  "stranded p dead c =
     (case find_item (plan_items p) c of
        None \<Rightarrow> False
      | Some i \<Rightarrow>
          (case pi_assigned_to i of
             None \<Rightarrow> False
           | Some a \<Rightarrow> (if \<not> dead a then False else reclaims p c < max_dead_assignee_reclaims)))"

definition next_stranded_runnable_item_id ::
  "versioned_plan \<Rightarrow> (string \<Rightarrow> bool) \<Rightarrow> string option" where
  "next_stranded_runnable_item_id p dead =
     find (stranded p dead) (next_runnable_item_ids (plan_items p) None)"

fun update_first_item ::
  "string \<Rightarrow> (plan_item \<Rightarrow> plan_item) \<Rightarrow> plan_item list \<Rightarrow> plan_item list" where
  "update_first_item i f [] = []"
| "update_first_item i f (x # xs) =
     (if pi_id x = i then f x # xs else x # update_first_item i f xs)"

definition reclaim_progress :: "string \<Rightarrow> swarm_task_progress \<Rightarrow> swarm_task_progress" where
  "reclaim_progress a pr =
     pr\<lparr>assigned_session_id := None,
        dead_assignee_reclaims := Some (unwrap_or (dead_assignee_reclaims pr) 0 + 1),
        checkpoint_summary :=
          Some (''assignment reclaimed: previous assignee '' @ a @ '' is dead'')\<rparr>"

definition reclaim_stranded_assignment :: "versioned_plan \<Rightarrow> string \<Rightarrow> versioned_plan \<times> bool" where
  "reclaim_stranded_assignment p t =
     (case find_item (plan_items p) t of
        None \<Rightarrow> (p, False)
      | Some i \<Rightarrow>
          (case pi_assigned_to i of
             None \<Rightarrow> (p, False)
           | Some a \<Rightarrow>
               (p\<lparr>plan_items := update_first_item t (\<lambda>x. x\<lparr>pi_assigned_to := None\<rparr>) (plan_items p),
                  task_progress := (task_progress p)
                    (t \<mapsto> reclaim_progress a (unwrap_or (task_progress p t) default_progress)),
                  plan_version := plan_version p + 1\<rparr>, True)))"

section \<open>Explicit assignment\<close>

definition explicit_task_blocked_reason :: "versioned_plan \<Rightarrow> string \<Rightarrow> string option" where
  "explicit_task_blocked_reason p t =
     (let known = item_ids (plan_items p);
          completed = completed_item_ids (plan_items p)
      in case find_item (plan_items p) t of
           None \<Rightarrow> None
         | Some i \<Rightarrow>
             (let missing = missing_dependencies i known;
                  unresolved = unresolved_dependencies i known completed
              in if missing \<noteq> [] then
                   Some (''Task '' @ tc_quote (pi_id i) @ '' has missing dependencies: ''
                         @ join '', '' missing)
                 else if unresolved \<noteq> [] then
                   Some (''Task '' @ tc_quote (pi_id i) @ '' is still blocked by: ''
                         @ join '', '' unresolved)
                 else if pi_id i \<in> set (cycle_item_ids (plan_items p)) then
                   Some (''Task '' @ tc_quote (pi_id i)
                         @ '' is part of a dependency cycle and is not runnable'')
                 else None))"

record assignment_affinities =
  aff_loads :: "string \<rightharpoonup> nat"
  dependency_carryover :: "string \<rightharpoonup> nat"
  metadata_carryover :: "string \<rightharpoonup> nat"

definition bump_opt :: "string option \<Rightarrow> nat \<Rightarrow> (string \<rightharpoonup> nat) \<Rightarrow> (string \<rightharpoonup> nat)" where
  "bump_opt o' n m = (case o' of None \<Rightarrow> m | Some k \<Rightarrow> bump m k n)"

definition carry_dependency ::
  "versioned_plan \<Rightarrow> string \<Rightarrow> (string \<rightharpoonup> nat) \<Rightarrow> (string \<rightharpoonup> nat)" where
  "carry_dependency p d m =
     bump_opt (Option.bind (task_progress p d) assigned_session_id) 1
       (bump_opt (Option.bind (find_item (plan_items p) d) pi_assigned_to) 1 m)"

definition same_subsystem :: "plan_item \<Rightarrow> plan_item \<Rightarrow> bool" where
  "same_subsystem a b \<longleftrightarrow> pi_subsystem a \<noteq> None \<and> pi_subsystem a = pi_subsystem b"

definition scope_overlap :: "plan_item \<Rightarrow> plan_item \<Rightarrow> nat" where
  "scope_overlap a b = length (filter (\<lambda>f. f \<in> set (pi_file_scope b)) (pi_file_scope a))"

definition carry_metadata ::
  "plan_item \<Rightarrow> plan_item \<Rightarrow> (string \<rightharpoonup> nat) \<Rightarrow> (string \<rightharpoonup> nat)" where
  "carry_metadata task i m =
     (case pi_assigned_to i of
        None \<Rightarrow> m
      | Some owner \<Rightarrow>
          (if pi_id i = pi_id task then m
           else
             let m1 = (if same_subsystem task i then bump m owner 2 else m)
             in if pi_file_scope task \<noteq> [] \<and> pi_file_scope i \<noteq> [] \<and> 0 < scope_overlap task i
                then bump m1 owner (scope_overlap task i) else m1))"

definition assignment_affinities_for_task ::
  "versioned_plan \<Rightarrow> string \<Rightarrow> string + assignment_affinities" where
  "assignment_affinities_for_task p t =
     (case find_item (plan_items p) t of
        None \<Rightarrow> err (''Task '' @ tc_quote t @ '' not found in swarm plan'')
      | Some task \<Rightarrow>
          ok \<lparr>aff_loads = assignment_loads p,
              dependency_carryover = fold (carry_dependency p) (pi_blocked_by task) Map.empty,
              metadata_carryover = fold (carry_metadata task) (plan_items p) Map.empty\<rparr>)"

definition newly_ready_item_ids :: "plan_item list \<Rightarrow> plan_item list \<Rightarrow> string list" where
  "newly_ready_item_ids before after =
     filter (\<lambda>i. i \<notin> set (ready_ids (summarize_plan_graph before)))
       (ready_ids (summarize_plan_graph after))"

end
