(* ===== verification/Plan_Facts.thy ===== *)
theory Plan_Facts
  imports Plan_Graph
begin

text \<open>
  Laws of the plan scheduler: the cycle detector against the dependency relation, the sets
  behind the summary, the reclaim counter.
\<close>

section \<open>Cycle detection\<close>

lemma set_dependents:
  "set (dependents items) =
     {(d, pi_id i) | d i. i \<in> set items \<and> d \<in> set (pi_blocked_by i) \<and> d \<in> item_ids items}"
  by (auto simp: dependents_def)

interpretation plan: kahn_graph "item_ids items" "dependents items" for items
  by unfold_locales (auto simp: set_dependents item_ids_def)

lemma item_indegree_eq:
  assumes "\<forall>i \<in> set is. deg (pi_id i) \<noteq> None"
  shows "item_indegree known is deg c = map_option (\<lambda>k. k + indegree_in
      (concat (map (\<lambda>i. map (\<lambda>d. (d, pi_id i)) (filter (\<lambda>d. d \<in> known) (pi_blocked_by i))) is)) {} c)
      (deg c)"
  using assms
proof (induction "is" arbitrary: deg)
  case Nil
  then show ?case by (simp add: indegree_in_def option.map_ident)
next
  case (Cons i "is")
  let ?k = "length (filter (\<lambda>d. d \<in> known) (pi_blocked_by i))"
  let ?deg = "deg(pi_id i \<mapsto> unwrap_or (deg (pi_id i)) 0 + ?k)"
  have head: "indegree_in (map (\<lambda>d. (d, pi_id i)) (filter (\<lambda>d. d \<in> known) (pi_blocked_by i))) {} b
      = (if b = pi_id i then ?k else 0)" for b
    by (auto simp: indegree_in_def filter_map o_def)
  have app: "indegree_in (xs @ ys) {} b = indegree_in xs {} b + indegree_in ys {} b"
    for xs ys :: "(string \<times> string) list" and b
    by (simp add: indegree_in_def)
  have "\<forall>j \<in> set is. ?deg (pi_id j) \<noteq> None" using Cons.prems by auto
  then have "item_indegree known is ?deg c = map_option (\<lambda>k. k + indegree_in
      (concat (map (\<lambda>i. map (\<lambda>d. (d, pi_id i)) (filter (\<lambda>d. d \<in> known) (pi_blocked_by i))) is)) {} c)
      (?deg c)" by (rule Cons.IH)
  moreover have "map_option (\<lambda>k. k + indegree_in
      (concat (map (\<lambda>i. map (\<lambda>d. (d, pi_id i)) (filter (\<lambda>d. d \<in> known) (pi_blocked_by i))) is)) {} c)
      (?deg c) = map_option (\<lambda>k. k + indegree_in (concat (map (\<lambda>i. map (\<lambda>d. (d, pi_id i))
         (filter (\<lambda>d. d \<in> known) (pi_blocked_by i))) (i # is))) {} c) (deg c)"
    using Cons.prems by (cases "deg c"; cases "c = pi_id i") (simp_all add: head app)
  ultimately show ?case by (simp del: fun_upd_apply)
qed

lemma item_indegree_table_eq:
  "c \<in> item_ids items \<Longrightarrow>
     item_indegree_table items c = Some (indegree_in (dependents items) {} c)"
proof -
  assume c: "c \<in> item_ids items"
  let ?deg = "\<lambda>c. if c \<in> item_ids items then Some (0 :: nat) else None"
  have "\<forall>i \<in> set items. ?deg (pi_id i) \<noteq> None" by (simp add: item_ids_def)
  from item_indegree_eq [OF this, of "item_ids items" c] c show ?thesis
    by (simp add: item_indegree_table_def dependents_def)
qed

lemma set_cycle_item_ids_in:
  assumes "set keys = item_ids items"
  shows "set (cycle_item_ids_in keys items) = item_ids items - Wellfounded.acc (set (dependents items))"
proof -
  let ?q = "rev (filter (\<lambda>i. item_indegree_table items i = Some 0) keys)"
  let ?r = "kahn_run (dependents items) (item_indegree_table items) ?q {}"
  have left: "\<exists>k. fst ?r c = Some k \<and>
      (0 < k \<and> c \<notin> snd ?r \<longleftrightarrow> c \<notin> Wellfounded.acc (set (dependents items)))" if "c \<in> item_ids items" for c
    using that assms by (intro plan.kahn_run_left) (auto simp: item_indegree_table_eq)
  have "0 < unwrap_or (fst ?r c) 0 \<and> c \<notin> snd ?r \<longleftrightarrow> c \<notin> Wellfounded.acc (set (dependents items))"
    if "c \<in> item_ids items" for c
    using left [OF that] by auto
  moreover have "set (cycle_item_ids_in keys items)
      = {c \<in> item_ids items. 0 < unwrap_or (fst ?r c) 0 \<and> c \<notin> snd ?r}"
    using assms by (simp add: cycle_item_ids_in_def case_prod_beta Let_def)
  ultimately show ?thesis by blast
qed

lemma sorted_cycle_item_ids_in: "sorted (cycle_item_ids_in keys items)"
  by (simp add: cycle_item_ids_in_def Let_def split: prod.split)

lemma distinct_cycle_item_ids_in: "distinct keys \<Longrightarrow> distinct (cycle_item_ids_in keys items)"
  by (simp add: cycle_item_ids_in_def Let_def split: prod.split)

lemma cycle_item_ids_in_eq:
  assumes "distinct keys" "set keys = item_ids items"
  shows "cycle_item_ids_in keys items = cycle_item_ids items"
proof -
  have "set (remdups (map pi_id items)) = item_ids items" by (simp add: item_ids_def)
  then have "set (cycle_item_ids_in keys items) = set (cycle_item_ids items)"
    using assms(2) by (simp add: set_cycle_item_ids_in cycle_item_ids_def)
  then show ?thesis
    using sorted_cycle_item_ids_in distinct_cycle_item_ids_in assms(1)
    unfolding cycle_item_ids_def by (intro sorted_distinct_set_unique) auto
qed

lemma set_cycle_item_ids:
  "set (cycle_item_ids items) = {i \<in> item_ids items.
     \<exists>c. (c, c) \<in> (set (dependents items))\<^sup>+ \<and> (c, i) \<in> (set (dependents items))\<^sup>*}"
proof -
  have "set (remdups (map pi_id items)) = item_ids items" by (simp add: item_ids_def)
  then have "set (cycle_item_ids items) = item_ids items - Wellfounded.acc (set (dependents items))"
    unfolding cycle_item_ids_def by (rule set_cycle_item_ids_in)
  moreover have "i \<notin> Wellfounded.acc (set (dependents items)) \<longleftrightarrow>
      (\<exists>c. (c, c) \<in> (set (dependents items))\<^sup>+ \<and> (c, i) \<in> (set (dependents items))\<^sup>*)" for i
    using not_acc_cycle [OF finite_set] acc_no_cycle acc_rtrancl by metis
  ultimately show ?thesis by blast
qed

section \<open>The summary as sets\<close>

lemma missing_Nil_iff: "missing_dependencies i known = [] \<longleftrightarrow> set (pi_blocked_by i) \<subseteq> known"
  by (auto simp: missing_dependencies_def filter_empty_iff)

lemma unresolved_Nil_iff:
  "unresolved_dependencies i known completed = [] \<longleftrightarrow> set (pi_blocked_by i) \<inter> known \<subseteq> completed"
  by (auto simp: unresolved_dependencies_def filter_empty_iff)

lemma completed_known: "completed_item_ids items \<subseteq> item_ids items"
  by (auto simp: completed_item_ids_def item_ids_def)

lemma item_ready_iff:
  "item_is_ready (item_ids items) (completed_item_ids items) (set (cycle_item_ids items)) i \<longleftrightarrow>
     is_runnable_status (pi_status i) \<and> set (pi_blocked_by i) \<subseteq> completed_item_ids items
     \<and> pi_id i \<notin> set (cycle_item_ids items)"
  using completed_known
  by (auto simp: item_is_ready_def has_dependency_blocker_def missing_Nil_iff unresolved_Nil_iff)

definition ready_item :: "plan_item list \<Rightarrow> plan_item \<Rightarrow> bool" where
  "ready_item items i \<longleftrightarrow> i \<in> set items \<and> is_runnable_status (pi_status i)
     \<and> set (pi_blocked_by i) \<subseteq> completed_item_ids items \<and> pi_id i \<notin> set (cycle_item_ids items)"

lemma set_ready_ids:
  "set (ready_ids (summarize_plan_graph items)) = {pi_id i | i. ready_item items i}"
  by (auto simp: summarize_plan_graph_def Let_def item_ready_iff ready_item_def)

lemma set_btree [simp]: "set (btree xs) = set xs"
  by (simp add: btree_def)

lemma find_item_SomeD: "find_item items i = Some it \<Longrightarrow> it \<in> set items \<and> pi_id it = i"
  unfolding find_item_def by (drule find_SomeD) simp

lemma find_item_None: "find_item items i = None \<longleftrightarrow> i \<notin> item_ids items"
  by (auto simp: find_item_def find_None_iff_all item_ids_def)

lemma find_item_unique:
  "distinct (map pi_id items) \<Longrightarrow> it \<in> set items \<Longrightarrow> find_item items (pi_id it) = Some it"
  unfolding find_item_def by (rule find_key_unique)

lemma set_next_runnable:
  "set (next_runnable_item_ids items None) = set (ready_ids (summarize_plan_graph items))"
  by (auto simp: next_runnable_item_ids_def runnable_items_def Let_def set_ready_ids ready_item_def)

section \<open>Reclaims\<close>

lemma find_update_first_item:
  assumes "\<And>x. pi_id (f x) = pi_id x"
  shows "find_item (update_first_item i f items) j =
    (if j = i then map_option f (find_item items j) else find_item items j)"
  using assms unfolding find_item_def by (induction items) auto

lemma reclaim_True:
  "reclaim_stranded_assignment p t = (p', True) \<longleftrightarrow>
     (\<exists>i a. find_item (plan_items p) t = Some i \<and> pi_assigned_to i = Some a
        \<and> p' = p\<lparr>plan_items := update_first_item t (\<lambda>x. x\<lparr>pi_assigned_to := None\<rparr>) (plan_items p),
                  task_progress := (task_progress p)
                    (t \<mapsto> reclaim_progress a (unwrap_or (task_progress p t) default_progress)),
                  plan_version := plan_version p + 1\<rparr>)"
  by (auto simp: reclaim_stranded_assignment_def split: option.splits)

lemma reclaims_after:
  assumes "reclaim_stranded_assignment p t = (p', True)"
  shows "reclaims p' i = (if i = t then reclaims p i + 1 else reclaims p i)"
  using assms
  by (cases "task_progress p t")
    (auto simp: reclaim_True reclaims_def reclaim_progress_def default_progress_def)

lemma stranded_next:
  assumes "next_stranded_runnable_item_id p dead = Some t"
  shows "stranded p dead t" "t \<in> set (next_runnable_item_ids (plan_items p) None)"
  using assms unfolding next_stranded_runnable_item_id_def by (auto dest: find_SomeD)

section \<open>What the summary depends on\<close>

lemma key_disjoint:
  assumes "distinct (map k xs)" "\<And>x. P x \<Longrightarrow> \<not> Q x"
  shows "k ` {x \<in> set xs. P x} \<inter> k ` {x \<in> set xs. Q x} = {}"
  using distinct_key_eq [OF assms(1)] assms(2) by blast

lemma summary_sets:
  "set (blocked_ids (summarize_plan_graph items)) = pi_id ` {i \<in> set items.
     item_is_blocked (item_ids items) (completed_item_ids items) (set (cycle_item_ids items)) i}"
  "set (ready_ids (summarize_plan_graph items)) = pi_id ` {i \<in> set items.
     item_is_ready (item_ids items) (completed_item_ids items) (set (cycle_item_ids items)) i}"
  "set (active_ids (summarize_plan_graph items)) = pi_id ` {i \<in> set items. is_active_status (pi_status i)}"
  "set (completed_ids (summarize_plan_graph items)) = pi_id ` {i \<in> set items. is_completed_status (pi_status i)}"
  "set (failed_ids (summarize_plan_graph items)) = pi_id ` {i \<in> set items. is_failed_status (pi_status i)}"
  "set (terminal_ids (summarize_plan_graph items)) = pi_id ` {i \<in> set items. is_terminal_status (pi_status i)}"
  by (simp_all add: summarize_plan_graph_def Let_def)

lemma summary_classes:
  "item_is_ready k c y i \<Longrightarrow> \<not> item_is_blocked k c y i"
  "item_is_ready k c y i \<Longrightarrow> \<not> is_active_status (pi_status i)"
  "item_is_ready k c y i \<Longrightarrow> \<not> is_terminal_status (pi_status i)"
  "item_is_blocked k c y i \<Longrightarrow> \<not> is_active_status (pi_status i)"
  "item_is_blocked k c y i \<Longrightarrow> \<not> is_terminal_status (pi_status i)"
  by (auto simp: item_is_ready_def item_is_blocked_def dest: status_classes_disjoint)

lemma summary_covers:
  assumes "is_runnable_status (pi_status i) \<or> is_active_status (pi_status i)
    \<or> is_terminal_status (pi_status i) \<or> pi_status i = ''blocked''"
  shows "item_is_ready k c y i \<or> item_is_blocked k c y i \<or> is_active_status (pi_status i)
    \<or> is_terminal_status (pi_status i)"
  using assms by (auto simp: item_is_ready_def item_is_blocked_def dest: status_classes_disjoint)

text \<open>Only ids, statuses and dependencies matter to readiness, not assignments.\<close>

definition sched_key :: "plan_item \<Rightarrow> string \<times> string \<times> string list" where
  "sched_key i = (pi_id i, pi_status i, pi_blocked_by i)"

lemma sched_key_mem:
  "(i, s, b) \<in> sched_key ` set xs
     \<longleftrightarrow> (\<exists>x \<in> set xs. pi_id x = i \<and> pi_status x = s \<and> pi_blocked_by x = b)"
  by (auto simp: sched_key_def)

lemma sched_key_sets:
  "item_ids xs = {i. \<exists>s b. (i, s, b) \<in> sched_key ` set xs}"
  "completed_item_ids xs = {i. \<exists>s b. (i, s, b) \<in> sched_key ` set xs \<and> is_completed_status s}"
  "set (dependents xs) =
     {(d, i). \<exists>s b. (i, s, b) \<in> sched_key ` set xs \<and> d \<in> set b \<and> d \<in> item_ids xs}"
  "{pi_id i | i. ready_item xs i} = {i. \<exists>s b. (i, s, b) \<in> sched_key ` set xs
     \<and> is_runnable_status s \<and> set b \<subseteq> completed_item_ids xs \<and> i \<notin> set (cycle_item_ids xs)}"
  unfolding sched_key_mem set_dependents ready_item_def
  by (auto simp: item_ids_def completed_item_ids_def)

lemma ready_ids_cong:
  assumes e: "sched_key ` set items = sched_key ` set items'"
  shows "set (ready_ids (summarize_plan_graph items)) = set (ready_ids (summarize_plan_graph items'))"
proof -
  have i2: "item_ids items = item_ids items'" and c2: "completed_item_ids items = completed_item_ids items'"
    unfolding sched_key_sets(1,2) e by (rule refl)+
  have d2: "set (dependents items) = set (dependents items')"
    unfolding sched_key_sets(3) e i2 by (rule refl)
  have "set (cycle_item_ids items) = set (cycle_item_ids items')"
    unfolding set_cycle_item_ids i2 d2 by (rule refl)
  then show ?thesis unfolding set_ready_ids sched_key_sets(4) e c2 by simp
qed

lemma sched_key_unassign:
  "sched_key ` set (update_first_item t (\<lambda>x. x\<lparr>pi_assigned_to := None\<rparr>) items) = sched_key ` set items"
  by (induction items) (auto simp: sched_key_def)

text \<open>Counting with \<open>entry().or_default() += n\<close>.\<close>

lemma bump_opt_at:
  "bump_opt k n m a = (if k = Some a then Some (unwrap_or (m a) 0 + n) else m a)"
  by (simp add: bump_opt_def split: option.splits)

lemma bump_opt_count: "(fold (\<lambda>i. bump_opt (f i) 1) xs m) a
   = (let k = length (filter (\<lambda>i. f i = Some a) xs) in
       if k = 0 then m a else Some (unwrap_or (m a) 0 + k))"
proof (induction xs arbitrary: m)
  case (Cons x xs)
  show ?case by (simp only: fold_simps Cons.IH) (simp add: Let_def bump_opt_at)
qed simp

end
