(* ===== verification/Plan_Properties.thy ===== *)
theory Plan_Properties
  imports Plan_Facts
begin

text \<open>
  What the live plan's scheduler promises (\<open>crates/next-code-plan/src/lib.rs\<close>).
\<close>

section \<open>A plan to instantiate the properties at\<close>

definition demo_item :: "string \<Rightarrow> string \<Rightarrow> string list \<Rightarrow> string option \<Rightarrow> plan_item" where
  "demo_item i s b a =
     \<lparr>pi_content = i, pi_status = s, pi_priority = ''high'', pi_id = i, pi_subsystem = None,
      pi_file_scope = [], pi_blocked_by = b, pi_assigned_to = a\<rparr>"

definition demo_items :: "plan_item list" where
  "demo_items =
     [demo_item ''a'' ''completed'' [] (Some ''s1''), demo_item ''b'' ''queued'' [''a''] (Some ''s2''),
      demo_item ''c'' ''queued'' [''d''] None, demo_item ''d'' ''queued'' [''c''] None,
      demo_item ''e'' ''running'' [] (Some ''s1'')]"

definition demo_plan :: versioned_plan where
  "demo_plan = new_plan\<lparr>plan_items := demo_items\<rparr>"

lemma demo_plan_items: "plan_items demo_plan = demo_items"
  by (simp add: demo_plan_def)

lemma demo_items_distinct: "distinct (map pi_id demo_items)"
  by (simp add: demo_items_def demo_item_def)

lemma demo_find_b: "find_item demo_items ''b'' = Some (demo_item ''b'' ''queued'' [''a''] (Some ''s2''))"
  by (simp add: find_item_def demo_items_def demo_item_def)

section \<open>Properties\<close>

text \<open>
  In a plan with unique ids the summary's ready, blocked, active and terminal items are
  disjoint, together they hold every item with a known status, the terminal ones are the
  completed and the failed ones, and ready means: runnable, every dependency is a completed
  item of the plan, and not on or behind a cycle.
\<close>

theorem plan_summary_partitions:
  assumes d: "distinct (map pi_id items)"
  shows "set (ready_ids (summarize_plan_graph items)) = {pi_id i | i. i \<in> set items
      \<and> is_runnable_status (pi_status i)
      \<and> (\<forall>b \<in> set (pi_blocked_by i). \<exists>j \<in> set items. pi_id j = b \<and> is_completed_status (pi_status j))
      \<and> pi_id i \<notin> set (cycle_item_ids items)}
    \<and> set (ready_ids (summarize_plan_graph items)) \<inter> set (blocked_ids (summarize_plan_graph items)) = {}
    \<and> set (ready_ids (summarize_plan_graph items)) \<inter> set (active_ids (summarize_plan_graph items)) = {}
    \<and> set (ready_ids (summarize_plan_graph items)) \<inter> set (terminal_ids (summarize_plan_graph items)) = {}
    \<and> set (blocked_ids (summarize_plan_graph items)) \<inter> set (active_ids (summarize_plan_graph items)) = {}
    \<and> set (blocked_ids (summarize_plan_graph items)) \<inter> set (terminal_ids (summarize_plan_graph items)) = {}
    \<and> set (active_ids (summarize_plan_graph items)) \<inter> set (terminal_ids (summarize_plan_graph items)) = {}
    \<and> set (terminal_ids (summarize_plan_graph items))
        = set (completed_ids (summarize_plan_graph items)) \<union> set (failed_ids (summarize_plan_graph items))
    \<and> {pi_id i | i. i \<in> set items \<and> (is_runnable_status (pi_status i) \<or> is_active_status (pi_status i)
          \<or> is_terminal_status (pi_status i) \<or> pi_status i = ''blocked'')}
        \<subseteq> set (ready_ids (summarize_plan_graph items)) \<union> set (blocked_ids (summarize_plan_graph items))
          \<union> set (active_ids (summarize_plan_graph items)) \<union> set (terminal_ids (summarize_plan_graph items))"
proof -
  have ready: "set (ready_ids (summarize_plan_graph items)) = {pi_id i | i. i \<in> set items
      \<and> is_runnable_status (pi_status i)
      \<and> (\<forall>b \<in> set (pi_blocked_by i). \<exists>j \<in> set items. pi_id j = b \<and> is_completed_status (pi_status j))
      \<and> pi_id i \<notin> set (cycle_item_ids items)}"
    unfolding set_ready_ids ready_item_def completed_item_ids_def by fastforce
  have terms: "set (terminal_ids (summarize_plan_graph items))
      = set (completed_ids (summarize_plan_graph items)) \<union> set (failed_ids (summarize_plan_graph items))"
    unfolding summary_sets by (auto simp: is_failed_status_def dest: status_classes_disjoint)
  have cover: "{pi_id i | i. i \<in> set items \<and> (is_runnable_status (pi_status i) \<or> is_active_status (pi_status i)
          \<or> is_terminal_status (pi_status i) \<or> pi_status i = ''blocked'')}
        \<subseteq> set (ready_ids (summarize_plan_graph items)) \<union> set (blocked_ids (summarize_plan_graph items))
          \<union> set (active_ids (summarize_plan_graph items)) \<union> set (terminal_ids (summarize_plan_graph items))"
    unfolding summary_sets using summary_covers by blast
  note disj = key_disjoint [OF d]
  show ?thesis
    by (intro conjI ready terms cover)
      (unfold summary_sets, (rule disj, blast dest: summary_classes status_classes_disjoint)+)
qed

theorem plan_summary_partitions_witness:
  "set (ready_ids (summarize_plan_graph demo_items)) \<inter> set (blocked_ids (summarize_plan_graph demo_items)) = {}
   \<and> ready_ids (summarize_plan_graph demo_items) = [''b'']
   \<and> blocked_ids (summarize_plan_graph demo_items) = [''c'', ''d'']"
proof -
  have "ready_ids (summarize_plan_graph demo_items) = [''b'']" by code_simp
  moreover have "blocked_ids (summarize_plan_graph demo_items) = [''c'', ''d'']" by code_simp
  moreover have "set (ready_ids (summarize_plan_graph demo_items))
      \<inter> set (blocked_ids (summarize_plan_graph demo_items)) = {}"
    using plan_summary_partitions [OF demo_items_distinct] by (elim conjE)
  ultimately show ?thesis by blast
qed

text \<open>
  An explicit assignment of a runnable task is accepted exactly when the summary counts the
  task as ready: the two checks of the live path agree.
\<close>

theorem explicit_reason_matches_ready:
  assumes "distinct (map pi_id (plan_items p))" "find_item (plan_items p) t = Some i"
    "is_runnable_status (pi_status i)"
  shows "explicit_task_blocked_reason p t = None
    \<longleftrightarrow> t \<in> set (ready_ids (summarize_plan_graph (plan_items p)))"
proof -
  have i: "i \<in> set (plan_items p)" "pi_id i = t" using find_item_SomeD [OF assms(2)] by auto
  have "explicit_task_blocked_reason p t = None \<longleftrightarrow> ready_item (plan_items p) i"
    using assms(2,3) i(1) completed_known [of "plan_items p"]
    by (auto simp: explicit_task_blocked_reason_def Let_def ready_item_def missing_Nil_iff unresolved_Nil_iff)
  also have "\<dots> \<longleftrightarrow> t \<in> set (ready_ids (summarize_plan_graph (plan_items p)))"
  proof
    assume "ready_item (plan_items p) i"
    then show "t \<in> set (ready_ids (summarize_plan_graph (plan_items p)))"
      using i(2) unfolding set_ready_ids by blast
  next
    assume "t \<in> set (ready_ids (summarize_plan_graph (plan_items p)))"
    then obtain j where j: "ready_item (plan_items p) j" "pi_id j = t" unfolding set_ready_ids by auto
    then have "j = i" using distinct_key_eq [OF assms(1)] i unfolding ready_item_def by metis
    then show "ready_item (plan_items p) i" using j by simp
  qed
  finally show ?thesis .
qed

theorem explicit_reason_matches_ready_witness:
  "explicit_task_blocked_reason demo_plan ''b'' = None
   \<and> ''b'' \<in> set (ready_ids (summarize_plan_graph (plan_items demo_plan)))"
proof -
  have "explicit_task_blocked_reason demo_plan ''b'' = None" by code_simp
  moreover have "explicit_task_blocked_reason demo_plan ''b'' = None
      \<longleftrightarrow> ''b'' \<in> set (ready_ids (summarize_plan_graph (plan_items demo_plan)))"
    by (rule explicit_reason_matches_ready [where i = "demo_item ''b'' ''queued'' [''a''] (Some ''s2'')"])
      (use demo_items_distinct demo_find_b in
        \<open>simp_all add: demo_plan_items status_defs demo_item_def\<close>)
  ultimately show ?thesis by simp
qed

text \<open>
  The live scheduler's cycle detector returns, sorted and without repetition, exactly the
  items on or downstream of a dependency cycle, in whatever order its hash map is iterated.
\<close>

theorem cycle_item_ids_exact:
  assumes "distinct keys" "set keys = item_ids items"
  shows "set (cycle_item_ids_in keys items) = {i \<in> item_ids items.
      \<exists>c. (c, c) \<in> (set (dependents items))\<^sup>+ \<and> (c, i) \<in> (set (dependents items))\<^sup>*}
    \<and> sorted (cycle_item_ids_in keys items) \<and> distinct (cycle_item_ids_in keys items)
    \<and> cycle_item_ids_in keys items = cycle_item_ids items"
  using cycle_item_ids_in_eq [OF assms] set_cycle_item_ids [of items]
    sorted_cycle_item_ids_in [of keys items] distinct_cycle_item_ids_in [OF assms(1), of items]
  by simp

theorem cycle_item_ids_exact_witness:
  "cycle_item_ids_in [''e'', ''d'', ''c'', ''b'', ''a''] demo_items = [''c'', ''d'']
   \<and> cycle_item_ids demo_items = [''c'', ''d'']"
proof -
  have "cycle_item_ids demo_items = [''c'', ''d'']" by code_simp
  moreover have "cycle_item_ids_in [''e'', ''d'', ''c'', ''b'', ''a''] demo_items = cycle_item_ids demo_items"
    by (rule cycle_item_ids_exact [THEN conjunct2, THEN conjunct2, THEN conjunct2])
      (auto simp: item_ids_def demo_items_def demo_item_def)
  ultimately show ?thesis by simp
qed

text \<open>
  Reclaiming the item that \<open>next_stranded_runnable_item_id\<close> chose takes it from its dead
  assignee, counts the reclaim (at most three per task, no wrap-around, no other task's
  counter), changes nothing about readiness and leaves an unassigned runnable item.
\<close>

theorem reclaim_frees_stranded_item:
  assumes "distinct (map pi_id (plan_items p))" "next_stranded_runnable_item_id p dead = Some t"
  shows "\<exists>p' a. reclaim_stranded_assignment p t = (p', True)
    \<and> Option.bind (find_item (plan_items p) t) pi_assigned_to = Some a \<and> dead a
    \<and> Option.bind (find_item (plan_items p') t) pi_assigned_to = None
    \<and> unat (reclaims p' t) = unat (reclaims p t) + 1 \<and> unat (reclaims p' t) \<le> 3
    \<and> (\<forall>j. j \<noteq> t \<longrightarrow> reclaims p' j = reclaims p j)
    \<and> set (ready_ids (summarize_plan_graph (plan_items p')))
        = set (ready_ids (summarize_plan_graph (plan_items p)))
    \<and> next_unassigned_runnable_item_id p' \<noteq> None"
proof -
  note st = stranded_next [OF assms(2)]
  from st(1) obtain i a where i: "find_item (plan_items p) t = Some i" "pi_assigned_to i = Some a"
    "dead a" "reclaims p t < max_dead_assignee_reclaims"
    by (auto simp: stranded_def split: option.splits if_splits)
  then obtain p' where r: "reclaim_stranded_assignment p t = (p', True)"
    and p': "plan_items p' = update_first_item t (\<lambda>x. x\<lparr>pi_assigned_to := None\<rparr>) (plan_items p)"
    by (simp add: reclaim_stranded_assignment_def)
  have find: "find_item (plan_items p') t = Some (i\<lparr>pi_assigned_to := None\<rparr>)"
    unfolding p' using i(1) by (subst find_update_first_item) simp_all
  have ready: "set (ready_ids (summarize_plan_graph (plan_items p')))
      = set (ready_ids (summarize_plan_graph (plan_items p)))"
    unfolding p' by (rule ready_ids_cong [OF sched_key_unassign])
  have less: "unat (reclaims p t) < 3"
    using i(4) by (simp add: max_dead_assignee_reclaims_def word_less_nat_alt)
  then have count: "unat (reclaims p' t) = unat (reclaims p t) + 1"
    unfolding reclaims_after [OF r] by (simp add: unat_word_ariths)
  have "t \<in> set (next_runnable_item_ids (plan_items p') None)"
    using st(2) ready by (simp add: set_next_runnable)
  then have "next_unassigned_runnable_item_id p' \<noteq> None"
    using find by (auto simp: next_unassigned_runnable_item_id_def find_None_iff_all intro!: bexI [of _ t])
  then show ?thesis
    using r i find ready count less reclaims_after [OF r] by (intro exI [of _ p'] exI [of _ a]) auto
qed

theorem reclaim_frees_stranded_item_witness:
  "next_unassigned_runnable_item_id (fst (reclaim_stranded_assignment demo_plan ''b'')) \<noteq> None"
proof -
  have "next_stranded_runnable_item_id demo_plan (\<lambda>a. a = ''s2'') = Some ''b''" by code_simp
  moreover have "distinct (map pi_id (plan_items demo_plan))"
    using demo_items_distinct by (simp add: demo_plan_items)
  ultimately show ?thesis using reclaim_frees_stranded_item [of demo_plan "\<lambda>a. a = ''s2''" "''b''"] by auto
qed

text \<open>
  The runnable queue holds the ready items by priority, ties by id; a limit takes a prefix.
\<close>

theorem runnable_queue_order:
  "next_runnable_item_ids items (Some n) = take n (next_runnable_item_ids items None)
   \<and> set (next_runnable_item_ids items None) = set (ready_ids (summarize_plan_graph items))
   \<and> (\<exists>its :: plan_item list. next_runnable_item_ids items None = map pi_id its
        \<and> sorted_wrt (\<lambda>a b. priority_rank (pi_priority a) < priority_rank (pi_priority b)
            \<or> priority_rank (pi_priority a) = priority_rank (pi_priority b) \<and> pi_id a \<le> pi_id b) its)"
proof -
  have "sorted_wrt (lex_le (\<lambda>i. unat (priority_rank (pi_priority i))) pi_id) (runnable_items items)"
    unfolding runnable_items_def Let_def by (rule sort_key_twice)
  then have "sorted_wrt (\<lambda>a b. priority_rank (pi_priority a) < priority_rank (pi_priority b)
      \<or> priority_rank (pi_priority a) = priority_rank (pi_priority b) \<and> pi_id a \<le> pi_id b)
      (runnable_items items)"
    by (rule sorted_wrt_mono_rel [rotated]) (auto simp: lex_le_def word_less_nat_alt word_unat_eq_iff)
  moreover have "next_runnable_item_ids items None = map pi_id (runnable_items items)"
    "next_runnable_item_ids items (Some n) = take n (next_runnable_item_ids items None)"
    by (simp_all add: next_runnable_item_ids_def)
  ultimately show ?thesis
    using set_next_runnable [of items] by (intro conjI exI [of _ "runnable_items items"]) assumption+
qed

theorem runnable_queue_order_witness:
  "next_runnable_item_ids demo_items (Some 1) = take 1 (next_runnable_item_ids demo_items None)"
  using runnable_queue_order [of demo_items 1] by blast

text \<open>
  An implicit task-control target is an item assigned to the session that the action may
  touch, never a completed one, and none of the session's other candidates comes before it
  (active, then runnable, then failed work).
\<close>

theorem task_control_target_is_unfinished:
  assumes "task_control_target_item_id items target action = Inr t"
  shows "\<exists>i \<in> set items. pi_id i = t \<and> pi_assigned_to i = Some target
    \<and> task_control_action_allows_status action (pi_status i) \<and> \<not> is_completed_status (pi_status i)
    \<and> (\<forall>j \<in> set items. pi_assigned_to j = Some target
         \<longrightarrow> task_control_action_allows_status action (pi_status j)
         \<longrightarrow> target_rank (pi_status i) \<le> target_rank (pi_status j))"
proof -
  let ?c = "task_control_candidates items target action"
  obtain a r where c: "?c = a # r" "pi_id a = t"
    using assms
    by (cases ?c rule: remdups_adj.cases)
      (auto simp: task_control_target_item_id_def Let_def split: if_splits)
  have mem: "j \<in> set ?c \<longleftrightarrow> j \<in> set items \<and> pi_assigned_to j = Some target
      \<and> task_control_action_allows_status action (pi_status j)" for j
    by (auto simp: task_control_candidates_def)
  have "sorted (map (\<lambda>i. target_rank (pi_status i)) ?c)"
    unfolding task_control_candidates_def by (rule sorted_sort_key)
  then have least: "target_rank (pi_status a) \<le> target_rank (pi_status j)" if "j \<in> set ?c" for j
    using c(1) that by auto
  have a: "a \<in> set ?c" using c(1) by simp
  have "\<not> is_completed_status (pi_status a)"
    using a unfolding mem by (cases action) (auto simp: is_completed_status_def)
  then show ?thesis using a c(2) least unfolding mem by (intro bexI [of _ a]) auto
qed

theorem task_control_target_is_unfinished_witness:
  "\<exists>i. i \<in> set demo_items \<and> pi_id i = ''e'' \<and> \<not> is_completed_status (pi_status i)"
proof -
  have "task_control_target_item_id demo_items ''s1'' Salvage = Inr ''e''" by code_simp
  from task_control_target_is_unfinished [OF this] show ?thesis by blast
qed

text \<open>
  The load of a session is the number of unfinished items assigned to it; sessions without
  such items are absent.
\<close>

theorem assignment_loads_count:
  "assignment_loads p a =
     (let k = length (filter (\<lambda>i. \<not> is_terminal_status (pi_status i) \<and> pi_assigned_to i = Some a)
                (plan_items p))
      in if k = 0 then None else Some k)"
proof -
  let ?f = "\<lambda>i. if is_terminal_status (pi_status i) then None else pi_assigned_to i"
  have eq: "assignment_loads p = fold (\<lambda>i. bump_opt (?f i) 1) (plan_items p) Map.empty"
    unfolding assignment_loads_def
    by (intro fold_cong refl) (auto simp: fun_eq_iff bump_opt_def split: option.splits)
  have f: "(?f i = Some a) = (\<not> is_terminal_status (pi_status i) \<and> pi_assigned_to i = Some a)" for i
    by simp
  show ?thesis unfolding eq bump_opt_count f by (simp add: Let_def)
qed

end
