(* ===== verification/Bridge.thy ===== *)
theory Bridge
  imports Plan_Graph Dag_Schedule
begin

text \<open>
  The bridge between the engine and the live plan (\<open>crates/next-code-plan/src/bridge.rs\<close>):
  lifting a plan to a task graph, lowering a graph into the plan, the dataflow context of
  an assignment and the growth accounting. JSON encoding and decoding of artifacts
  (\<open>serde_json\<close>) are the parameters \<open>enc\<close> and \<open>dec\<close>.
\<close>

section \<open>Strings of the enumerations\<close>

definition parse_mode :: "string \<Rightarrow> mode" where
  "parse_mode s = (if to_ascii_lowercase (trim s) = ''deep'' then Deep else Light)"

fun mode_str :: "mode \<Rightarrow> string" where
  "mode_str Deep = ''deep''"
| "mode_str Light = ''light''"

definition parse_kind :: "string option \<Rightarrow> node_kind" where
  "parse_kind k =
     (let s = map_option (\<lambda>k. to_ascii_lowercase (trim k)) k
      in if s = Some ''implement'' then Implement
         else if s = Some ''verify'' then Verify
         else if s = Some ''fix'' then Fix
         else if s = Some ''synthesize'' then Synthesize
         else if s = Some ''critique'' then Critique
         else Explore)"

fun kind_str :: "node_kind \<Rightarrow> string" where
  "kind_str Explore = ''explore''"
| "kind_str Implement = ''implement''"
| "kind_str Verify = ''verify''"
| "kind_str Fix = ''fix''"
| "kind_str Synthesize = ''synthesize''"
| "kind_str Critique = ''critique''"

definition parse_origin :: "string option \<Rightarrow> node_origin option" where
  "parse_origin o' =
     (let s = map_option (\<lambda>k. to_ascii_lowercase (trim k)) o'
      in if s = Some ''seed'' then Some OSeed
         else if s = Some ''expand'' then Some OExpand
         else if s = Some ''gap'' then Some OGap
         else if s = Some ''gate'' then Some OGate
         else None)"

fun origin_str :: "node_origin \<Rightarrow> string" where
  "origin_str OSeed = ''seed''"
| "origin_str OExpand = ''expand''"
| "origin_str OGap = ''gap''"
| "origin_str OGate = ''gate''"

definition status_from_plan :: "string \<Rightarrow> node_status" where
  "status_from_plan s =
     (if s \<in> {''running'', ''running_stale''} then Running
      else if s \<in> {''completed'', ''done''} then Done
      else if s \<in> {''failed'', ''stopped'', ''crashed''} then Failed
      else Queued)"

fun status_to_plan :: "node_status \<Rightarrow> string" where
  "status_to_plan Queued = ''queued''"
| "status_to_plan Running = ''running''"
| "status_to_plan Done = ''completed''"
| "status_to_plan Failed = ''failed''"

definition priority_string :: "u8 \<Rightarrow> string" where
  "priority_string r = (if r = 0 then ''high'' else if r = 2 then ''low'' else ''medium'')"

section \<open>Lifting and lowering\<close>

definition item_meta :: "versioned_plan \<Rightarrow> string \<Rightarrow> node_meta" where
  "item_meta p i = unwrap_or (node_meta_map p i) default_meta"

definition item_to_node ::
  "(string \<Rightarrow> handoff_artifact option) \<Rightarrow> versioned_plan \<Rightarrow> plan_item \<Rightarrow> task_node" where
  "item_to_node dec p i =
     (let m = item_meta p (pi_id i)
      in \<lparr>nid = pi_id i, content = pi_content i, kind = parse_kind (meta_kind m),
          status = status_from_plan (pi_status i), owner = pi_assigned_to i,
          parent = meta_parent m, depends_on = pi_blocked_by i, expanded = meta_expanded m,
          is_gate = meta_is_gate m, planner = meta_planner m,
          priority = priority_rank (pi_priority i),
          node_output = Option.bind (artifact_json m) dec,
          origin = parse_origin (meta_origin m)\<rparr>)"

definition to_task_graph ::
  "(string \<Rightarrow> handoff_artifact option) \<Rightarrow> versioned_plan \<Rightarrow> task_graph" where
  "to_task_graph dec p =
     fold (\<lambda>i g. push_node g (item_to_node dec p i)) (plan_items p) (new_graph (parse_mode (plan_mode p)))"

text \<open>Collecting into a hash map: a later item with the same id replaces an earlier one.\<close>

definition prior_item :: "versioned_plan \<Rightarrow> string \<Rightarrow> plan_item option" where
  "prior_item p i = find_item (rev (plan_items p)) i"

definition node_to_item :: "versioned_plan \<Rightarrow> task_node \<Rightarrow> plan_item" where
  "node_to_item p n =
     (let prev = prior_item p (nid n)
      in \<lparr>pi_content = content n, pi_status = status_to_plan (status n),
          pi_priority = (case prev of None \<Rightarrow> priority_string (priority n) | Some i \<Rightarrow> pi_priority i),
          pi_id = nid n, pi_subsystem = Option.bind prev pi_subsystem,
          pi_file_scope = (case prev of None \<Rightarrow> [] | Some i \<Rightarrow> pi_file_scope i),
          pi_blocked_by = depends_on n, pi_assigned_to = owner n\<rparr>)"

definition node_to_meta :: "(handoff_artifact \<Rightarrow> string option) \<Rightarrow> task_node \<Rightarrow> node_meta" where
  "node_to_meta enc n =
     \<lparr>meta_kind = Some (kind_str (kind n)), meta_parent = parent n, meta_expanded = expanded n,
      meta_is_gate = is_gate n, meta_planner = planner n,
      artifact_json = Option.bind (node_output n) enc,
      meta_origin = map_option origin_str (origin n)\<rparr>"

definition apply_task_graph ::
  "(handoff_artifact \<Rightarrow> string option) \<Rightarrow> versioned_plan \<Rightarrow> task_graph \<Rightarrow> versioned_plan" where
  "apply_task_graph enc p g =
     p\<lparr>plan_mode := mode_str (mode g),
       plan_items := map (node_to_item p) (nodes g),
       node_meta_map := fold (\<lambda>n m. m(nid n \<mapsto> node_to_meta enc n)) (nodes g) Map.empty\<rparr>"

section \<open>Dataflow of an assignment\<close>

definition dep_section ::
  "(string \<Rightarrow> handoff_artifact option) \<Rightarrow> versioned_plan \<Rightarrow> string \<Rightarrow> string option" where
  "dep_section dec p d =
     (case find_item (plan_items p) d of
        None \<Rightarrow> None
      | Some dep \<Rightarrow>
          (if \<not> is_completed_status (pi_status dep) then None
           else (case node_meta_map p d of
                   None \<Rightarrow> None
                 | Some m \<Rightarrow>
                     (case Option.bind (artifact_json m) dec of
                        None \<Rightarrow> None
                      | Some a \<Rightarrow> Some (render_section a d (unwrap_or (meta_kind m) ''task''))))))"

definition upstream_context ::
  "(string \<Rightarrow> handoff_artifact option) \<Rightarrow> versioned_plan \<Rightarrow> string \<Rightarrow> string option" where
  "upstream_context dec p t =
     (case find_item (plan_items p) t of
        None \<Rightarrow> None
      | Some i \<Rightarrow>
          (if pi_blocked_by i = [] then None
           else let sections = List.map_filter (dep_section dec p) (pi_blocked_by i)
                in if sections = [] then None
                   else Some (''# Inputs from completed dependencies'' @ nl @ nl @ join nl sections)))"

definition hydrate_assignment ::
  "(string \<Rightarrow> handoff_artifact option) \<Rightarrow> versioned_plan \<Rightarrow> string \<Rightarrow> string \<Rightarrow> string" where
  "hydrate_assignment dec p t c =
     (case upstream_context dec p t of Some context \<Rightarrow> c @ nl @ nl @ context | None \<Rightarrow> c)"

section \<open>Growth and confidence accounting\<close>

record growth_stats_t =
  seeded :: nat
  from_expansion :: nat
  from_gaps :: nat
  gates :: nat

definition growth_total :: "growth_stats_t \<Rightarrow> nat" where
  "growth_total s = seeded s + from_expansion s + from_gaps s + gates s"

definition growth_grown :: "growth_stats_t \<Rightarrow> nat" where
  "growth_grown s = from_expansion s + from_gaps s + gates s"

definition summary_line :: "growth_stats_t \<Rightarrow> string" where
  "summary_line s =
     show_nat (seeded s) @ '' seeded -> '' @ show_nat (growth_total s) @ '' nodes (+''
     @ show_nat (from_expansion s) @ '' expansion, +'' @ show_nat (from_gaps s) @ '' gap, +''
     @ show_nat (gates s) @ '' gates)''"

definition item_origin :: "versioned_plan \<Rightarrow> plan_item \<Rightarrow> node_origin option" where
  "item_origin p i = Option.bind (node_meta_map p (pi_id i)) (\<lambda>m. parse_origin (meta_origin m))"

definition count_origin :: "versioned_plan \<Rightarrow> plan_item \<Rightarrow> growth_stats_t \<Rightarrow> growth_stats_t" where
  "count_origin p i s =
     (case item_origin p i of
        Some OExpand \<Rightarrow> s\<lparr>from_expansion := from_expansion s + 1\<rparr>
      | Some OGap \<Rightarrow> s\<lparr>from_gaps := from_gaps s + 1\<rparr>
      | Some OGate \<Rightarrow> s\<lparr>gates := gates s + 1\<rparr>
      | _ \<Rightarrow> s\<lparr>seeded := seeded s + 1\<rparr>)"

definition growth_stats :: "versioned_plan \<Rightarrow> growth_stats_t" where
  "growth_stats p =
     fold (count_origin p) (plan_items p) \<lparr>seeded = 0, from_expansion = 0, from_gaps = 0, gates = 0\<rparr>"

definition is_low_confidence_item ::
  "(string \<Rightarrow> handoff_artifact option) \<Rightarrow> versioned_plan \<Rightarrow> plan_item \<Rightarrow> bool" where
  "is_low_confidence_item dec p i =
     (case node_meta_map p (pi_id i) of
        None \<Rightarrow> False
      | Some m \<Rightarrow>
          (if meta_is_gate m then False
           else Option.bind (Option.bind (artifact_json m) dec) artifact_level = Some Low))"

definition low_confidence_completed_ids ::
  "(string \<Rightarrow> handoff_artifact option) \<Rightarrow> versioned_plan \<Rightarrow> string list" where
  "low_confidence_completed_ids dec p =
     map pi_id (filter (is_low_confidence_item dec p)
       (filter (\<lambda>i. is_completed_status (pi_status i)) (plan_items p)))"

end
