(* ===== verification/Live_Graph.thy ===== *)
theory Live_Graph
  imports Bridge Dag_Ops
begin

text \<open>
  The server's task-graph handlers
  (\<open>crates/next-code-app-core/src/server/comm_graph.rs\<close>): seed, expand, complete and
  inject on the plan of the caller's swarm, and the election of the seeder as coordinator.
  A handler lifts the plan, claims the node, runs the engine operation, lowers the graph
  and finalizes. It is a function from the server's state to the new state and the list of
  its effects (replies, persistence, broadcast, event log). \<open>serde_json\<close> is the parameters
  \<open>enc\<close>, \<open>dec\<close> and \<open>json_error\<close>.
\<close>

section \<open>State\<close>

text \<open>
  A member as the server keeps it, without its channels, timestamps and display fields;
  \<open>sm_tx_closed\<close> is \<open>event_tx.is_closed()\<close>.
\<close>

record swarm_member =
  sm_tx_closed :: bool
  sm_swarm_id :: "string option"
  sm_swarm_enabled :: bool
  sm_status :: string
  sm_detail :: "string option"
  sm_task_label :: "string option"
  sm_friendly_name :: "string option"
  sm_report_back_to :: "string option"
  sm_latest_report :: "string option"
  sm_role :: string
  sm_is_headless :: bool

record server_state =
  sv_members :: "string \<rightharpoonup> swarm_member"
  sv_plans :: "string \<rightharpoonup> versioned_plan"
  sv_coordinators :: "string \<rightharpoonup> string"
  sv_efforts :: "string \<rightharpoonup> string"

datatype server_effect =
    ReplyError u64 string
  | ReplyDone u64
  | PersistSwarm string
  | BroadcastPlan string string
  | RecordPlanUpdate string "string option" string nat

record wire_spec =
  wire_id :: string
  wire_content :: string
  wire_kind :: "string option"
  wire_depends_on :: "string list"
  wire_priority :: u8

definition spec_from_wire :: "wire_spec \<Rightarrow> node_spec" where
  "spec_from_wire w =
     \<lparr>spec_id = Some (wire_id w), spec_content = wire_content w,
      spec_kind = parse_kind (wire_kind w), spec_depends_on = wire_depends_on w,
      spec_priority = wire_priority w\<rparr>"

definition swarm_id_for :: "server_state \<Rightarrow> string \<Rightarrow> string option" where
  "swarm_id_for s session = Option.bind (sv_members s session) sm_swarm_id"

definition session_effort :: "server_state \<Rightarrow> string \<Rightarrow> string option" where
  "session_effort s session = sv_efforts s session"

definition is_deep_swarm_effort :: "string \<Rightarrow> bool" where
  "is_deep_swarm_effort e \<longleftrightarrow> eq_ignore_ascii_case (trim e) ''swarm-deep''"

section \<open>Electing the seeder\<close>

text \<open>
  The election takes the lock of the coordinator map twice and that of the members twice;
  the four phases are separate operations, \<open>Live_Election\<close> interleaves them.
\<close>

definition read_coordinator :: "server_state \<Rightarrow> string \<Rightarrow> string option" where
  "read_coordinator s swarm = sv_coordinators s swarm"

definition coordinator_is_live :: "server_state \<Rightarrow> string option \<Rightarrow> bool" where
  "coordinator_is_live s current =
     (case current of
        None \<Rightarrow> False
      | Some c \<Rightarrow>
          (case sv_members s c of
             None \<Rightarrow> False
           | Some m \<Rightarrow> \<not> sm_tx_closed m \<and> \<not> sm_is_headless m))"

text \<open>Compare and swap: \<open>Inl\<close> the early return, \<open>Inr\<close> the coordinator it replaced.\<close>

definition swap_coordinator ::
  "server_state \<Rightarrow> string \<Rightarrow> string \<Rightarrow> string option \<Rightarrow> server_state \<times> (bool + string option)" where
  "swap_coordinator s swarm seeder current =
     (if sv_coordinators s swarm \<noteq> current
      then (s, Inl (sv_coordinators s swarm = Some seeder))
      else (s\<lparr>sv_coordinators := (sv_coordinators s)(swarm \<mapsto> seeder)\<rparr>,
            Inr (sv_coordinators s swarm)))"

definition set_role :: "string \<Rightarrow> string \<Rightarrow> server_state \<Rightarrow> server_state" where
  "set_role session r s =
     (case sv_members s session of
        None \<Rightarrow> s
      | Some m \<Rightarrow> s\<lparr>sv_members := (sv_members s)(session \<mapsto> m\<lparr>sm_role := r\<rparr>)\<rparr>)"

definition promote_seeder :: "string \<Rightarrow> string option \<Rightarrow> server_state \<Rightarrow> server_state" where
  "promote_seeder seeder prior s =
     (let s1 = set_role seeder ''coordinator'' s
      in case prior of
           None \<Rightarrow> s1
         | Some p \<Rightarrow> (if p \<noteq> seeder then set_role p ''agent'' s1 else s1))"

definition ensure_seeder_can_coordinate ::
  "server_state \<Rightarrow> string \<Rightarrow> string \<Rightarrow> server_state \<times> bool" where
  "ensure_seeder_can_coordinate s swarm seeder =
     (let current = read_coordinator s swarm
      in if current = Some seeder then (s, True)
         else if coordinator_is_live s current then (s, False)
         else (case swap_coordinator s swarm seeder current of
                 (s1, Inl b) \<Rightarrow> (s1, b)
               | (s1, Inr prior) \<Rightarrow> (promote_seeder seeder prior s1, True)))"

section \<open>Operations on a plan\<close>

definition claim_queued_node_for_actor :: "task_graph \<Rightarrow> string \<Rightarrow> string \<Rightarrow> task_graph" where
  "claim_queued_node_for_actor g i actor =
     (let claimable = (case get g i of
                         None \<Rightarrow> False
                       | Some n \<Rightarrow> status n = Queued \<and> (owner n = None \<or> owner n = Some actor))
      in if claimable then fst (dispatch g i actor) else g)"

definition downgrades_deep :: "versioned_plan \<Rightarrow> string \<Rightarrow> bool" where
  "downgrades_deep p m \<longleftrightarrow>
     eq_ignore_ascii_case (plan_mode p) ''deep'' \<and> \<not> eq_ignore_ascii_case m ''deep''
     \<and> plan_items p \<noteq> []"

definition downgrade_message :: string where
  "downgrade_message =
     ''Seed rejected: this swarm already has a non-empty deep-mode plan; ''
     @ ''seeding with mode=light would silently strip its gates and artifact ''
     @ ''validation. Omit `mode` to keep deep, or finish/clear the current plan first.''"

definition bump_version :: "versioned_plan \<Rightarrow> versioned_plan" where
  "bump_version p = p\<lparr>plan_version := plan_version p + 1\<rparr>"

text \<open>What the seed handler does to the plan under the write lock.\<close>

definition seed_plan ::
  "(handoff_artifact \<Rightarrow> string option) \<Rightarrow> (string \<Rightarrow> handoff_artifact option) \<Rightarrow> string option
    \<Rightarrow> string \<Rightarrow> node_spec list \<Rightarrow> versioned_plan \<Rightarrow> versioned_plan \<times> (string + unit)" where
  "seed_plan enc dec resolved_mode session specs p =
     (if (case resolved_mode of None \<Rightarrow> False | Some m \<Rightarrow> downgrades_deep p m)
      then (p, err downgrade_message)
      else
        let p1 = (case resolved_mode of None \<Rightarrow> p | Some m \<Rightarrow> p\<lparr>plan_mode := m\<rparr>);
            p2 = p1\<lparr>participants := finsert session (participants p1)\<rparr>;
            g = to_task_graph dec p2
        in case seed g specs of
             Inl e \<Rightarrow> (p2, err (''Seed rejected: '' @ display_dag_error e))
           | Inr g' \<Rightarrow> ((if g' \<noteq> g then bump_version (apply_task_graph enc p2 g') else p2), ok ()))"

text \<open>
  The other three lift, claim, run the operation and lower; the plan stays as it was when
  the operation is refused. \<open>what\<close> is the operation's name in the reply.
\<close>

definition edit_plan ::
  "(handoff_artifact \<Rightarrow> string option) \<Rightarrow> (string \<Rightarrow> handoff_artifact option)
    \<Rightarrow> (task_graph \<Rightarrow> dag_error + task_graph) \<Rightarrow> string \<Rightarrow> string \<Rightarrow> string
    \<Rightarrow> versioned_plan \<Rightarrow> versioned_plan \<times> (string + unit)" where
  "edit_plan enc dec operation what i session p =
     (let g = claim_queued_node_for_actor (to_task_graph dec p) i session
      in case operation g of
           Inl e \<Rightarrow> (p, err (what @ '' rejected: '' @ display_dag_error e))
         | Inr g' \<Rightarrow> (bump_version (apply_task_graph enc p g'), ok ()))"

definition expand_op :: "string \<Rightarrow> string \<Rightarrow> node_spec list \<Rightarrow> task_graph \<Rightarrow> dag_error + task_graph" where
  "expand_op i session cs g = and_then (expand_node g i session cs) (\<lambda>r. ok (fst r))"

definition inject_op :: "string \<Rightarrow> string \<Rightarrow> node_spec list \<Rightarrow> task_graph \<Rightarrow> dag_error + task_graph" where
  "inject_op i session ss g = and_then (inject_from_gate g i session ss) (\<lambda>r. ok (fst r))"

definition complete_op ::
  "string \<Rightarrow> string \<Rightarrow> handoff_artifact \<Rightarrow> task_graph \<Rightarrow> dag_error + task_graph" where
  "complete_op i session a g = complete_node g i session a"

section \<open>Handlers\<close>

definition finalize ::
  "server_state \<Rightarrow> u64 \<Rightarrow> string \<Rightarrow> string \<Rightarrow> string \<Rightarrow> nat \<Rightarrow> server_effect list" where
  "finalize s req swarm session reason count =
     [PersistSwarm swarm, BroadcastPlan swarm reason,
      RecordPlanUpdate session (Option.bind (sv_members s session) sm_friendly_name) swarm count,
      ReplyDone req]"

definition settle ::
  "server_state \<Rightarrow> u64 \<Rightarrow> string \<Rightarrow> string \<Rightarrow> string \<Rightarrow> nat \<Rightarrow> versioned_plan \<times> (string + unit)
    \<Rightarrow> server_state \<times> server_effect list" where
  "settle s req swarm session reason count outcome =
     (let s' = s\<lparr>sv_plans := (sv_plans s)(swarm \<mapsto> fst outcome)\<rparr>
      in case snd outcome of
           Inl m \<Rightarrow> (s', [ReplyError req m])
         | Inr _ \<Rightarrow> (s', finalize s' req swarm session reason count))"

definition resolve_mode :: "server_state \<Rightarrow> string \<Rightarrow> string option \<Rightarrow> string option" where
  "resolve_mode s session m =
     (case m of
        Some x \<Rightarrow> Some x
      | None \<Rightarrow>
          (case session_effort s session of
             None \<Rightarrow> None
           | Some e \<Rightarrow> if is_deep_swarm_effort e then Some ''deep'' else None))"

definition handle_comm_seed_graph ::
  "(handoff_artifact \<Rightarrow> string option) \<Rightarrow> (string \<Rightarrow> handoff_artifact option)
    \<Rightarrow> server_state \<Rightarrow> u64 \<Rightarrow> string \<Rightarrow> string option \<Rightarrow> wire_spec list
    \<Rightarrow> server_state \<times> server_effect list" where
  "handle_comm_seed_graph enc dec s req session m ws =
     (case swarm_id_for s session of
        None \<Rightarrow> (s, [ReplyError req ''Not in a swarm.''])
      | Some swarm \<Rightarrow>
          let s1 = fst (ensure_seeder_can_coordinate s swarm session);
              specs = map spec_from_wire ws;
              p = unwrap_or (sv_plans s1 swarm) new_plan
          in settle s1 req swarm session ''task_graph_seed'' (length specs)
               (seed_plan enc dec (resolve_mode s1 session m) session specs p))"

definition edit_handler ::
  "server_state \<Rightarrow> u64 \<Rightarrow> string \<Rightarrow> string \<Rightarrow> nat
    \<Rightarrow> (versioned_plan \<Rightarrow> versioned_plan \<times> (string + unit)) \<Rightarrow> string
    \<Rightarrow> server_state \<times> server_effect list" where
  "edit_handler s req session reason count edit swarm =
     (case sv_plans s swarm of
        None \<Rightarrow> (s, [ReplyError req ''No plan for this swarm.''])
      | Some p \<Rightarrow> settle s req swarm session reason count (edit p))"

definition handle_comm_expand_node ::
  "(handoff_artifact \<Rightarrow> string option) \<Rightarrow> (string \<Rightarrow> handoff_artifact option)
    \<Rightarrow> server_state \<Rightarrow> u64 \<Rightarrow> string \<Rightarrow> string \<Rightarrow> wire_spec list
    \<Rightarrow> server_state \<times> server_effect list" where
  "handle_comm_expand_node enc dec s req session i ws =
     (case swarm_id_for s session of
        None \<Rightarrow> (s, [ReplyError req ''Not in a swarm.''])
      | Some swarm \<Rightarrow>
          let specs = map spec_from_wire ws
          in edit_handler s req session ''task_graph_expand'' (length specs)
               (edit_plan enc dec (expand_op i session specs) ''Expand'' i session) swarm)"

definition handle_comm_complete_node ::
  "(handoff_artifact \<Rightarrow> string option) \<Rightarrow> (string \<Rightarrow> handoff_artifact option) \<Rightarrow> (string \<Rightarrow> string)
    \<Rightarrow> server_state \<Rightarrow> u64 \<Rightarrow> string \<Rightarrow> string \<Rightarrow> string
    \<Rightarrow> server_state \<times> server_effect list" where
  "handle_comm_complete_node enc dec json_error s req session i json =
     (case swarm_id_for s session of
        None \<Rightarrow> (s, [ReplyError req ''Not in a swarm.''])
      | Some swarm \<Rightarrow>
          (case dec json of
             None \<Rightarrow> (s, [ReplyError req (''Invalid artifact JSON: '' @ json_error json)])
           | Some a \<Rightarrow>
               edit_handler s req session ''task_graph_complete'' 1
                 (edit_plan enc dec (complete_op i session a) ''Complete'' i session) swarm))"

definition handle_comm_inject_gap ::
  "(handoff_artifact \<Rightarrow> string option) \<Rightarrow> (string \<Rightarrow> handoff_artifact option)
    \<Rightarrow> server_state \<Rightarrow> u64 \<Rightarrow> string \<Rightarrow> string \<Rightarrow> wire_spec list
    \<Rightarrow> server_state \<times> server_effect list" where
  "handle_comm_inject_gap enc dec s req session i ws =
     (case swarm_id_for s session of
        None \<Rightarrow> (s, [ReplyError req ''Not in a swarm.''])
      | Some swarm \<Rightarrow>
          let specs = map spec_from_wire ws
          in edit_handler s req session ''task_graph_inject_gap'' (length specs)
               (edit_plan enc dec (inject_op i session specs) ''Inject'' i session) swarm)"

end
