(* ===== verification/Bridge_Facts.thy ===== *)
theory Bridge_Facts
  imports Bridge Dag_Engine Plan_Facts
begin

text \<open>
  Lowering a graph and lifting it back, and the agreement of the live scheduler with the
  engine's. The text codecs of the enumerations share one interface.
\<close>

section \<open>Text codecs\<close>

text \<open>What is written reads back; the reader may be lenient and return a wrapped value.\<close>

locale text_codec =
  fixes encode :: "'a \<Rightarrow> string" and decode :: "string \<Rightarrow> 'b" and wrap :: "'a \<Rightarrow> 'b"
  assumes decode_encode: "decode (encode x) = wrap x"
    and wrap_inj: "wrap x = wrap y \<Longrightarrow> x = y"
begin

lemma encode_inj: "encode x = encode y \<longleftrightarrow> x = y"
  using decode_encode wrap_inj by metis

lemma decode_on_image: "decode s = wrap x \<Longrightarrow> s \<in> range encode \<Longrightarrow> s = encode x"
  using decode_encode wrap_inj by (metis rangeE)

end

lemma parse_mode_str: "parse_mode (mode_str m) = m"
  by (cases m) (simp; code_simp)+

lemma parse_kind_str: "parse_kind (Some (kind_str k)) = k"
  by (cases k) (simp; code_simp)+

lemma parse_origin_str: "parse_origin (Some (origin_str k)) = Some k"
  by (cases k) (simp; code_simp)+

lemma status_round_trip: "status_from_plan (status_to_plan s) = s"
  by (cases s) (simp_all add: status_from_plan_def)

lemma tc_parse_str: "tc_parse (tc_str a) = Some a"
  by (cases a) (simp_all add: tc_parse_def)

interpretation mode_codec: text_codec mode_str parse_mode "\<lambda>m. m"
  by unfold_locales (simp_all add: parse_mode_str)

interpretation kind_codec: text_codec kind_str "\<lambda>s. parse_kind (Some s)" "\<lambda>k. k"
  by unfold_locales (simp_all add: parse_kind_str)

interpretation origin_codec: text_codec origin_str "\<lambda>s. parse_origin (Some s)" Some
  by unfold_locales (simp_all add: parse_origin_str)

interpretation status_codec: text_codec status_to_plan status_from_plan "\<lambda>s. s"
  by unfold_locales (simp_all add: status_round_trip)

interpretation action_codec: text_codec tc_str tc_parse Some
  by unfold_locales (simp_all add: tc_parse_str)

section \<open>Lowered plans\<close>

lemma node_to_item_fields [simp]:
  "pi_id (node_to_item p n) = nid n"
  "pi_status (node_to_item p n) = status_to_plan (status n)"
  "pi_blocked_by (node_to_item p n) = depends_on n"
  "pi_assigned_to (node_to_item p n) = owner n"
  "pi_content (node_to_item p n) = content n"
  by (simp_all add: node_to_item_def Let_def)

lemma apply_fields [simp]:
  "plan_items (apply_task_graph enc p g) = map (node_to_item p) (nodes g)"
  "plan_mode (apply_task_graph enc p g) = mode_str (mode g)"
  "task_progress (apply_task_graph enc p g) = task_progress p"
  "plan_version (apply_task_graph enc p g) = plan_version p"
  "participants (apply_task_graph enc p g) = participants p"
  by (simp_all add: apply_task_graph_def)

lemma fold_upd_map:
  "distinct (map k xs) \<Longrightarrow>
     fold (\<lambda>x m. m(k x \<mapsto> f x)) xs m0 i
       = (case find (\<lambda>x. k x = i) xs of None \<Rightarrow> m0 i | Some x \<Rightarrow> Some (f x))"
proof (induction xs arbitrary: m0)
  case (Cons x xs)
  have "find (\<lambda>y. k y = k x) xs = None" using Cons.prems
    by (simp add: find_None_iff_all) (metis imageI)
  then show ?case using Cons by auto
qed simp

lemma node_meta_apply:
  "unique_ids g \<Longrightarrow>
     node_meta_map (apply_task_graph enc p g) i = map_option (node_to_meta enc) (get g i)"
  by (simp add: apply_task_graph_def fold_upd_map unique_ids_def get_def split: option.split)

lemma find_item_apply:
  "find_item (plan_items (apply_task_graph enc p g)) i = map_option (node_to_item p) (get g i)"
proof -
  have "find (\<lambda>it. pi_id it = i) (map (node_to_item p) ns)
      = map_option (node_to_item p) (find (\<lambda>n. nid n = i) ns)" for ns
    by (induction ns) auto
  then show ?thesis by (simp add: find_item_def get_def)
qed

section \<open>Round trip\<close>

lemma to_task_graph_eq:
  "to_task_graph dec p = \<lparr>mode = parse_mode (plan_mode p), nodes = map (item_to_node dec p) (plan_items p)\<rparr>"
proof -
  have "fold (\<lambda>i g. push_node g (item_to_node dec p i)) is g
      = g\<lparr>nodes := nodes g @ map (item_to_node dec p) is\<rparr>" for "is" g
    by (induction "is" arbitrary: g) (simp_all add: push_node_def)
  then show ?thesis by (simp add: to_task_graph_def new_graph_def)
qed

text \<open>Artifacts of the graph survive the JSON encoding; priorities survive as words.\<close>

definition artifacts_survive ::
  "(handoff_artifact \<Rightarrow> string option) \<Rightarrow> (string \<Rightarrow> handoff_artifact option) \<Rightarrow> task_graph \<Rightarrow> bool" where
  "artifacts_survive enc dec g \<longleftrightarrow>
     (\<forall>n \<in> set (nodes g). \<forall>a. node_output n = Some a \<longrightarrow> Option.bind (enc a) dec = Some a)"

definition priorities_survive :: "versioned_plan \<Rightarrow> task_graph \<Rightarrow> bool" where
  "priorities_survive p g \<longleftrightarrow>
     (\<forall>n \<in> set (nodes g). priority_rank (pi_priority (node_to_item p n)) = priority n)"

lemma artifact_json_round:
  assumes "artifacts_survive enc dec g" "n \<in> set (nodes g)"
  shows "Option.bind (Option.bind (node_output n) enc) dec = node_output n"
  using assms by (cases "node_output n") (auto simp: artifacts_survive_def)

lemma lift_node:
  assumes u: "unique_ids g" and a: "artifacts_survive enc dec g" and pr: "priorities_survive p g"
    and n: "n \<in> set (nodes g)"
  shows "item_to_node dec (apply_task_graph enc p g) (node_to_item p n) = n"
proof -
  have m: "item_meta (apply_task_graph enc p g) (nid n) = node_to_meta enc n"
    using mem_nodes_get [OF u n] node_meta_apply [OF u] by (simp add: item_meta_def)
  have "parse_origin (map_option origin_str (origin n)) = origin n"
    by (cases "origin n") (simp_all add: parse_origin_str, simp add: parse_origin_def)
  then show ?thesis
    using artifact_json_round [OF a n] pr n
    by (simp add: item_to_node_def m node_to_meta_def parse_kind_str status_round_trip
        priorities_survive_def)
qed

lemma round_trip:
  assumes "unique_ids g" "artifacts_survive enc dec g" "priorities_survive p g"
  shows "to_task_graph dec (apply_task_graph enc p g) = g"
proof -
  have "map (item_to_node dec (apply_task_graph enc p g)) (map (node_to_item p) (nodes g)) = nodes g"
    using lift_node [OF assms] by (simp add: map_idI)
  then show ?thesis by (simp add: to_task_graph_eq parse_mode_str)
qed

section \<open>The two schedulers\<close>

lemma lowered_ids: "item_ids (map (node_to_item p) (nodes g)) = ids g"
  by (simp add: item_ids_def ids_def image_image)

lemma lowered_status:
  "is_runnable_status (status_to_plan s) \<longleftrightarrow> s = Queued"
  "is_completed_status (status_to_plan s) \<longleftrightarrow> s = Done"
  "is_active_status (status_to_plan s) \<longleftrightarrow> s = Running"
  "is_failed_status (status_to_plan s) \<longleftrightarrow> s = Failed"
  by (cases s; simp add: status_defs)+

lemma canonical_status [simp]:
  "is_completed_status ''completed''" "is_runnable_status ''queued''"
  by (simp_all add: status_defs)

lemma lowered_completed:
  "completed_item_ids (map (node_to_item p) (nodes g)) = {nid n | n. n \<in> set (nodes g) \<and> status n = Done}"
  by (auto simp: completed_item_ids_def lowered_status filter_map o_def)

lemma lowered_dependents: "set (dependents (map (node_to_item p) (nodes g))) = dep_rel g"
  unfolding set_dependents lowered_ids dep_rel_def by (auto; force)

lemma lowered_cycles: "set (cycle_item_ids (map (node_to_item p) (nodes g))) = set (cycle_nodes g)"
proof -
  have "set (remdups (map pi_id (map (node_to_item p) (nodes g)))) = item_ids (map (node_to_item p) (nodes g))"
    by (simp add: item_ids_def)
  from set_cycle_item_ids_in [OF this] show ?thesis
    unfolding cycle_item_ids_def [symmetric] lowered_dependents lowered_ids set_cycle_nodes .
qed

lemma lowered_ready:
  assumes u: "unique_ids g" and acy: "cycle_nodes g = []"
  shows "set (ready_ids (summarize_plan_graph (map (node_to_item p) (nodes g))))
    = nid ` set (ready_nodes g)"
proof -
  have dn: "{nid n | n. n \<in> set (nodes g) \<and> status n = Done}
      = {d. \<exists>c. get g d = Some c \<and> status c = Done}"
    by (auto simp: get_Some_iff [OF u])
  have "ready_item (map (node_to_item p) (nodes g)) i \<longleftrightarrow>
      (\<exists>n \<in> set (nodes g). i = node_to_item p n \<and> status n = Queued \<and> deps_satisfied g n)" for i
    unfolding ready_item_def lowered_completed lowered_cycles acy deps_satisfied_iff dn
    by (auto simp: lowered_status subset_iff)
  then have "set (ready_ids (summarize_plan_graph (map (node_to_item p) (nodes g))))
      = {nid n | n. n \<in> set (nodes g) \<and> status n = Queued \<and> deps_satisfied g n}"
    unfolding set_ready_ids by (auto simp: image_iff) (metis node_to_item_fields(1))
  also have "\<dots> = nid ` set (ready_nodes g)" by (auto simp: ready_nodes_def)
  finally show ?thesis .
qed

text \<open>With the priorities a plan can store, the queue of the live scheduler is the engine's.\<close>

lemma lowered_queue:
  assumes u: "unique_ids g" and acy: "cycle_nodes g = []" and pr: "priorities_survive p g"
  shows "next_runnable_item_ids (plan_items (apply_task_graph enc p g)) None = map nid (ready_nodes g)"
proof -
  let ?items = "map (node_to_item p) (nodes g)"
  let ?ready = "filter (\<lambda>n. status n = Queued \<and> deps_satisfied g n) (nodes g)"
  have "nid n \<in> set (ready_ids (summarize_plan_graph ?items)) \<longleftrightarrow> status n = Queued \<and> deps_satisfied g n"
    if "n \<in> set (nodes g)" for n
    unfolding lowered_ready [OF u acy]
    using that distinct_key_eq [OF u [unfolded unique_ids_def]]
    by (auto simp: ready_nodes_def)
  then have f: "filter (\<lambda>n. nid n \<in> set (ready_ids (summarize_plan_graph ?items))) (nodes g) = ?ready"
    by (simp cong: filter_cong)
  have "runnable_items ?items = map (node_to_item p)
      (sort_key (\<lambda>n. unat (priority_rank (pi_priority (node_to_item p n)))) (sort_key nid ?ready))"
    by (simp add: runnable_items_def Let_def filter_map o_def sort_key_map f)
  also have "sort_key (\<lambda>n. unat (priority_rank (pi_priority (node_to_item p n)))) (sort_key nid ?ready)
      = ready_nodes g"
    unfolding ready_nodes_def using pr by (intro sort_key_cong_on) (auto simp: priorities_survive_def)
  finally have "runnable_items ?items = map (node_to_item p) (ready_nodes g)" .
  then show ?thesis by (simp add: next_runnable_item_ids_def o_def)
qed

section \<open>Dataflow\<close>

lemma kind_label_str: "kind_label k = kind_str k"
  by (cases k) simp_all

lemma dep_section_lowered:
  assumes u: "unique_ids g" and a: "artifacts_survive enc dec g"
    and out: "\<And>n. n \<in> set (nodes g) \<Longrightarrow> status n = Done \<Longrightarrow> node_output n \<noteq> None"
  shows "dep_section dec (apply_task_graph enc p g) d =
     (case get g d of
        None \<Rightarrow> None
      | Some n \<Rightarrow> if is_done n then Some (tl (input_section n)) else None)"
proof (cases "get g d")
  case None
  then show ?thesis by (simp add: dep_section_def find_item_apply del: apply_fields)
next
  case (Some n)
  then have n: "n \<in> set (nodes g)" "nid n = d" using get_SomeD by auto
  show ?thesis
  proof (cases "status n = Done")
    case True
    then obtain art where art: "node_output n = Some art" using out n(1) by blast
    have "Option.bind (enc art) dec = Some art" using a n(1) art by (simp add: artifacts_survive_def)
    then show ?thesis
      using Some True art n
      by (simp add: dep_section_def find_item_apply node_meta_apply [OF u] lowered_status is_done_def
          node_to_meta_def input_section_def nl_def kind_label_str del: apply_fields)
  next
    case False
    then show ?thesis
      using Some by (simp add: dep_section_def find_item_apply lowered_status is_done_def del: apply_fields)
  qed
qed

lemma sections_text: "xs \<noteq> [] \<Longrightarrow> nl @ join nl xs = concat (map (\<lambda>x. nl @ x) xs)"
proof (induction xs)
  case (Cons x xs)
  then show ?case by (cases xs) simp_all
qed simp

lemma hydrate_is_assemble:
  assumes u: "unique_ids g" and a: "artifacts_survive enc dec g"
    and out: "\<And>n. n \<in> set (nodes g) \<Longrightarrow> status n = Done \<Longrightarrow> node_output n \<noteq> None"
    and n: "get g i = Some n"
  shows "hydrate_assignment dec (apply_task_graph enc p g) i (content n) = assemble_input g i"
proof -
  let ?p = "apply_task_graph enc p g"
  have "List.map_filter (dep_section dec ?p) ds
      = map (\<lambda>n. tl (input_section n)) (filter is_done (List.map_filter (get g) ds))" for ds
    by (induction ds)
      (auto simp: dep_section_lowered [OF u a out] map_filter_simps split: option.splits)
  then have sec: "List.map_filter (dep_section dec ?p) (depends_on n)
      = map (\<lambda>n. tl (input_section n)) (done_upstream g n)" by (simp add: done_upstream_def)
  have hd: "nl @ tl (input_section m) = input_section m" for m
    by (simp add: input_section_def nl_def)
  have item: "find_item (plan_items ?p) i = Some (node_to_item p n)"
    using n by (simp add: find_item_apply del: apply_fields)
  show ?thesis
  proof (cases "done_upstream g n = []")
    case True
    then show ?thesis
      using n sec item by (simp add: hydrate_assignment_def upstream_context_def assemble_input_def Let_def
          del: apply_fields)
  next
    case False
    then have "depends_on n \<noteq> []" by (auto simp: done_upstream_def map_filter_simps)
    moreover have "nl @ join nl (map (\<lambda>n. tl (input_section n)) (done_upstream g n))
        = concat (map input_section (done_upstream g n))"
      using False by (simp add: sections_text hd o_def)
    ultimately show ?thesis
      using n sec item False
      by (simp add: hydrate_assignment_def upstream_context_def assemble_input_def Let_def del: apply_fields)
  qed
qed

end
