(* ===== verification/Dag_Identity.thy ===== *)
theory Dag_Identity
  imports Dag_Engine
begin

text \<open>
  What the engine never rewrites: the id, content, kind, parent, gate flag, priority and
  origin of a node. Operations only append nodes; the list of these fields grows at its end.
\<close>

type_synonym node_core =
  "string \<times> string \<times> node_kind \<times> string option \<times> bool \<times> u8 \<times> node_origin option"

definition core :: "task_node \<Rightarrow> node_core" where
  "core n = (nid n, content n, kind n, parent n, is_gate n, priority n, origin n)"

lemma core_eq_iff:
  "core m = core n \<longleftrightarrow> nid m = nid n \<and> content m = content n \<and> kind m = kind n
     \<and> parent m = parent n \<and> is_gate m = is_gate n \<and> priority m = priority n \<and> origin m = origin n"
  by (simp add: core_def)

definition core_extends :: "(task_node \<Rightarrow> bool) \<Rightarrow> task_graph \<Rightarrow> task_graph \<Rightarrow> bool" where
  "core_extends P g g' \<longleftrightarrow>
     (\<exists>ns. map core (nodes g') = map core (nodes g) @ map core ns \<and> list_all P ns)"

lemma core_extends_refl [intro]: "core_extends P g g"
  unfolding core_extends_def by (rule exI [of _ "[]"]) simp

lemma core_extends_trans [trans]:
  assumes "core_extends P g g1" "core_extends P g1 g2"
  shows "core_extends P g g2"
proof -
  from assms obtain ns ms where "map core (nodes g1) = map core (nodes g) @ map core ns" "list_all P ns"
    "map core (nodes g2) = map core (nodes g1) @ map core ms" "list_all P ms"
    unfolding core_extends_def by blast
  then show ?thesis unfolding core_extends_def by (intro exI [of _ "ns @ ms"]) simp
qed

lemma core_extends_modify:
  assumes "\<And>n. core (f n) = core n"
  shows "core_extends P g (modify g i f)"
proof -
  have "map core (update_first i f ns) = map core ns" for ns
    using assms by (induction ns) auto
  then show ?thesis
    unfolding core_extends_def by (intro exI [of _ "[]"]) (simp add: modify_def)
qed

lemma core_extends_append: "list_all P ns \<Longrightarrow> core_extends P g (append_nodes g ns)"
  unfolding core_extends_def by (intro exI [of _ ns]) (simp add: append_nodes_def)

lemma core_extends_push: "P n \<Longrightarrow> core_extends P g (push g n)"
  using core_extends_append [of P "[n]" g] by (simp add: append_nodes_def push_def)

lemma core_updates [simp]:
  "core (n\<lparr>status := s\<rparr>) = core n" "core (n\<lparr>owner := w\<rparr>) = core n"
  "core (n\<lparr>node_output := a\<rparr>) = core n" "core (n\<lparr>depends_on := ds\<rparr>) = core n"
  "core (compose_parent ds n) = core n" "core (reopen_gate ds n) = core n"
  "core (add_deps ds n) = core n" "core (widen_gate rs n) = core n"
  by (simp_all add: core_def compose_parent_def reopen_gate_def add_deps_def widen_gate_def Let_def)

section \<open>New nodes\<close>

text \<open>What an event brings in: nodes for its specs, and gates of priority 0.\<close>

fun event_specs :: "dag_event \<Rightarrow> node_spec list" where
  "event_specs (EvSeed ss) = ss"
| "event_specs (EvExpand _ _ ss) = ss"
| "event_specs (EvInject _ _ ss) = ss"
| "event_specs _ = []"

definition brought_by :: "node_spec list \<Rightarrow> task_node \<Rightarrow> bool" where
  "brought_by ss n \<longleftrightarrow>
     (is_gate n \<and> priority n = 0) \<or>
     (\<not> is_gate n \<and> (\<exists>s \<in> set ss. spec_id s = Some (nid n) \<and> content n = spec_content s
        \<and> kind n = spec_kind s \<and> priority n = spec_priority s))"

lemma brought_gate: "brought_by ss (gate_node i c k par deps)"
  by (simp add: brought_by_def gate_node_def)

lemma brought_specs:
  assumes "\<forall>s \<in> set cs. \<exists>i. spec_id s = Some i" "set cs \<subseteq> set ss"
  shows "list_all (brought_by ss) (spec_nodes cs par orig)"
  using assms by (fastforce simp: list_all_iff brought_by_def spec_nodes_def)

lemma fresh_spec_ids_Some:
  "fresh_spec_ids g opn seen ss = Inr cids \<Longrightarrow> s \<in> set ss \<Longrightarrow> \<exists>i. spec_id s = Some i"
proof (induction ss arbitrary: seen cids)
  case (Cons t ss)
  then obtain i rest where "spec_id t = Some i" "fresh_spec_ids g opn (insert i seen) ss = Inr rest"
    by (auto simp: and_then_ok_iff validated_spec_id_ok split: if_splits)
  then show ?case using Cons by auto
qed simp

lemma core_extends_gate_if_deep: "core_extends (brought_by ss) g (gate_if_deep g)"
  using core_extends_modify [of "widen_gate _"] core_extends_push [of "brought_by ss", OF brought_gate]
  by (auto simp: gate_if_deep_def ensure_root_gate_def Let_def split: option.split)

lemma core_extends_seed:
  assumes "seed g specs = Inr g'"
  shows "core_extends (brought_by specs) g g'"
proof -
  from assms obtain us where us: "seed_collapse specs [] = Inr us"
    and ids: "\<forall>s \<in> set us. \<exists>i. spec_id s = Some i"
    and g': "g' = gate_if_deep (append_nodes g (seed_news g us))"
    by (rule seed_ok) blast
  have "set us \<subseteq> set specs" using seed_collapse_ok [OF us] by auto
  with ids have "list_all (brought_by specs) (seed_news g us)"
    unfolding seed_news_def by (intro brought_specs) auto
  from core_extends_trans [OF core_extends_append [OF this] core_extends_gate_if_deep]
  show ?thesis unfolding g' .
qed

lemma core_extends_expand:
  assumes "expand_node g i actor cs = Inr (g', out)"
  shows "core_extends (brought_by cs) g g'"
proof -
  from assms obtain n where "get g i = Some n" and g': "g' = modify (append_nodes g (expand_news g i (kind n) cs)) i
      (compose_parent (map nid (expand_news g i (kind n) cs)))"
    by (rule expand_node_ok)
  have "\<exists>i. spec_id s = Some i" if "s \<in> set cs" for s
    using assms that fresh_spec_ids_Some unfolding expand_node_def and_then_ok_iff by blast
  then have "list_all (brought_by cs) (expand_news g i (kind n) cs)"
    using brought_specs [of cs cs] brought_gate by (auto simp: expand_news_def)
  from core_extends_trans [OF core_extends_append [OF this] core_extends_modify]
  show ?thesis unfolding g' by simp
qed

lemma core_extends_inject:
  assumes "inject_from_gate g i actor ss = Inr (g', new_ids)"
  shows "core_extends (brought_by ss) g g'"
proof -
  obtain par where g': "g' = inject_result g i par ss"
    using assms by (rule inject_from_gate_ok) blast
  have "\<exists>i. spec_id s = Some i" if "s \<in> set ss" for s
    using assms that fresh_spec_ids_Some unfolding inject_from_gate_def and_then_ok_iff by blast
  then have new: "core_extends (brought_by ss) g (append_nodes g (spec_nodes ss par OGap))"
    using brought_specs [of ss ss] by (intro core_extends_append) auto
  have reopen: "core_extends (brought_by ss) (append_nodes g (spec_nodes ss par OGap))
      (modify (append_nodes g (spec_nodes ss par OGap)) i (reopen_gate (spec_ids ss)))"
    by (rule core_extends_modify) simp
  have parent: "core_extends (brought_by ss) h (modify h p (add_deps (spec_ids ss)))" for h p
    by (rule core_extends_modify) simp
  show ?thesis
    unfolding g' inject_result_def Let_def
    using core_extends_trans [OF core_extends_trans [OF new reopen] parent]
      core_extends_trans [OF new reopen]
    by (cases par) simp_all
qed

lemma step_core_extends:
  assumes "dag_step g e g'"
  shows "core_extends (brought_by (event_specs e)) g g'"
  using assms
proof (induction rule: dag_step.induct)
  case (step_seed g specs g')
  then show ?case by (simp add: core_extends_seed)
next
  case (step_expand g i actor cs g' out)
  then show ?case by (simp add: core_extends_expand)
next
  case (step_inject g i actor ss g' new_ids)
  then show ?case by (simp add: core_extends_inject)
qed (auto simp: dispatch_True complete_node_ok fail_node_ok requeue_failed_ok intro!: core_extends_modify)

text \<open>The nodes of a graph persist, in place, with their core.\<close>

lemma core_extends_get:
  assumes "core_extends P g g'" "get g i = Some n"
  shows "\<exists>n'. get g' i = Some n' \<and> core n' = core n"
proof -
  obtain ns where ns: "map core (nodes g') = map core (nodes g) @ map core ns"
    using assms(1) unfolding core_extends_def by blast
  have key: "\<exists>n'. find (\<lambda>n. nid n = i) ms = Some n' \<and> core n' = core n"
    if "map core ms = map core xs @ cs" "find (\<lambda>n. nid n = i) xs = Some n" for ms xs cs
    using that
  proof (induction xs arbitrary: ms)
    case (Cons x xs)
    then obtain m ms' where m: "ms = m # ms'" "core m = core x" "map core ms' = map core xs @ cs" by auto
    then have "nid m = nid x" by (simp add: core_eq_iff)
    then show ?case using Cons.IH [OF m(3)] Cons.prems(2) m by auto
  qed simp
  show ?thesis using key [OF ns] assms(2) by (simp add: get_def)
qed

lemma core_extends_new:
  assumes "core_extends P g g'" "n' \<in> set (nodes g')" "\<And>m n. core m = core n \<Longrightarrow> P m = P n"
  shows "(\<exists>n \<in> set (nodes g). core n = core n') \<or> P n'"
proof -
  obtain ns where ns: "map core (nodes g') = map core (nodes g) @ map core ns" "list_all P ns"
    using assms(1) unfolding core_extends_def by blast
  have "core n' \<in> set (map core (nodes g'))" using assms(2) by simp
  then consider n where "n \<in> set (nodes g)" "core n = core n'" | n where "n \<in> set ns" "core n = core n'"
    unfolding ns(1) by fastforce
  then show ?thesis
  proof cases
    case 2
    then have "P n" using ns(2) by (simp add: list_all_iff)
    then show ?thesis using assms(3) [OF 2(2)] by simp
  qed blast
qed

lemma brought_by_core: "core m = core n \<Longrightarrow> brought_by ss m = brought_by ss n"
  by (auto simp: brought_by_def core_eq_iff)

end
