(* ===== verification/Live_Refinement.thy ===== *)
theory Live_Refinement
  imports Live_Graph Bridge_Facts Dag_Identity
begin

text \<open>
  The live handlers refine the engine: the plans they keep lift to graphs the engine can
  reach. What is needed of \<open>serde_json\<close> is that an artifact survives encoding; what is
  needed of the clients is that they use the three priorities a plan can store and do not
  deepen a plan that already has items.
\<close>

section \<open>Hypotheses\<close>

definition json_law :: "(handoff_artifact \<Rightarrow> string option) \<Rightarrow> (string \<Rightarrow> handoff_artifact option) \<Rightarrow> bool" where
  "json_law enc dec \<longleftrightarrow> (\<forall>a. Option.bind (enc a) dec = Some a)"

lemma json_law_survive: "json_law enc dec \<Longrightarrow> artifacts_survive enc dec g"
  by (simp add: json_law_def artifacts_survive_def)

definition storable :: "node_spec \<Rightarrow> bool" where
  "storable s \<longleftrightarrow> spec_priority s \<le> 2"

definition same_rigor :: "versioned_plan \<Rightarrow> string option \<Rightarrow> bool" where
  "same_rigor p r \<longleftrightarrow>
     (case r of None \<Rightarrow> True | Some m \<Rightarrow> plan_items p = [] \<or> parse_mode m = parse_mode (plan_mode p))"

section \<open>Priorities\<close>

text \<open>A plan stores three priorities; a rank above 2 comes back as \<open>medium\<close>.\<close>

lemma priority_word_exact: "priority_rank (priority_string r) = r \<longleftrightarrow> r \<le> 2"
proof -
  have "r = 1" if "r \<le> 2" "r \<noteq> 0" "r \<noteq> 2" for r :: u8
    using that by (simp add: word_le_nat_alt word_unat_eq_iff)
  then show ?thesis by (auto simp: priority_string_def priority_rank_def)
qed

lemma storable_brought:
  assumes "list_all storable ss" "brought_by ss n"
  shows "priority n \<le> 2"
  using assms by (auto simp: brought_by_def list_all_iff storable_def)

lemma distinct_items_lift: "distinct (map pi_id (plan_items p)) \<longleftrightarrow> unique_ids (to_task_graph dec p)"
  by (simp add: unique_ids_def to_task_graph_eq item_to_node_def Let_def o_def)

lemma prior_itemD: "prior_item p i = Some it \<Longrightarrow> it \<in> set (plan_items p) \<and> pi_id it = i"
  unfolding prior_item_def by (drule find_item_SomeD) simp

lemma prior_item_None: "prior_item p i = None \<longleftrightarrow> i \<notin> item_ids (plan_items p)"
  by (simp add: prior_item_def find_item_None item_ids_def)

lemma lift_item_in:
  "it \<in> set (plan_items p) \<Longrightarrow> item_to_node dec p it \<in> set (nodes (to_task_graph dec p))"
  by (simp add: to_task_graph_eq)

lemma lift_item_fields [simp]:
  "nid (item_to_node dec p it) = pi_id it"
  "priority (item_to_node dec p it) = priority_rank (pi_priority it)"
  by (simp_all add: item_to_node_def Let_def)

lemma priorities_survive_step:
  assumes u: "unique_ids (to_task_graph dec p)" "unique_ids g'"
    and ext: "core_extends (brought_by ss) (to_task_graph dec p) g'" and ss: "list_all storable ss"
  shows "priorities_survive p g'"
  unfolding priorities_survive_def
proof
  fix n assume n: "n \<in> set (nodes g')"
  show "priority_rank (pi_priority (node_to_item p n)) = priority n"
  proof (cases "prior_item p (nid n)")
    case (Some it)
    note it = prior_itemD [OF Some]
    have "get (to_task_graph dec p) (nid n) = Some (item_to_node dec p it)"
      using get_Some_iff [OF u(1)] lift_item_in it by simp
    from core_extends_get [OF ext this] obtain n' where n': "get g' (nid n) = Some n'"
      "core n' = core (item_to_node dec p it)" by blast
    then have "n' = n" using mem_nodes_get [OF u(2) n] by simp
    then show ?thesis using n'(2) Some by (simp add: core_eq_iff node_to_item_def Let_def)
  next
    case None
    have "nid m \<noteq> nid n" if "m \<in> set (nodes (to_task_graph dec p))" for m
      using that None unfolding prior_item_None by (force simp: to_task_graph_eq item_ids_def)
    then have "brought_by ss n"
      using core_extends_new [OF ext n brought_by_core] unfolding core_eq_iff by blast
    then have "priority n \<le> 2" by (rule storable_brought [OF ss])
    then show ?thesis using None by (simp add: node_to_item_def Let_def priority_word_exact)
  qed
qed

text \<open>Lowering the next graph and lifting the plan again gives that graph.\<close>

lemma lower_lift_step:
  assumes "json_law enc dec" "reachable m (to_task_graph dec p)" "reachable m g'"
    "core_extends (brought_by ss) (to_task_graph dec p) g'" "list_all storable ss"
  shows "to_task_graph dec (apply_task_graph enc p g') = g'"
  using assms reachable_struct
  by (intro round_trip json_law_survive priorities_survive_step) (auto dest: struct_unique)

lemma lift_bump [simp]: "to_task_graph dec (bump_version p) = to_task_graph dec p"
  unfolding to_task_graph_eq by (simp add: bump_version_def item_to_node_def item_meta_def)

lemma lift_participants [simp]: "to_task_graph dec (p\<lparr>participants := ps\<rparr>) = to_task_graph dec p"
  unfolding to_task_graph_eq by (simp add: item_to_node_def item_meta_def)

lemma lift_mode: "to_task_graph dec (p\<lparr>plan_mode := r\<rparr>) = (to_task_graph dec p)\<lparr>mode := parse_mode r\<rparr>"
  unfolding to_task_graph_eq by (simp add: item_to_node_def item_meta_def)

lemma lift_empty: "plan_items p = [] \<Longrightarrow> to_task_graph dec p = new_graph (parse_mode (plan_mode p))"
  by (simp add: to_task_graph_eq new_graph_def)

section \<open>The operations on a plan\<close>

definition plan_ok :: "(string \<Rightarrow> handoff_artifact option) \<Rightarrow> versioned_plan \<Rightarrow> bool" where
  "plan_ok dec p \<longleftrightarrow> reachable (parse_mode (plan_mode p)) (to_task_graph dec p)"

lemma plan_okI: "reachable m (to_task_graph dec p) \<Longrightarrow> plan_ok dec p"
  using reachable_struct unfolding plan_ok_def by (fastforce simp: to_task_graph_eq)

lemma plan_ok_new: "plan_ok dec new_plan"
  by (simp add: plan_ok_def lift_empty new_plan_def reach_new)

lemma claim_step:
  "claim_queued_node_for_actor g i a = g
   \<or> dag_step g (EvDispatch i a) (claim_queued_node_for_actor g i a)"
proof (cases "snd (dispatch g i a)")
  case True
  then have "dispatch g i a = (fst (dispatch g i a), True)" by (metis prod.collapse)
  then have "dag_step g (EvDispatch i a) (fst (dispatch g i a))" by (rule step_dispatch)
  then show ?thesis by (simp add: claim_queued_node_for_actor_def Let_def)
next
  case False
  then have "fst (dispatch g i a) = g" by (auto simp: dispatch_def split: if_splits)
  then show ?thesis by (simp add: claim_queued_node_for_actor_def Let_def)
qed

lemma plan_ok_edit:
  assumes law: "json_law enc dec" and p: "plan_ok dec p" and ss: "list_all storable ss"
    and op: "\<And>g g'. operation g = Inr g' \<Longrightarrow> \<exists>e. dag_step g e g' \<and> event_specs e = ss"
  shows "plan_ok dec (fst (edit_plan enc dec operation what i session p))"
proof -
  let ?g = "to_task_graph dec p"
  let ?c = "claim_queued_node_for_actor ?g i session"
  let ?m = "parse_mode (plan_mode p)"
  have g: "reachable ?m ?g" using p by (simp add: plan_ok_def)
  have c: "reachable ?m ?c \<and> core_extends (brought_by ss) ?g ?c"
  proof (cases "?c = ?g")
    case True
    then show ?thesis using g by auto
  next
    case False
    then have d: "dag_step ?g (EvDispatch i session) ?c" using claim_step by blast
    have "core_extends (brought_by []) ?g ?c" using step_core_extends [OF d] by simp
    then have "core_extends (brought_by ss) ?g ?c"
      unfolding core_extends_def by (auto simp: brought_by_def elim!: list.pred_mono_strong)
    then show ?thesis using reach_step [OF g d] by blast
  qed
  show ?thesis
  proof (cases "operation ?c")
    case (Inl e)
    then show ?thesis using p by (simp add: edit_plan_def Let_def)
  next
    case (Inr g')
    from op [OF this] obtain e where e: "dag_step ?c e g'" "event_specs e = ss" by blast
    have g': "reachable ?m g'" using reach_step [OF _ e(1)] c by blast
    have "core_extends (brought_by ss) ?g g'"
      using core_extends_trans c step_core_extends [OF e(1)] e(2) by blast
    from lower_lift_step [OF law g g' this ss] have "to_task_graph dec (apply_task_graph enc p g') = g'" .
    then have "plan_ok dec (bump_version (apply_task_graph enc p g'))"
      using g' by (intro plan_okI) simp
    then show ?thesis using Inr by (simp add: edit_plan_def Let_def)
  qed
qed

lemma plan_ok_seed:
  assumes law: "json_law enc dec" and p: "plan_ok dec p" and ss: "list_all storable specs"
    and r: "same_rigor p r"
  shows "plan_ok dec (fst (seed_plan enc dec r session specs p))"
proof -
  let ?p1 = "case r of None \<Rightarrow> p | Some m \<Rightarrow> p\<lparr>plan_mode := m\<rparr>"
  let ?p2 = "?p1\<lparr>participants := finsert session (participants ?p1)\<rparr>"
  have p1: "plan_ok dec ?p1"
  proof (cases r)
    case (Some m)
    show ?thesis
    proof (cases "plan_items p = []")
      case True
      then show ?thesis using Some by (simp add: plan_ok_def lift_empty reach_new)
    next
      case False
      then have "parse_mode m = parse_mode (plan_mode p)" using r Some by (simp add: same_rigor_def)
      then have "to_task_graph dec ?p1 = to_task_graph dec p"
        using Some by (simp add: lift_mode) (simp add: to_task_graph_eq)
      then show ?thesis using p by (intro plan_okI) (simp add: plan_ok_def)
    qed
  qed (use p in simp)
  then have p2: "plan_ok dec ?p2" by (intro plan_okI) (simp add: plan_ok_def)
  then have g: "reachable (parse_mode (plan_mode ?p2)) (to_task_graph dec ?p2)" by (simp only: plan_ok_def)
  show ?thesis
  proof (cases "seed (to_task_graph dec ?p2) specs")
    case (Inl e)
    then show ?thesis using p p2 by (simp add: seed_plan_def Let_def)
  next
    case (Inr g')
    then have e: "dag_step (to_task_graph dec ?p2) (EvSeed specs) g'" by (rule step_seed)
    have g': "reachable (parse_mode (plan_mode ?p2)) g'" using reach_step [OF g e] .
    have "core_extends (brought_by specs) (to_task_graph dec ?p2) g'"
      using step_core_extends [OF e] by simp
    from lower_lift_step [OF law g g' this ss]
    have "plan_ok dec (bump_version (apply_task_graph enc ?p2 g'))"
      using g' by (intro plan_okI) simp
    then show ?thesis using Inr p p2 by (simp add: seed_plan_def Let_def)
  qed
qed

section \<open>The server\<close>

datatype graph_request =
    SeedRequest u64 string "string option" "wire_spec list"
  | ExpandRequest u64 string string "wire_spec list"
  | CompleteRequest u64 string string string
  | InjectRequest u64 string string "wire_spec list"

fun handle_request ::
  "(handoff_artifact \<Rightarrow> string option) \<Rightarrow> (string \<Rightarrow> handoff_artifact option) \<Rightarrow> (string \<Rightarrow> string)
    \<Rightarrow> graph_request \<Rightarrow> server_state \<Rightarrow> server_state \<times> server_effect list" where
  "handle_request enc dec je (SeedRequest req session m ws) s = handle_comm_seed_graph enc dec s req session m ws"
| "handle_request enc dec je (ExpandRequest req session i ws) s = handle_comm_expand_node enc dec s req session i ws"
| "handle_request enc dec je (CompleteRequest req session i json) s =
     handle_comm_complete_node enc dec je s req session i json"
| "handle_request enc dec je (InjectRequest req session i ws) s = handle_comm_inject_gap enc dec s req session i ws"

fun request_specs :: "graph_request \<Rightarrow> wire_spec list" where
  "request_specs (SeedRequest _ _ _ ws) = ws"
| "request_specs (ExpandRequest _ _ _ ws) = ws"
| "request_specs (InjectRequest _ _ _ ws) = ws"
| "request_specs (CompleteRequest _ _ _ _) = []"

fun request_keeps_rigor :: "server_state \<Rightarrow> graph_request \<Rightarrow> bool" where
  "request_keeps_rigor s (SeedRequest req session m ws) =
     (case swarm_id_for s session of
        None \<Rightarrow> True
      | Some swarm \<Rightarrow>
          same_rigor (unwrap_or (sv_plans s swarm) new_plan) (resolve_mode s session m))"
| "request_keeps_rigor s _ = True"

text \<open>
  The side conditions of the refinement. The server accepts more: priorities above 2, which
  a plan cannot store (\<open>large_priority_is_lost\<close>), and a deep seed of a light plan with items,
  whose nodes were made without gates; the engine has no counterpart of either.
\<close>

definition request_ok :: "server_state \<Rightarrow> graph_request \<Rightarrow> bool" where
  "request_ok s r \<longleftrightarrow>
     list_all (\<lambda>w. wire_priority w \<le> 2) (request_specs r) \<and> request_keeps_rigor s r"

text \<open>
  A server that started without plans; between the requests, members come and go and
  coordinators and efforts change in any way.
\<close>

inductive serving ::
  "(handoff_artifact \<Rightarrow> string option) \<Rightarrow> (string \<Rightarrow> handoff_artifact option) \<Rightarrow> (string \<Rightarrow> string)
    \<Rightarrow> server_state \<Rightarrow> bool" for enc dec je where
  serve_start: "sv_plans s = Map.empty \<Longrightarrow> serving enc dec je s"
| serve_request: "serving enc dec je s \<Longrightarrow> request_ok s r \<Longrightarrow>
    serving enc dec je (fst (handle_request enc dec je r s))"
| serve_membership: "serving enc dec je s \<Longrightarrow> sv_plans s' = sv_plans s \<Longrightarrow> serving enc dec je s'"

definition plans_ok :: "(string \<Rightarrow> handoff_artifact option) \<Rightarrow> server_state \<Rightarrow> bool" where
  "plans_ok dec s \<longleftrightarrow> (\<forall>swarm p. sv_plans s swarm = Some p \<longrightarrow> plan_ok dec p)"

lemma fst_settle:
  "fst (settle s req swarm session reason count r) = s\<lparr>sv_plans := (sv_plans s)(swarm \<mapsto> fst r)\<rparr>"
  by (simp add: settle_def Let_def split: sum.split)

lemma plans_ok_settle:
  "plans_ok dec s \<Longrightarrow> plan_ok dec (fst r) \<Longrightarrow> plans_ok dec (fst (settle s req swarm session reason count r))"
  by (simp add: plans_ok_def fst_settle)

lemma ensure_seeder_plans [simp]:
  "sv_plans (fst (ensure_seeder_can_coordinate s swarm session)) = sv_plans s"
  "sv_efforts (fst (ensure_seeder_can_coordinate s swarm session)) = sv_efforts s"
  by (auto simp: ensure_seeder_can_coordinate_def swap_coordinator_def promote_seeder_def set_role_def
      Let_def split: option.split)

lemma storable_wire:
  "list_all (\<lambda>w. wire_priority w \<le> 2) ws \<Longrightarrow> list_all storable (map spec_from_wire ws)"
  by (simp add: list_all_iff storable_def spec_from_wire_def)

lemma plan_of_ok: "plans_ok dec s \<Longrightarrow> plan_ok dec (unwrap_or (sv_plans s swarm) new_plan)"
  by (cases "sv_plans s swarm") (simp_all add: plan_ok_new plans_ok_def)

lemma plans_ok_edit_handler:
  "plans_ok dec s \<Longrightarrow> (\<And>p. plan_ok dec p \<Longrightarrow> plan_ok dec (fst (edit p)))
    \<Longrightarrow> plans_ok dec (fst (edit_handler s req session reason count edit swarm))"
  by (auto simp: edit_handler_def plans_ok_def fst_settle split: option.split)

lemma edit_ops_step:
  "expand_op i session cs g = Inr g' \<Longrightarrow> \<exists>e. dag_step g e g' \<and> event_specs e = cs"
  "inject_op i session cs g = Inr g' \<Longrightarrow> \<exists>e. dag_step g e g' \<and> event_specs e = cs"
  "complete_op i session a g = Inr g' \<Longrightarrow> \<exists>e. dag_step g e g' \<and> event_specs e = []"
  by (auto simp: expand_op_def inject_op_def complete_op_def and_then_ok_iff
      intro!: exI dest: step_expand step_inject step_complete)

lemma plans_ok_request:
  assumes law: "json_law enc dec" and s: "plans_ok dec s" and r: "request_ok s r"
  shows "plans_ok dec (fst (handle_request enc dec je r s))"
proof (cases r)
  case (SeedRequest req session m ws)
  let ?s1 = "\<lambda>swarm. fst (ensure_seeder_can_coordinate s swarm session)"
  have ok: "plans_ok dec (?s1 swarm)" for swarm using s by (simp add: plans_ok_def)
  have "resolve_mode (?s1 swarm) session m = resolve_mode s session m" for swarm
    by (cases m) (simp_all add: resolve_mode_def session_effort_def)
  then have "plan_ok dec (fst (seed_plan enc dec (resolve_mode (?s1 swarm) session m) session
      (map spec_from_wire ws) (unwrap_or (sv_plans (?s1 swarm) swarm) new_plan)))"
    if "swarm_id_for s session = Some swarm" for swarm
    using r SeedRequest that plan_of_ok [OF s, of swarm]
    by (intro plan_ok_seed [OF law]) (simp_all add: request_ok_def storable_wire)
  then show ?thesis
    using s ok SeedRequest by (auto simp: handle_comm_seed_graph_def Let_def
        intro!: plans_ok_settle split: option.split)
next
  case (ExpandRequest req session i ws)
  then have "list_all storable (map spec_from_wire ws)" using r storable_wire by (simp add: request_ok_def)
  then show ?thesis
    using s ExpandRequest plan_ok_edit [OF law _ _ edit_ops_step(1)]
    by (auto simp: handle_comm_expand_node_def Let_def intro!: plans_ok_edit_handler split: option.split)
next
  case (CompleteRequest req session i json)
  then show ?thesis
    using s CompleteRequest plan_ok_edit [OF law _ _ edit_ops_step(3)]
    by (auto simp: handle_comm_complete_node_def Let_def intro!: plans_ok_edit_handler split: option.split)
next
  case (InjectRequest req session i ws)
  then have "list_all storable (map spec_from_wire ws)" using r storable_wire by (simp add: request_ok_def)
  then show ?thesis
    using s InjectRequest plan_ok_edit [OF law _ _ edit_ops_step(2)]
    by (auto simp: handle_comm_inject_gap_def Let_def intro!: plans_ok_edit_handler split: option.split)
qed

lemma serving_plans_ok: "serving enc dec je s \<Longrightarrow> json_law enc dec \<Longrightarrow> plans_ok dec s"
proof (induction rule: serving.induct)
  case (serve_start s)
  then show ?case by (simp add: plans_ok_def)
next
  case (serve_request s r)
  then show ?case by (intro plans_ok_request) auto
next
  case (serve_membership s s')
  then show ?case by (simp add: plans_ok_def)
qed

end
