(* ===== verification/Json_Demo.thy ===== *)
theory Json_Demo
  imports Live_Refinement
begin

text \<open>
  A concrete artifact encoding that satisfies the law asked of \<open>serde_json\<close>: strings are
  packed with an escape character, lists of strings by packing again.
\<close>

fun pack1 :: "string \<Rightarrow> string" where
  "pack1 [] = [CHR ''1'']"
| "pack1 (c # cs) = CHR ''0'' # c # pack1 cs"

definition pack :: "string list \<Rightarrow> string" where
  "pack ss = concat (map pack1 ss)"

fun unpack_acc :: "string \<Rightarrow> string \<Rightarrow> string list" where
  "unpack_acc cur [] = []"
| "unpack_acc cur (c # cs) =
     (if c = CHR ''1'' then rev cur # unpack_acc [] cs
      else case cs of [] \<Rightarrow> [] | d # ds \<Rightarrow> unpack_acc (d # cur) ds)"

definition unpack :: "string \<Rightarrow> string list" where
  "unpack s = unpack_acc [] s"

lemma unpack_pack1: "unpack_acc cur (pack1 s @ r) = (rev cur @ s) # unpack_acc [] r"
  by (induction s arbitrary: cur) auto

lemma unpack_pack [simp]: "unpack (pack ss) = ss"
proof -
  have "unpack_acc [] (concat (map pack1 ss)) = ss"
    by (induction ss) (simp_all add: unpack_pack1)
  then show ?thesis by (simp add: unpack_def pack_def)
qed

fun option_list :: "'a option \<Rightarrow> 'a list" where
  "option_list None = []"
| "option_list (Some x) = [x]"

fun list_option :: "'a list \<Rightarrow> 'a option" where
  "list_option [] = None"
| "list_option (x # _) = Some x"

lemma list_option_option_list [simp]: "list_option (option_list x) = x"
  by (cases x) simp_all

definition demo_enc :: "handoff_artifact \<Rightarrow> string option" where
  "demo_enc a = Some (pack
     [findings a, pack (evidence a), pack (edge_cases_considered a), pack (option_list (validation a)),
      pack (open_questions a), pack (option_list (confidence a)), pack (what_i_did_not_check a)])"

definition demo_dec :: "string \<Rightarrow> handoff_artifact option" where
  "demo_dec s =
     (case unpack s of
        [f, ev, ec, v, oq, c, w] \<Rightarrow>
          Some \<lparr>findings = f, evidence = unpack ev, edge_cases_considered = unpack ec,
                validation = list_option (unpack v), open_questions = unpack oq,
                confidence = list_option (unpack c), what_i_did_not_check = unpack w\<rparr>
      | _ \<Rightarrow> None)"

lemma demo_json_law: "json_law demo_enc demo_dec"
  by (simp add: json_law_def demo_enc_def demo_dec_def)

section \<open>A server that drives a deep plan to its end\<close>

definition demo_member :: swarm_member where
  "demo_member =
     \<lparr>sm_tx_closed = False, sm_swarm_id = Some ''sw'', sm_swarm_enabled = True, sm_status = ''ready'',
      sm_detail = None, sm_task_label = None, sm_friendly_name = Some ''fox'',
      sm_report_back_to = None, sm_latest_report = None, sm_role = ''agent'', sm_is_headless = False\<rparr>"

definition demo_server :: server_state where
  "demo_server =
     \<lparr>sv_members = [''s1'' \<mapsto> demo_member], sv_plans = Map.empty, sv_coordinators = Map.empty,
      sv_efforts = Map.empty\<rparr>"

definition demo_handle :: "graph_request \<Rightarrow> server_state \<Rightarrow> server_state" where
  "demo_handle r s = fst (handle_request demo_enc demo_dec (\<lambda>_. ''bad'') r s)"

definition demo_wire :: "string \<Rightarrow> wire_spec" where
  "demo_wire i = \<lparr>wire_id = i, wire_content = i, wire_kind = None, wire_depends_on = [], wire_priority = 0\<rparr>"

definition demo_json :: "string \<Rightarrow> string" where
  "demo_json f = unwrap_or (demo_enc (default_artifact
     \<lparr>findings := f, confidence := Some ''high'', what_i_did_not_check := [''x'']\<rparr>)) []"

definition demo_requests :: "graph_request list" where
  "demo_requests =
     [SeedRequest 1 ''s1'' (Some ''deep'') [demo_wire ''a''],
      CompleteRequest 2 ''s1'' ''a'' (demo_json ''done''),
      CompleteRequest 3 ''s1'' ''plan::gate'' (demo_json ''a ok'')]"

definition demo_served :: server_state where
  "demo_served = fold demo_handle demo_requests demo_server"

lemma demo_served_items:
  "map_option (\<lambda>p. (plan_mode p, map (\<lambda>i. (pi_id i, pi_status i, meta_is_gate (item_meta p (pi_id i)),
       meta_parent (item_meta p (pi_id i)))) (plan_items p))) (sv_plans demo_served ''sw'')
   = Some (''deep'', [(''a'', ''completed'', False, None), (''plan::gate'', ''completed'', True, None)])"
  by code_simp

lemma demo_serving: "serving demo_enc demo_dec (\<lambda>_. ''bad'') demo_served"
proof -
  have seed: "request_ok demo_server (SeedRequest 1 ''s1'' (Some ''deep'') [demo_wire ''a''])"
    by (simp add: request_ok_def demo_wire_def swarm_id_for_def demo_server_def demo_member_def
        same_rigor_def resolve_mode_def new_plan_def)
  have other: "request_ok s (CompleteRequest n q i j)" for s n q i j
    by (simp add: request_ok_def)
  have "serving demo_enc demo_dec (\<lambda>_. ''bad'') demo_server"
    by (rule serve_start) (simp add: demo_server_def)
  from serve_request [OF this seed] show ?thesis
    by (simp only: demo_served_def demo_requests_def demo_handle_def fold_simps)
      (rule serve_request [OF serve_request [OF _ other] other])
qed

end
