(* ===== verification/Live_Election.thy ===== *)
theory Live_Election
  imports Live_Graph
begin

text \<open>
  Concurrent seeders of one swarm (\<open>ensure_seeder_can_coordinate\<close> in
  \<open>crates/next-code-app-core/src/server/comm_graph.rs\<close>). Each seeder runs the four phases of
  the election; the locks make a phase atomic, and phases of different seeders interleave.
\<close>

datatype seeder_phase =
    NotStarted
  | HasRead "string option"
  | FoundDead "string option"
  | Swapped "string option"
  | Returned bool

record election =
  el_server :: server_state
  el_phase :: "string \<Rightarrow> seeder_phase"

inductive elect_step :: "string \<Rightarrow> string \<Rightarrow> election \<Rightarrow> election \<Rightarrow> bool" for swarm where
  el_read_self: "el_phase e q = NotStarted \<Longrightarrow> read_coordinator (el_server e) swarm = Some q \<Longrightarrow>
    elect_step swarm q e (e\<lparr>el_phase := (el_phase e)(q := Returned True)\<rparr>)"
| el_read: "el_phase e q = NotStarted \<Longrightarrow> read_coordinator (el_server e) swarm = c \<Longrightarrow> c \<noteq> Some q \<Longrightarrow>
    elect_step swarm q e (e\<lparr>el_phase := (el_phase e)(q := HasRead c)\<rparr>)"
| el_live: "el_phase e q = HasRead c \<Longrightarrow> coordinator_is_live (el_server e) c \<Longrightarrow>
    elect_step swarm q e (e\<lparr>el_phase := (el_phase e)(q := Returned False)\<rparr>)"
| el_dead: "el_phase e q = HasRead c \<Longrightarrow> \<not> coordinator_is_live (el_server e) c \<Longrightarrow>
    elect_step swarm q e (e\<lparr>el_phase := (el_phase e)(q := FoundDead c)\<rparr>)"
| el_lost: "el_phase e q = FoundDead c \<Longrightarrow> swap_coordinator (el_server e) swarm q c = (s, Inl b) \<Longrightarrow>
    elect_step swarm q e \<lparr>el_server = s, el_phase = (el_phase e)(q := Returned b)\<rparr>"
| el_won: "el_phase e q = FoundDead c \<Longrightarrow> swap_coordinator (el_server e) swarm q c = (s, Inr prior) \<Longrightarrow>
    elect_step swarm q e \<lparr>el_server = s, el_phase = (el_phase e)(q := Swapped prior)\<rparr>"
| el_promote: "el_phase e q = Swapped prior \<Longrightarrow>
    elect_step swarm q e
      \<lparr>el_server = promote_seeder q prior (el_server e), el_phase = (el_phase e)(q := Returned True)\<rparr>"

inductive_cases elect_stepE: "elect_step swarm q e e'"

inductive elect_steps :: "string \<Rightarrow> string set \<Rightarrow> election \<Rightarrow> election \<Rightarrow> bool" for swarm Q where
  elect_refl: "elect_steps swarm Q e e"
| elect_more: "elect_steps swarm Q e e1 \<Longrightarrow> q \<in> Q \<Longrightarrow> elect_step swarm q e1 e2 \<Longrightarrow> elect_steps swarm Q e e2"

definition start_election :: "server_state \<Rightarrow> election" where
  "start_election s = \<lparr>el_server = s, el_phase = \<lambda>_. NotStarted\<rparr>"

section \<open>One seeder alone\<close>

text \<open>The phases of a single seeder compose to \<open>ensure_seeder_can_coordinate\<close>.\<close>

lemma alone_returns:
  "\<exists>e. elect_steps swarm {q} (start_election s) e
     \<and> el_server e = fst (ensure_seeder_can_coordinate s swarm q)
     \<and> el_phase e q = Returned (snd (ensure_seeder_can_coordinate s swarm q))"
proof -
  let ?c = "read_coordinator s swarm"
  let ?at = "\<lambda>s ph. \<lparr>el_server = s, el_phase = (\<lambda>_. NotStarted)(q := ph)\<rparr>"
  have more: "elect_steps swarm {q} (start_election s) e2"
    if "elect_steps swarm {q} (start_election s) e1" "elect_step swarm q e1 e2" for e1 e2
    using elect_more [OF that(1) _ that(2)] by simp
  show ?thesis
  proof (cases "?c = Some q")
    case True
    have "elect_step swarm q (start_election s) (?at s (Returned True))"
      using el_read_self [of "start_election s" q swarm] True by (simp add: start_election_def)
    then show ?thesis
      using more [OF elect_refl] True
      by (intro exI [of _ "?at s (Returned True)"]) (simp add: ensure_seeder_can_coordinate_def Let_def)
  next
    case c: False
    have "elect_step swarm q (start_election s) (?at s (HasRead ?c))"
      using el_read [of "start_election s" q swarm ?c] c by (simp add: start_election_def)
    then have r: "elect_steps swarm {q} (start_election s) (?at s (HasRead ?c))" by (rule more [OF elect_refl])
    show ?thesis
    proof (cases "coordinator_is_live s ?c")
      case True
      have "elect_step swarm q (?at s (HasRead ?c)) (?at s (Returned False))"
        using el_live [of "?at s (HasRead ?c)" q ?c swarm] True by simp
      then show ?thesis
        using more [OF r] True c
        by (intro exI [of _ "?at s (Returned False)"]) (simp add: ensure_seeder_can_coordinate_def Let_def)
    next
      case False
      let ?s1 = "s\<lparr>sv_coordinators := (sv_coordinators s)(swarm \<mapsto> q)\<rparr>"
      have "elect_step swarm q (?at s (HasRead ?c)) (?at s (FoundDead ?c))"
        using el_dead [of "?at s (HasRead ?c)" q ?c swarm] False by simp
      then have d: "elect_steps swarm {q} (start_election s) (?at s (FoundDead ?c))" by (rule more [OF r])
      have swap: "swap_coordinator s swarm q ?c = (?s1, Inr ?c)"
        by (simp add: swap_coordinator_def read_coordinator_def)
      have "elect_step swarm q (?at s (FoundDead ?c)) (?at ?s1 (Swapped ?c))"
        using el_won [of "?at s (FoundDead ?c)" q ?c swarm ?s1 ?c] swap by simp
      then have w: "elect_steps swarm {q} (start_election s) (?at ?s1 (Swapped ?c))" by (rule more [OF d])
      have "elect_step swarm q (?at ?s1 (Swapped ?c)) (?at (promote_seeder q ?c ?s1) (Returned True))"
        using el_promote [of "?at ?s1 (Swapped ?c)" q ?c swarm] by simp
      then show ?thesis
        using more [OF w] False c swap
        by (intro exI [of _ "?at (promote_seeder q ?c ?s1) (Returned True)"])
          (simp add: ensure_seeder_can_coordinate_def Let_def)
    qed
  qed
qed

section \<open>One winner\<close>

text \<open>A live driver: a member with an open channel that is not headless.\<close>

definition live_driver :: "server_state \<Rightarrow> string \<Rightarrow> bool" where
  "live_driver s q \<longleftrightarrow> (\<exists>m. sv_members s q = Some m \<and> \<not> sm_tx_closed m \<and> \<not> sm_is_headless m)"

lemma coordinator_live_iff: "coordinator_is_live s (Some c) \<longleftrightarrow> live_driver s c"
  by (auto simp: coordinator_is_live_def live_driver_def split: option.splits)

lemma coordinator_live_None [simp]: "\<not> coordinator_is_live s None"
  by (simp add: coordinator_is_live_def)

lemma live_driver_set_role [simp]: "live_driver (set_role p r s) q = live_driver s q"
  by (auto simp: live_driver_def set_role_def split: option.split)

lemma live_driver_coordinators [simp]: "live_driver (s\<lparr>sv_coordinators := c\<rparr>) q = live_driver s q"
  by (simp add: live_driver_def)

lemma set_role_coordinators [simp]: "sv_coordinators (set_role p r s) = sv_coordinators s"
  by (simp add: set_role_def split: option.split)

definition has_role :: "server_state \<Rightarrow> string \<Rightarrow> string \<Rightarrow> bool" where
  "has_role s q r \<longleftrightarrow> (\<exists>m. sv_members s q = Some m \<and> sm_role m = r)"

lemma has_role_set: "live_driver s q \<Longrightarrow> has_role (set_role q r s) q r"
  by (auto simp: has_role_def set_role_def live_driver_def)

lemma has_role_coordinators [simp]: "has_role (s\<lparr>sv_coordinators := c\<rparr>) q r = has_role s q r"
  by (simp add: has_role_def)

definition election_inv :: "string \<Rightarrow> string set \<Rightarrow> election \<Rightarrow> bool" where
  "election_inv swarm Q e \<longleftrightarrow>
     (\<forall>q \<in> Q. live_driver (el_server e) q) \<and>
     (case sv_coordinators (el_server e) swarm of
        None \<Rightarrow> \<forall>q. el_phase e q \<in> {NotStarted, HasRead None, FoundDead None}
      | Some w \<Rightarrow> w \<in> Q
          \<and> (el_phase e w = Swapped None
             \<or> el_phase e w = Returned True \<and> has_role (el_server e) w ''coordinator'')
          \<and> (\<forall>q. q \<noteq> w \<longrightarrow> el_phase e q
                \<in> {NotStarted, HasRead None, HasRead (Some w), FoundDead None, Returned False}))"

lemma election_inv_step:
  assumes "elect_step swarm q e e'" "q \<in> Q" "election_inv swarm Q e"
  shows "election_inv swarm Q e'"
proof (cases "sv_coordinators (el_server e) swarm")
  case None
  then have inv: "\<forall>q. el_phase e q \<in> {NotStarted, HasRead None, FoundDead None}"
    "\<forall>q \<in> Q. live_driver (el_server e) q" using assms(3) by (simp_all add: election_inv_def)
  have ph: "el_phase e q \<in> {NotStarted, HasRead None, FoundDead None}"
    and others: "\<forall>p. p \<noteq> q \<longrightarrow> el_phase e p \<in> {NotStarted, HasRead None, FoundDead None}"
    using inv(1) by blast+
  show ?thesis
    using assms(1)
    by (cases rule: elect_stepE)
      (use None inv(2) others ph assms(2) in
        \<open>auto simp: election_inv_def read_coordinator_def swap_coordinator_def split: if_splits\<close>)
next
  case (Some w)
  then have inv: "w \<in> Q" "\<forall>q \<in> Q. live_driver (el_server e) q"
    "el_phase e w = Swapped None \<or> el_phase e w = Returned True \<and> has_role (el_server e) w ''coordinator''"
    "\<And>q. q \<noteq> w \<Longrightarrow> el_phase e q
       \<in> {NotStarted, HasRead None, HasRead (Some w), FoundDead None, Returned False}"
    using assms(3) by (auto simp: election_inv_def)
  have live: "coordinator_is_live (el_server e) (Some w)"
    using inv(1,2) by (simp add: coordinator_live_iff)
  show ?thesis
  proof (cases "q = w")
    case True
    then show ?thesis
      using assms(1) inv(3)
      by (cases rule: elect_stepE)
        (use Some inv True in \<open>auto simp: election_inv_def promote_seeder_def has_role_set\<close>)
  next
    case False
    note ph = inv(4) [OF False]
    have others: "\<forall>p. p \<noteq> w \<longrightarrow> p \<noteq> q \<longrightarrow> el_phase e p
       \<in> {NotStarted, HasRead None, HasRead (Some w), FoundDead None, Returned False}"
      using inv(4) by blast
    show ?thesis
      using assms(1)
      by (cases rule: elect_stepE)
        (use Some inv(1-3) others ph False live in
          \<open>auto simp: election_inv_def read_coordinator_def swap_coordinator_def split: if_splits\<close>)
  qed
qed

lemma election_inv_steps:
  assumes "elect_steps swarm Q e e'" "election_inv swarm Q e"
  shows "election_inv swarm Q e'"
  using assms by (induction rule: elect_steps.induct) (auto intro: election_inv_step)

lemma election_inv_start:
  "sv_coordinators s swarm = None \<Longrightarrow> \<forall>q \<in> Q. live_driver s q \<Longrightarrow> election_inv swarm Q (start_election s)"
  by (simp add: election_inv_def start_election_def)

end
