(* ===== verification/Live_Properties.thy ===== *)
theory Live_Properties
  imports Json_Demo Live_Election Dag_Scenario
begin

text \<open>
  What the live plan and its handlers promise: they refine the engine, reject without a
  trace, elect one coordinator, and agree with the engine on queue and dataflow.
\<close>

text \<open>
  C12: Refinement: a server that starts without plans and handles seed, expand, complete and
  inject requests, in any order and from any sessions, keeps only plans that lift to graphs
  the engine can reach in the plan's mode, so every law of the engine holds of them. The
  requests use the priorities a plan can store (at most 2), no seed changes the rigor of a
  plan that has items, and artifacts survive the JSON encoding; members, coordinators and
  efforts change in any way in between. Other handlers that edit plans are not covered.
\<close>

theorem served_plans_refine_engine:
  assumes "json_law enc dec" "serving enc dec je s" "sv_plans s swarm = Some p"
  shows "reachable (parse_mode (plan_mode p)) (to_task_graph dec p)"
  using serving_plans_ok [OF assms(2,1)] assms(3) unfolding plans_ok_def plan_ok_def by blast

theorem served_plans_refine_engine_witness:
  "\<exists>p. sv_plans demo_served ''sw'' = Some p
     \<and> reachable (parse_mode (plan_mode p)) (to_task_graph demo_dec p)"
proof -
  obtain p where p: "sv_plans demo_served ''sw'' = Some p" using demo_served_items by auto
  from served_plans_refine_engine [OF demo_json_law demo_serving this] p show ?thesis by blast
qed

text \<open>
  A served deep plan is finished once its plan-wide gate is: every item is completed.
\<close>

theorem served_plan_done_after_audit:
  assumes law: "json_law enc dec" and s: "serving enc dec je s" and p: "sv_plans s swarm = Some p"
    and deep: "parse_mode (plan_mode p) = Deep"
    and h: "h \<in> set (plan_items p)" "meta_is_gate (item_meta p (pi_id h))"
      "meta_parent (item_meta p (pi_id h)) = None" "is_completed_status (pi_status h)"
  shows "\<forall>i \<in> set (plan_items p). is_completed_status (pi_status i)"
proof
  fix i assume i: "i \<in> set (plan_items p)"
  let ?g = "to_task_graph dec p"
  have R: "reachable (parse_mode (plan_mode p)) ?g"
    using serving_plans_ok [OF s law] p unfolding plans_ok_def plan_ok_def by blast
  then have u: "unique_ids ?g" using reachable_struct struct_unique by blast
  have done_iff: "status_from_plan x = Done \<longleftrightarrow> is_completed_status x" for x
    by (simp add: status_from_plan_def is_completed_status_def)
  have "get ?g (nid (item_to_node dec p h)) = Some (item_to_node dec p h)"
    using mem_nodes_get [OF u lift_item_in [OF h(1)]] .
  moreover have "root_gate (item_to_node dec p h)" "status (item_to_node dec p h) = Done"
    using h by (simp_all add: root_gate_def item_to_node_def Let_def done_iff)
  ultimately have "status (item_to_node dec p i) = Done"
    using done_root_gate_all [OF R] lift_item_in [OF i] by blast
  then show "is_completed_status (pi_status i)" by (simp add: item_to_node_def Let_def done_iff)
qed

theorem served_plan_done_after_audit_witness:
  "\<exists>p. sv_plans demo_served ''sw'' = Some p
     \<and> list_all (\<lambda>i. is_completed_status (pi_status i)) (plan_items p)"
proof -
  obtain p where p: "sv_plans demo_served ''sw'' = Some p" "plan_mode p = ''deep''"
    and items: "map (\<lambda>i. (pi_id i, pi_status i, meta_is_gate (item_meta p (pi_id i)),
       meta_parent (item_meta p (pi_id i)))) (plan_items p)
      = [(''a'', ''completed'', False, None), (''plan::gate'', ''completed'', True, None)]"
    using demo_served_items by auto
  have deep: "parse_mode (plan_mode p) = Deep" using p(2) by simp code_simp
  have "\<exists>h \<in> set (plan_items p). pi_status h = ''completed''
     \<and> meta_is_gate (item_meta p (pi_id h)) \<and> meta_parent (item_meta p (pi_id h)) = None"
    using items by (auto simp: map_eq_Cons_conv)
  then obtain h where h: "h \<in> set (plan_items p)" "pi_status h = ''completed''"
    "meta_is_gate (item_meta p (pi_id h))" "meta_parent (item_meta p (pi_id h)) = None"
    by blast
  have "\<forall>i \<in> set (plan_items p). is_completed_status (pi_status i)"
    by (rule served_plan_done_after_audit [OF demo_json_law demo_serving p(1) deep h(1,3,4)])
      (simp add: h(2) is_completed_status_def)
  then show ?thesis using p(1) by (auto simp: list_all_iff)
qed

text \<open>
  C13: A refused expansion, completion or injection leaves the server exactly as it was, the
  claim of the node included, and answers with one error; an accepted one changes only
  the plan of the caller's swarm, raises its version by one and is persisted and announced
  before it is acknowledged.
\<close>

theorem edit_requests_are_atomic:
  assumes "handle_request enc dec je r s = (s', effects)"
    and "r = ExpandRequest req session i ws \<or> r = InjectRequest req session i ws
      \<or> r = CompleteRequest req session i json"
  shows "(s' = s \<and> (\<exists>m. effects = [ReplyError req m])) \<or>
    (\<exists>swarm p p' reason n. swarm_id_for s session = Some swarm \<and> sv_plans s swarm = Some p
       \<and> s' = s\<lparr>sv_plans := (sv_plans s)(swarm \<mapsto> p')\<rparr> \<and> plan_version p' = plan_version p + 1
       \<and> effects = [PersistSwarm swarm, BroadcastPlan swarm reason,
           RecordPlanUpdate session (Option.bind (sv_members s session) sm_friendly_name) swarm n,
           ReplyDone req])"
proof -
  have edit: "(t = s \<and> (\<exists>m. es = [ReplyError req m])) \<or>
      (\<exists>p p'. sv_plans s swarm = Some p
       \<and> t = s\<lparr>sv_plans := (sv_plans s)(swarm \<mapsto> p')\<rparr> \<and> plan_version p' = plan_version p + 1
       \<and> es = [PersistSwarm swarm, BroadcastPlan swarm reason,
           RecordPlanUpdate session (Option.bind (sv_members s session) sm_friendly_name) swarm n,
           ReplyDone req])"
    if "edit_handler s req session reason n (edit_plan enc dec operation what i session) swarm = (t, es)"
    for t es reason n operation what swarm
  proof (cases "sv_plans s swarm")
    case None
    then show ?thesis using that by (auto simp: edit_handler_def)
  next
    case (Some p)
    then have "s\<lparr>sv_plans := (sv_plans s)(swarm \<mapsto> p)\<rparr> = s" by (simp add: fun_upd_idem)
    then show ?thesis
      using that Some
      by (auto simp: edit_handler_def settle_def edit_plan_def Let_def finalize_def bump_version_def
          split: sum.splits)
  qed
  show ?thesis
  proof (cases "swarm_id_for s session")
    case None
    then show ?thesis
      using assms by (auto simp: handle_comm_expand_node_def handle_comm_inject_gap_def handle_comm_complete_node_def)
  next
    case (Some swarm)
    then have "(s' = s \<and> (\<exists>m. effects = [ReplyError req m])) \<or> (\<exists>reason n operation what.
        edit_handler s req session reason n (edit_plan enc dec operation what i session) swarm = (s', effects))"
      using assms
      by (auto simp: handle_comm_expand_node_def handle_comm_inject_gap_def handle_comm_complete_node_def
          Let_def split: option.splits)
    then show ?thesis
    proof (elim disjE exE)
      fix reason n operation what
      assume "edit_handler s req session reason n (edit_plan enc dec operation what i session) swarm = (s', effects)"
      from edit [OF this] Some show ?thesis by auto
    qed auto
  qed
qed

theorem edit_requests_are_atomic_witness:
  "fst (handle_request demo_enc demo_dec (\<lambda>_. []) (ExpandRequest 7 ''s1'' ''a'' []) demo_server) = demo_server"
proof -
  obtain s' effects where r: "handle_request demo_enc demo_dec (\<lambda>_. []) (ExpandRequest 7 ''s1'' ''a'' []) demo_server
      = (s', effects)" by fastforce
  have "sv_plans demo_server swarm = None" for swarm by (simp add: demo_server_def)
  then show ?thesis
    using edit_requests_are_atomic [OF r disjI1 [OF refl]] r by auto
qed

text \<open>
  C14: Live drivers that race to seed a swarm without a coordinator elect at most one: if every
  seeder is live and not headless, then in every interleaving at most one is told that it coordinates, it is
  the coordinator on record, and its member record carries the role.
\<close>

theorem one_coordinator_elected:
  assumes "sv_coordinators s swarm = None" "\<forall>q \<in> Q. live_driver s q"
    and "elect_steps swarm Q (start_election s) e" "el_phase e w = Returned True"
  shows "sv_coordinators (el_server e) swarm = Some w \<and> has_role (el_server e) w ''coordinator''
    \<and> (\<forall>q. el_phase e q = Returned True \<longrightarrow> q = w)"
proof -
  have inv: "election_inv swarm Q e"
    using election_inv_steps [OF assms(3) election_inv_start [OF assms(1,2)]] .
  show ?thesis
  proof (cases "sv_coordinators (el_server e) swarm")
    case None
    then have "el_phase e w \<in> {NotStarted, HasRead None, FoundDead None}"
      using inv by (simp add: election_inv_def)
    then show ?thesis using assms(4) by auto
  next
    case (Some v)
    then have v: "el_phase e v = Swapped None
        \<or> el_phase e v = Returned True \<and> has_role (el_server e) v ''coordinator''"
      and other: "\<And>q. q \<noteq> v \<Longrightarrow> el_phase e q
        \<in> {NotStarted, HasRead None, HasRead (Some v), FoundDead None, Returned False}"
      using inv by (auto simp: election_inv_def)
    have u: "q = v" if "el_phase e q = Returned True" for q using other [of q] that by auto
    then have "w = v" using assms(4) by blast
    then show ?thesis using Some v u assms(4) by auto
  qed
qed

theorem one_coordinator_elected_witness:
  "sv_coordinators (fst (ensure_seeder_can_coordinate demo_server ''sw'' ''s1'')) ''sw'' = Some ''s1''"
proof -
  have win: "snd (ensure_seeder_can_coordinate demo_server ''sw'' ''s1'')"
    by (simp add: ensure_seeder_can_coordinate_def read_coordinator_def demo_server_def
        coordinator_is_live_def swap_coordinator_def)
  obtain e where e: "elect_steps ''sw'' {''s1''} (start_election demo_server) e"
    "el_server e = fst (ensure_seeder_can_coordinate demo_server ''sw'' ''s1'')"
    "el_phase e ''s1'' = Returned (snd (ensure_seeder_can_coordinate demo_server ''sw'' ''s1''))"
    using alone_returns by blast
  have "\<forall>q \<in> {''s1''}. live_driver demo_server q" "sv_coordinators demo_server ''sw'' = None"
    by (simp_all add: live_driver_def demo_server_def demo_member_def)
  from one_coordinator_elected [OF this(2,1) e(1)] e(2,3) win show ?thesis by simp
qed

text \<open>
  C15: Lowering a graph with unique ids into a plan and lifting it again gives the graph back,
  when artifacts survive the JSON encoding and priorities survive as words (a rank above 2
  does not, see \<open>large_priority_is_lost\<close>).
\<close>

theorem plan_round_trip:
  assumes "unique_ids g" "artifacts_survive enc dec g" "priorities_survive p g"
  shows "to_task_graph dec (apply_task_graph enc p g) = g"
  using round_trip [OF assms] .

theorem plan_round_trip_witness:
  "to_task_graph demo_dec (apply_task_graph demo_enc new_plan demo2) = demo2"
proof (rule plan_round_trip)
  show "unique_ids demo2" using demo_reachable(2) reachable_struct struct_unique by blast
  show "artifacts_survive demo_enc demo_dec demo2" using demo_json_law by (rule json_law_survive)
  show "priorities_survive new_plan demo2"
    by (simp add: priorities_survive_def demo_nodes node_to_item_def prior_item_def new_plan_def
        find_item_def priority_word_exact demo_a_done_def demo_a_def demo_root_gate_def demo_x_def
        demo_gate_done_def demo_gate_def gate_node_def new_spec_def)
qed

text \<open>
  C16: The two schedulers agree: in a lowered plan the live queue has the same items as the
  engine's ready set, and when the priorities of the graph survive as words (those up to 2
  do) it is that list, in order.
\<close>

theorem live_queue_is_engine_queue:
  assumes "reachable m g"
  shows "set (next_runnable_item_ids (plan_items (apply_task_graph enc p g)) None)
      = nid ` set (ready_nodes g)
    \<and> (priorities_survive p g \<longrightarrow>
        next_runnable_item_ids (plan_items (apply_task_graph enc p g)) None = map nid (ready_nodes g))"
proof -
  have u: "unique_ids g" and "acyclic (dep_rel g)"
    using reachable_struct [OF assms] struct_unique struct_acyclic by blast+
  then have c: "cycle_nodes g = []" by (simp add: cycle_nodes_Nil_iff)
  show ?thesis
    using lowered_ready [OF u c] lowered_queue [OF u c] by (simp add: set_next_runnable)
qed

theorem live_queue_is_engine_queue_witness:
  "set (next_runnable_item_ids (plan_items (apply_task_graph demo_enc new_plan demo2)) None)
     = nid ` set (ready_nodes demo2)"
  using live_queue_is_engine_queue [OF demo_reachable(2), of demo_enc new_plan] by blast

text \<open>
  The prompt of an assignment is the same on both paths: hydrating it from the plan's
  side map gives the input the engine assembles from the graph.
\<close>

theorem live_hydration_is_engine_input:
  assumes R: "reachable m g" and "json_law enc dec" "get g i = Some n"
  shows "hydrate_assignment dec (apply_task_graph enc p g) i (content n) = assemble_input g i"
proof -
  have u: "unique_ids g" using reachable_struct [OF R] struct_unique by blast
  have "node_output n \<noteq> None" if "n \<in> set (nodes g)" "status n = Done" for n
    using life_invD [OF reachable_life [OF R] mem_nodes_get [OF u that(1)]] that(2)
    by (auto simp: lawful_def)
  then show ?thesis by (rule hydrate_is_assemble [OF u json_law_survive [OF assms(2)] _ assms(3)])
qed

theorem live_hydration_is_engine_input_witness:
  "hydrate_assignment demo_dec (apply_task_graph demo_enc new_plan demo2) ''a'' (content demo_a_done)
     = assemble_input demo2 ''a''"
  by (rule live_hydration_is_engine_input [OF demo_reachable(2) demo_json_law demo_get(4)])

section \<open>Divergences\<close>

text \<open>A rank above 2 is stored as \<open>medium\<close> and comes back as 1: the order is lost.\<close>

lemma large_priority_is_lost: "priority_rank (priority_string 5) = 1 \<and> priority_rank (priority_string 2) = 2"
  by (simp add: priority_string_def priority_rank_def)

text \<open>A seed that is rejected still switches the mode of the plan.\<close>

lemma rejected_seed_switches_mode:
  assumes "\<not> downgrades_deep p m" "seed ((to_task_graph dec p)\<lparr>mode := parse_mode m\<rparr>) specs = Inl e"
  shows "plan_mode (fst (seed_plan enc dec (Some m) session specs p)) = m
    \<and> plan_version (fst (seed_plan enc dec (Some m) session specs p)) = plan_version p"
  using assms by (simp add: seed_plan_def Let_def lift_mode)

end
