(* ===== verification/Dag_Sim.thy ===== *)
theory Dag_Sim
  imports Dag_Engine
begin

text \<open>
  The deterministic simulator (\<open>crates/next-code-plan/src/dag/sim.rs\<close>): a driver that
  dispatches ready nodes to scripted workers until the graph is terminal or stalls. A
  worker is a closure with captured state \<open>'w\<close>, passed along explicitly; the loop is a
  \<open>partial_function\<close>, so that it returns is a theorem.
\<close>

datatype worker_action =
    ActComplete handoff_artifact
  | ActExpand "node_spec list"
  | ActInjectGap "node_spec list"
  | ActFail

type_synonym 'w worker = "'w \<Rightarrow> string \<Rightarrow> node_kind \<Rightarrow> string \<Rightarrow> worker_action \<times> 'w"

record sim_report =
  sim_steps :: nat
  sim_completed :: nat
  sim_failed :: nat
  sim_stalled :: bool

definition report :: "task_graph \<Rightarrow> nat \<Rightarrow> bool \<Rightarrow> sim_report" where
  "report g steps stalled =
     \<lparr>sim_steps = steps, sim_completed = length (filter is_done (nodes g)),
      sim_failed = length (filter (\<lambda>n. status n = Failed) (nodes g)), sim_stalled = stalled\<rparr>"

fun apply_action :: "task_graph \<Rightarrow> string \<Rightarrow> string \<Rightarrow> worker_action \<Rightarrow> dag_error + task_graph" where
  "apply_action g i name (ActComplete a) = complete_node g i name a"
| "apply_action g i name (ActExpand cs) = and_then (expand_node g i name cs) (\<lambda>r. ok (fst r))"
| "apply_action g i name (ActInjectGap ss) = and_then (inject_from_gate g i name ss) (\<lambda>r. ok (fst r))"
| "apply_action g i name ActFail = fail_node g i name"

definition worker_name :: "nat \<Rightarrow> nat \<Rightarrow> string" where
  "worker_name idx max_workers = ''w'' @ show_nat (idx mod max_workers)"

text \<open>One round over the ready nodes; an error of an operation ends the run.\<close>

fun run_batch ::
  "'w worker \<Rightarrow> nat \<Rightarrow> nat \<Rightarrow> (string \<times> node_kind) list \<Rightarrow> task_graph \<Rightarrow> 'w \<Rightarrow> nat
    \<Rightarrow> task_graph \<times> 'w \<times> nat \<times> (dag_error + unit)" where
  "run_batch worker mw idx [] g w steps = (g, w, steps, ok ())"
| "run_batch worker mw idx ((i, k) # rest) g w steps =
     (case dispatch g i (worker_name idx mw) of
        (g1, False) \<Rightarrow> run_batch worker mw (Suc idx) rest g1 w steps
      | (g1, True) \<Rightarrow>
          (case worker w i k (assemble_input g1 i) of
             (action, w1) \<Rightarrow>
               (case apply_action g1 i (worker_name idx mw) action of
                  Inl e \<Rightarrow> (g1, w1, steps, err e)
                | Inr g2 \<Rightarrow> run_batch worker mw (Suc idx) rest g2 w1 (Suc steps))))"

definition ready_batch :: "task_graph \<Rightarrow> nat \<Rightarrow> (string \<times> node_kind) list" where
  "ready_batch g mw = map (\<lambda>n. (nid n, kind n)) (take mw (ready_nodes g))"

definition failed_batch :: "task_graph \<times> 'w \<times> nat \<times> (dag_error + unit) \<Rightarrow> dag_error option" where
  "failed_batch r = (case snd (snd (snd r)) of Inl e \<Rightarrow> Some e | Inr _ \<Rightarrow> None)"

partial_function (option) run_loop ::
  "'w worker \<Rightarrow> nat \<Rightarrow> nat \<Rightarrow> task_graph \<Rightarrow> 'w \<Rightarrow> nat
    \<Rightarrow> (task_graph \<times> 'w \<times> (dag_error + sim_report)) option" where
  "run_loop worker mw ms g w steps =
     (if all_terminal g then Some (g, w, ok (report g steps False))
      else if ms \<le> steps then Some (g, w, ok (report g steps True))
      else if ready_batch g mw = [] then Some (g, w, ok (report g steps True))
      else
        let r = run_batch worker mw 0 (ready_batch g mw) g w steps
        in if failed_batch r \<noteq> None then Some (fst r, fst (snd r), err (the (failed_batch r)))
           else run_loop worker mw ms (fst r) (fst (snd r)) (fst (snd (snd r))))"

declare run_loop.simps [code]

definition run ::
  "'w worker \<Rightarrow> nat \<Rightarrow> nat \<Rightarrow> task_graph \<Rightarrow> 'w \<Rightarrow> (task_graph \<times> 'w \<times> (dag_error + sim_report)) option" where
  "run worker max_workers max_steps g w = run_loop worker max_workers max_steps g w 0"

section \<open>Convenience artifacts\<close>

definition deep_artifact :: "string \<Rightarrow> handoff_artifact" where
  "deep_artifact f =
     default_artifact\<lparr>findings := f,
       what_i_did_not_check := [''nothing material; covered the stated scope''],
       confidence := Some ''high''\<rparr>"

text \<open>The part of a line before the first \<open>(\<close> that follows a space.\<close>

definition before_paren :: "string \<Rightarrow> string" where
  "before_paren s = (case find_str s '' ('' of None \<Rightarrow> s | Some k \<Rightarrow> take k s)"

definition gate_pass_artifact :: "string \<Rightarrow> handoff_artifact" where
  "gate_pass_artifact input =
     (let audited = map before_paren (List.map_filter (strip_prefix ''## '') (lines input))
      in brief (if audited = [] then ''gate passed: no audited nodes in scope''
                else ''gate passed; audited each node: '' @ join '', '' audited @ ''. No gaps remain.''))"

section \<open>Every run is a run of the engine\<close>

text \<open>Nothing runs between two worker steps.\<close>

definition idle :: "task_graph \<Rightarrow> bool" where
  "idle g \<longleftrightarrow> (\<forall>i n. get g i = Some n \<longrightarrow> status n \<noteq> Running)"

lemma apply_action_step:
  assumes "apply_action g i name action = Inr g'"
  shows "\<exists>e. dag_step g e g'"
  using assms by (cases action)
    (auto simp: and_then_ok_iff intro: step_complete step_expand step_inject step_fail)

lemma apply_action_ran:
  assumes R: "reachable m g" and ok: "apply_action g i name action = Inr g'"
    and rest: "\<And>j n. j \<noteq> i \<Longrightarrow> get g j = Some n \<Longrightarrow> status n \<noteq> Running"
  shows "idle g'"
proof -
  have u: "unique_ids g" using reachable_struct [OF R] struct_unique by blast
  show ?thesis
  proof (cases action)
    case (ActComplete a)
    then show ?thesis using ok rest by (auto simp: complete_node_ok idle_def get_modify split: if_splits)
  next
    case ActFail
    then show ?thesis using ok rest by (auto simp: fail_node_ok idle_def get_modify split: if_splits)
  next
    case (ActExpand cs)
    then obtain out where e: "expand_node g i name cs = Inr (g', out)" using ok by (auto simp: and_then_ok_iff)
    from e obtain n where n: "get g i = Some n"
      and g': "g' = modify (append_nodes g (expand_news g i (kind n) cs)) i
        (compose_parent (map nid (expand_news g i (kind n) cs)))" by (rule expand_node_ok)
    have new: "status x = Queued" if "x \<in> set (expand_news g i (kind n) cs)" for x
      using that spec_nodes_fields by (auto simp: expand_news_def split: if_splits)
    show ?thesis
      unfolding idle_def g'
      using rest new by (auto simp: get_modify get_append split: if_splits option.splits dest!: find_SomeD)
  next
    case (ActInjectGap ss)
    then obtain out where e: "inject_from_gate g i name ss = Inr (g', out)" using ok by (auto simp: and_then_ok_iff)
    from e obtain par where g': "g' = inject_result g i par ss" by (rule inject_from_gate_ok)
    have new: "status x = Queued" if "x \<in> set (spec_nodes ss par OGap)" for x
      using that spec_nodes_fields by blast
    show ?thesis
      unfolding idle_def g' inject_result_def Let_def
      using rest new
      by (cases par) (auto simp: get_modify get_append split: if_splits option.splits dest!: find_SomeD)
  qed
qed

lemma dispatch_others:
  "dispatch g i name = (g', True) \<Longrightarrow> j \<noteq> i \<Longrightarrow> get g' j = get g j"
  by (auto simp: dispatch_True get_modify)

lemma dispatch_False: "dispatch g i name = (g', False) \<Longrightarrow> g' = g"
  by (auto simp: dispatch_def split: if_splits)

lemma run_batch_reachable:
  assumes "run_batch worker mw idx batch g w steps = (g', w', steps', res)" "reachable m g" "idle g"
  shows "reachable m g' \<and> (res = Inr () \<longrightarrow> idle g') \<and> steps \<le> steps' \<and> steps' \<le> steps + length batch"
  using assms
proof (induction worker mw idx batch g w steps rule: run_batch.induct)
  case (1 worker mw idx g w steps)
  then show ?case by auto
next
  case (2 worker mw idx i k rest g w steps)
  let ?name = "worker_name idx mw"
  obtain g1 b where d: "dispatch g i ?name = (g1, b)" by fastforce
  show ?case
  proof (cases b)
    case False
    then have "g1 = g" using d by (intro dispatch_False) simp
    then show ?thesis using 2(2) [OF d [symmetric]] 2(3-5) d False by fastforce
  next
    case True
    have d1: "dispatch g i ?name = (g1, True)" using d True by simp
    have R1: "reachable m g1" using reach_step [OF 2(4) step_dispatch [OF d1]] .
    obtain action w1 where a: "worker w i k (assemble_input g1 i) = (action, w1)" by fastforce
    show ?thesis
    proof (cases "apply_action g1 i ?name action")
      case (Inl e)
      then show ?thesis using 2(3) d1 a R1 by auto
    next
      case (Inr g2)
      obtain e where "dag_step g1 e g2" using apply_action_step [OF Inr] by blast
      then have R2: "reachable m g2" using reach_step R1 by blast
      have "idle g2"
        using 2(5) dispatch_others [OF d1] by (intro apply_action_ran [OF R1 Inr]) (auto simp: idle_def)
      then show ?thesis
        using 2(1) [OF d1 [symmetric] refl a [symmetric] Inr] 2(3) d1 a Inr R2 by fastforce
    qed
  qed
qed

lemma run_batch_progress:
  assumes "run_batch worker mw idx batch g w steps = (g', w', steps', Inr ())"
    "reachable m g" "idle g" "batch = (nid n, k) # rest" "n \<in> set (ready_nodes g)"
  shows "steps < steps'"
proof -
  have u: "unique_ids g" using reachable_struct [OF assms(2)] struct_unique by blast
  have n: "n \<in> set (nodes g)" "status n = Queued" "deps_satisfied g n"
    using assms(5) by (auto simp: ready_nodes_def)
  then have "dispatchable g (nid n)" using mem_nodes_get [OF u] by (simp add: dispatchable_def)
  then obtain g1 where d: "dispatch g (nid n) (worker_name idx mw) = (g1, True)" by (simp add: dispatch_def)
  obtain action w1 where a: "worker w (nid n) k (assemble_input g1 (nid n)) = (action, w1)" by fastforce
  obtain g2 where g2: "apply_action g1 (nid n) (worker_name idx mw) action = Inr g2"
    and r: "run_batch worker mw (Suc idx) rest g2 w1 (Suc steps) = (g', w', steps', Inr ())"
    using assms(1,4) d a by (auto split: sum.splits)
  have R1: "reachable m g1" using reach_step [OF assms(2) step_dispatch [OF d]] .
  obtain e where "dag_step g1 e g2" using apply_action_step [OF g2] by blast
  then have R2: "reachable m g2" using reach_step R1 by blast
  have "idle g2"
    using assms(3) dispatch_others [OF d] by (intro apply_action_ran [OF R1 g2]) (auto simp: idle_def)
  from run_batch_reachable [OF r R2 this] show ?thesis by simp
qed

section \<open>The loop\<close>

lemma ready_batch_Cons:
  assumes "ready_batch g mw \<noteq> []"
  shows "\<exists>n k rest. ready_batch g mw = (nid n, k) # rest \<and> n \<in> set (ready_nodes g)"
  using assms by (cases mw; cases "ready_nodes g") (auto simp: ready_batch_def)

lemma ready_batch_Nil: "ready_batch g mw = [] \<longleftrightarrow> mw = 0 \<or> ready_nodes g = []"
  by (simp add: ready_batch_def)

lemma length_ready_batch: "length (ready_batch g mw) \<le> mw"
  by (simp add: ready_batch_def)

text \<open>
  Induction over the rounds of a run: a round that is not ended by an error performs at
  least one and at most \<open>mw\<close> steps, so \<open>ms - steps\<close> decreases.
\<close>

lemma run_loop_rule:
  assumes "reachable m g" "idle g"
    and stop: "\<And>g w s. reachable m g \<Longrightarrow> idle g \<Longrightarrow> all_terminal g \<or> ms \<le> s \<or> ready_batch g mw = [] \<Longrightarrow> P g w s"
    and fail: "\<And>g w s g' w' s' e. \<not> (all_terminal g \<or> ms \<le> s \<or> ready_batch g mw = []) \<Longrightarrow>
      run_batch worker mw 0 (ready_batch g mw) g w s = (g', w', s', Inl e) \<Longrightarrow> P g w s"
    and round: "\<And>g w s g' w' s'. \<not> (all_terminal g \<or> ms \<le> s \<or> ready_batch g mw = []) \<Longrightarrow>
      run_batch worker mw 0 (ready_batch g mw) g w s = (g', w', s', Inr ()) \<Longrightarrow> s' \<le> s + mw \<Longrightarrow>
      P g' w' s' \<Longrightarrow> P g w s"
  shows "P g w steps"
  using assms(1,2)
proof (induction "ms - steps" arbitrary: g w steps rule: less_induct)
  case less
  show ?case
  proof (cases "all_terminal g \<or> ms \<le> steps \<or> ready_batch g mw = []")
    case True
    then show ?thesis by (rule stop [OF less(2,3)])
  next
    case False
    obtain g' w' s' res where r: "run_batch worker mw 0 (ready_batch g mw) g w steps = (g', w', s', res)"
      by (metis prod.exhaust)
    show ?thesis
    proof (cases res)
      case (Inl e)
      then show ?thesis using fail [OF False] r by blast
    next
      case (Inr u)
      then have ok: "run_batch worker mw 0 (ready_batch g mw) g w steps = (g', w', s', Inr ())" using r by simp
      obtain n k rest where n: "ready_batch g mw = (nid n, k) # rest" "n \<in> set (ready_nodes g)"
        using ready_batch_Cons False by blast
      have "steps < s'" using run_batch_progress [OF ok less(2,3) n] .
      moreover note run_batch_reachable [OF ok less(2,3)]
      ultimately have "P g' w' s'" "s' \<le> steps + mw"
        using False length_ready_batch [of g mw] by (auto intro: less(1))
      then show ?thesis by (intro round [OF False ok])
    qed
  qed
qed

lemma run_loop_returns:
  assumes "reachable m g" "idle g"
  shows "\<exists>y. run_loop worker mw ms g w steps = Some y"
proof (rule run_loop_rule [where worker = worker and mw = mw and ms = ms and P = "\<lambda>g w s. \<exists>y. run_loop worker mw ms g w s = Some y", OF assms])
  show "\<exists>y. run_loop worker mw ms g w s = Some y"
    if "all_terminal g \<or> ms \<le> s \<or> ready_batch g mw = []" for g w s
    using that by (subst run_loop.simps) auto
  show "\<exists>y. run_loop worker mw ms g w s = Some y"
    if "\<not> (all_terminal g \<or> ms \<le> s \<or> ready_batch g mw = [])"
      "run_batch worker mw 0 (ready_batch g mw) g w s = (h, v, s', Inl e)" for g w s h v s' e
    using that by (subst run_loop.simps) (simp add: failed_batch_def)
  show "\<exists>y. run_loop worker mw ms g w s = Some y"
    if "\<not> (all_terminal g \<or> ms \<le> s \<or> ready_batch g mw = [])"
      "run_batch worker mw 0 (ready_batch g mw) g w s = (h, v, s', Inr ())"
      "\<exists>y. run_loop worker mw ms h v s' = Some y" for g w s h v s'
    using that by (subst run_loop.simps) (simp add: failed_batch_def)
qed

text \<open>What a run that was not ended by an error left behind.\<close>

definition run_outcome :: "mode \<Rightarrow> nat \<Rightarrow> nat \<Rightarrow> task_graph \<Rightarrow> sim_report \<Rightarrow> bool" where
  "run_outcome m mw ms g r \<longleftrightarrow>
     reachable m g \<and> idle g \<and> r = report g (sim_steps r) (sim_stalled r)
     \<and> (sim_stalled r \<longrightarrow> \<not> all_terminal g \<and> (ms \<le> sim_steps r \<or> ready_batch g mw = []))
     \<and> (\<not> sim_stalled r \<longrightarrow> all_terminal g)"

lemma run_loop_outcome:
  assumes "reachable m g" "idle g" "run_loop worker mw ms g w steps = Some (g', w', Inr r)"
  shows "run_outcome m mw ms g' r \<and> sim_steps r < max (Suc steps) (ms + mw)"
proof -
  let ?P = "\<lambda>g w s. run_loop worker mw ms g w s = Some (g', w', Inr r)
    \<longrightarrow> run_outcome m mw ms g' r \<and> sim_steps r < max (Suc s) (ms + mw)"
  have "?P g w steps"
  proof (rule run_loop_rule [where worker = worker and mw = mw and ms = ms and P = ?P, OF assms(1,2)])
    show "?P g w s" if "reachable m g" "idle g" "all_terminal g \<or> ms \<le> s \<or> ready_batch g mw = []" for g w s
      using that by (subst run_loop.simps) (auto simp: run_outcome_def report_def)
    show "?P g w s" if "\<not> (all_terminal g \<or> ms \<le> s \<or> ready_batch g mw = [])"
      "run_batch worker mw 0 (ready_batch g mw) g w s = (h, v, s', Inl e)" for g w s h v s' e
      using that by (subst run_loop.simps) (simp add: failed_batch_def)
    show "?P g w s" if "\<not> (all_terminal g \<or> ms \<le> s \<or> ready_batch g mw = [])"
      "run_batch worker mw 0 (ready_batch g mw) g w s = (h, v, s', Inr ())" "s' \<le> s + mw" "?P h v s'"
      for g w s h v s'
    proof -
      have "max (Suc s') (ms + mw) = ms + mw"
        using that(1,3) by (auto simp: ready_batch_Nil max_def)
      moreover have "ms + mw \<le> max (Suc s) (ms + mw)" by simp
      ultimately show ?thesis
        using that by (subst run_loop.simps) (simp add: failed_batch_def)
    qed
  qed
  then show ?thesis using assms(3) by blast
qed

end
