(* ===== verification/Dag_Replay.thy ===== *)
theory Dag_Replay
  imports Dag_Identity
begin

text \<open>
  Replaying a seed. A client that lost the reply sends its batch again; the engine promises
  that the replay changes nothing, whatever happened to the graph in between.
\<close>

section \<open>Declared dependencies persist\<close>

text \<open>
  After its seeding a non-gate node only ever waits for more of its own children: the
  dependencies it declared stay as they were.
\<close>

definition deps_grow :: "task_graph \<Rightarrow> task_graph \<Rightarrow> bool" where
  "deps_grow g g' \<longleftrightarrow>
     (\<forall>i n n'. get g i = Some n \<longrightarrow> \<not> is_gate n \<longrightarrow> get g' i = Some n' \<longrightarrow>
        set (depends_on n) \<subseteq> set (depends_on n')
        \<and> (\<forall>k \<in> set (depends_on n') - set (depends_on n). \<exists>c. get g' k = Some c \<and> parent c = Some i))"

lemma deps_growI:
  assumes "\<And>i n n'. get g i = Some n \<Longrightarrow> \<not> is_gate n \<Longrightarrow> get g' i = Some n' \<Longrightarrow>
      \<exists>K. set (depends_on n') = set (depends_on n) \<union> K \<and> (\<forall>k \<in> K. \<exists>c. get g' k = Some c \<and> parent c = Some i)"
  shows "deps_grow g g'"
  using assms unfolding deps_grow_def by fastforce

lemma deps_grow_modify:
  assumes "\<And>n. nid (f n) = nid n" "\<And>n. depends_on (f n) = depends_on n"
  shows "deps_grow g (modify g i f)"
  using assms by (intro deps_growI exI [of _ "{}"]) (auto simp: get_modify split: if_splits)

lemma deps_grow_settles:
  assumes "settles g g'"
  shows "deps_grow g g'"
proof (intro deps_growI exI [of _ "{}"])
  fix i n n' assume "get g i = Some n" "\<not> is_gate n" "get g' i = Some n'"
  moreover from this have "n' = n"
    using assms unfolding settles_def root_gate_def by fastforce
  ultimately show "set (depends_on n') = set (depends_on n) \<union> {}
      \<and> (\<forall>k \<in> {}. \<exists>c. get g' k = Some c \<and> parent c = Some i)" by simp
qed

lemma deps_grow_expand:
  assumes "expand_node g i actor cs = Inr (g', out)"
  shows "deps_grow g g'"
proof -
  from assms obtain n where n: "get g i = Some n" and u: "set (spec_ids cs) \<inter> ids g = {}"
    and g': "g' = modify (append_nodes g (expand_news g i (kind n) cs)) i
      (compose_parent (map nid (expand_news g i (kind n) cs)))" by (rule expand_node_ok)
  let ?B = "expand_news g i (kind n) cs"
  have par: "parent x = Some i" if "x \<in> set ?B" for x
    using that spec_nodes_fields by (auto simp: expand_news_def split: if_splits)
  have fresh: "nid x \<notin> ids g" if "x \<in> set ?B" for x
  proof -
    have "nid x \<in> set (spec_ids cs) \<or> nid x = unique_gate_id (append_nodes g (spec_nodes cs (Some i) OExpand)) i"
      using that imageI [of x "set (spec_nodes cs (Some i) OExpand)" nid]
      by (auto simp: expand_news_def split: if_splits)
    then show ?thesis using u unique_gate_id_fresh [of "append_nodes g (spec_nodes cs (Some i) OExpand)" i] by auto
  qed
  have new: "\<exists>c. get g' k = Some c \<and> parent c = Some i" if "k \<in> nid ` set ?B" for k
  proof -
    obtain x where x: "x \<in> set ?B" "nid x = k" using \<open>k \<in> nid ` set ?B\<close> by blast
    then have "k \<notin> ids g" using fresh by blast
    then have none: "get g k = None" by (simp add: get_None_iff)
    have "k \<noteq> i" using none n by auto
    obtain y where y: "find (\<lambda>n. nid n = k) ?B = Some y"
      using x find_None_iff_all [of "\<lambda>n. nid n = k" ?B] by (cases "find (\<lambda>n. nid n = k) ?B") auto
    then have "y \<in> set ?B" by (auto dest: find_SomeD)
    then show ?thesis using y none \<open>k \<noteq> i\<close> par by (simp add: g' get_modify get_append)
  qed
  show ?thesis
  proof (rule deps_growI)
    fix j m m' assume m: "get g j = Some m" "get g' j = Some m'"
    show "\<exists>K. set (depends_on m') = set (depends_on m) \<union> K
        \<and> (\<forall>k \<in> K. \<exists>c. get g' k = Some c \<and> parent c = Some j)"
    proof (cases "j = i")
      case True
      then have "m' = compose_parent (map nid ?B) n" using m n by (simp add: g' get_modify get_append)
      then show ?thesis using True m(1) n new by (intro exI [of _ "nid ` set ?B"]) auto
    next
      case False
      then have "m' = m" using m by (simp add: g' get_modify get_append)
      then show ?thesis by (intro exI [of _ "{}"]) simp
    qed
  qed
qed

lemma deps_grow_inject:
  assumes "inject_from_gate g i actor ss = Inr (g', new_ids)"
  shows "deps_grow g g'"
proof -
  from assms obtain h where h: "get g i = Some h" "is_gate h" and u: "set (spec_ids ss) \<inter> ids g = {}"
    and g': "g' = inject_result g i (parent h) ss" by (rule inject_from_gate_ok)
  let ?B = "spec_nodes ss (parent h) OGap"
  have at: "get g' j = (if parent h = Some j then map_option (add_deps (spec_ids ss)) else id)
      ((if j = i then map_option (reopen_gate (spec_ids ss)) else id) (get (append_nodes g ?B) j))" for j
    by (cases "parent h") (auto simp: g' inject_result_def Let_def get_modify)
  have new: "\<exists>c. get g' k = Some c \<and> parent c = parent h" if k: "k \<in> set (spec_ids ss)" for k
  proof -
    have none: "get g k = None" using k u by (auto simp: get_None_iff)
    have "k \<in> nid ` set ?B" using k by simp
    then obtain x where "x \<in> set ?B" "nid x = k" by blast
    then obtain y where y: "find (\<lambda>n. nid n = k) ?B = Some y"
      using find_None_iff_all [of "\<lambda>n. nid n = k" ?B] by (cases "find (\<lambda>n. nid n = k) ?B") auto
    then have "parent y = parent h" using spec_nodes_fields by (blast dest: find_SomeD)
    then show ?thesis using y none by (simp add: at get_append)
  qed
  show ?thesis
  proof (rule deps_growI)
    fix j m m' assume m: "get g j = Some m" "\<not> is_gate m" "get g' j = Some m'"
    then have "j \<noteq> i" using h by auto
    show "\<exists>K. set (depends_on m') = set (depends_on m) \<union> K
        \<and> (\<forall>k \<in> K. \<exists>c. get g' k = Some c \<and> parent c = Some j)"
    proof (cases "parent h = Some j")
      case True
      then have "m' = add_deps (spec_ids ss) m" using m \<open>j \<noteq> i\<close> by (simp add: at get_append)
      then show ?thesis using new True by (intro exI [of _ "set (spec_ids ss)"]) simp
    next
      case False
      then have "m' = m" using m \<open>j \<noteq> i\<close> by (simp add: at get_append)
      then show ?thesis by (intro exI [of _ "{}"]) simp
    qed
  qed
qed

lemma step_deps_grow:
  assumes "dag_step g e g'" "struct_inv g" "life_inv g"
  shows "deps_grow g g'"
  using assms
proof (induction rule: dag_step.induct)
  case (step_seed g specs g')
  then show ?case using settles_seed deps_grow_settles by blast
qed (auto simp: dispatch_True complete_node_ok fail_node_ok requeue_failed_ok
    intro!: deps_grow_modify intro: deps_grow_expand deps_grow_inject)

lemma declared_kept:
  assumes S: "struct_inv g" and ext: "core_extends P g g'" and grow: "deps_grow g g'"
    and n: "get g i = Some n" "\<not> is_gate n" "get g' i = Some n'"
  shows "set (declared_dependencies g' n') = set (declared_dependencies g n)"
proof -
  have ids: "nid n = i" "nid n' = i" using n get_SomeD by blast+
  have kept: "d \<in> set (declared_dependencies g' n') \<longleftrightarrow> d \<in> set (declared_dependencies g n)"
    if d: "d \<in> set (depends_on n)" for d
  proof -
    obtain c where c: "get g d = Some c" using shape_closedD [OF struct_shape [OF S] n(1) d] by blast
    obtain c' where c': "get g' d = Some c'" "core c' = core c" using core_extends_get [OF ext c] by blast
    have "d \<in> set (depends_on n')" using grow n d unfolding deps_grow_def by blast
    then show ?thesis using d c c' ids by (simp add: declared_dependencies_def core_eq_iff)
  qed
  have "d \<notin> set (declared_dependencies g' n')" if new: "d \<in> set (depends_on n') - set (depends_on n)" for d
  proof -
    obtain c where "get g' d = Some c" "parent c = Some i"
      using new grow n unfolding deps_grow_def by blast
    then show ?thesis using ids by (simp add: declared_dependencies_def)
  qed
  moreover have "set (declared_dependencies g n) \<subseteq> set (depends_on n)"
    "set (declared_dependencies g' n') \<subseteq> set (depends_on n')"
    by (auto simp: declared_dependencies_def)
  ultimately show ?thesis using kept by blast
qed

section \<open>A seeded spec stays matched\<close>

lemma match_kept:
  assumes S: "struct_inv g" and ext: "core_extends P g g'" and grow: "deps_grow g g'"
    and n: "get g i = Some n" and m: "seed_spec_matches_existing g n s"
  shows "\<exists>n'. get g' i = Some n' \<and> seed_spec_matches_existing g' n' s"
proof -
  obtain n' where n': "get g' i = Some n'" "core n' = core n" using core_extends_get [OF ext n] by blast
  have g: "\<not> is_gate n" using m by (auto simp: seed_spec_matches_existing_def split: if_splits)
  have "set (declared_dependencies g' n') = set (declared_dependencies g n)"
    by (rule declared_kept [OF S ext grow n g n'(1)])
  moreover have "parent n' = parent n" "is_gate n' = is_gate n" "origin n' = origin n" "content n' = content n"
    "kind n' = kind n" "priority n' = priority n" using n'(2) by (simp_all add: core_eq_iff)
  ultimately have "seed_spec_matches_existing g' n' s = seed_spec_matches_existing g n s"
    unfolding seed_spec_matches_existing_def dependency_sets_equal_def by (simp only:)
  then show ?thesis using m n'(1) by blast
qed

definition specs_matched :: "task_graph \<Rightarrow> node_spec list \<Rightarrow> bool" where
  "specs_matched g us \<longleftrightarrow>
     (\<forall>s \<in> set us. \<exists>i n. spec_id s = Some i \<and> get g i = Some n \<and> seed_spec_matches_existing g n s)"

lemma specs_matched_step:
  assumes "dag_step g e g'" "struct_inv g" "life_inv g" "specs_matched g us"
  shows "specs_matched g' us"
  unfolding specs_matched_def
proof
  fix s assume "s \<in> set us"
  then obtain i n where "spec_id s = Some i" "get g i = Some n" "seed_spec_matches_existing g n s"
    using assms(4) unfolding specs_matched_def by blast
  then show "\<exists>i n. spec_id s = Some i \<and> get g' i = Some n \<and> seed_spec_matches_existing g' n s"
    using match_kept [OF assms(2) step_core_extends [OF assms(1)] step_deps_grow [OF assms(1-3)]] by blast
qed

lemma get_gate_if_deep:
  assumes "unique_ids g1" "get g1 i = Some n" "\<not> is_gate n"
  shows "get (gate_if_deep g1) i = Some n"
proof (cases "requires_gates (mode g1)")
  case True
  from assms(1) have "get (ensure_root_gate g1) i = Some n"
  proof (cases rule: ensure_root_gate_cases)
    case (2 h)
    then show ?thesis using assms by (auto simp: seed_update_def)
  qed (use assms in \<open>simp_all add: get_push\<close>)
  then show ?thesis using True by (simp add: gate_if_deep_def)
qed (use assms in \<open>simp add: gate_if_deep_def\<close>)

lemma specs_matched_seed:
  assumes S: "struct_inv g" "life_inv g" and ok: "seed g specs = Inr g'"
  shows "\<exists>us. seed_collapse specs [] = Inr us \<and> specs_matched g' us \<and> distinct (spec_ids us)
    \<and> (\<forall>s \<in> set us. set (spec_depends_on s) \<subseteq> set (spec_ids us) \<union> ids g)"
proof -
  from ok obtain us where us: "seed_collapse specs [] = Inr us"
    and some: "\<forall>s \<in> set us. \<exists>i. spec_id s = Some i" and dist: "distinct (spec_ids us)"
    and deps: "\<forall>s \<in> set us. set (spec_depends_on s) \<subseteq> set (spec_ids us) \<union> ids g"
    and match: "\<forall>s \<in> set us. \<forall>n. get g (unwrap_or (spec_id s) []) = Some n \<longrightarrow> seed_spec_matches_existing g n s"
    and g': "g' = gate_if_deep (append_nodes g (seed_news g us))"
    by (rule seed_ok)
  have S': "struct_inv g'" using struct_inv_seed [OF S(1) ok] .
  have step: "dag_step g (EvSeed specs) g'" using ok by (rule step_seed)
  have "\<exists>i n. spec_id s = Some i \<and> get g' i = Some n \<and> seed_spec_matches_existing g' n s" if s: "s \<in> set us" for s
  proof -
    obtain i where i: "spec_id s = Some i" using some s by blast
    show ?thesis
    proof (cases "get g i")
      case (Some n)
      then have "seed_spec_matches_existing g n s" using match s i by auto
      then show ?thesis
        using match_kept [OF S(1) step_core_extends [OF step] step_deps_grow [OF step S] Some] i by blast
    next
      case None
      let ?n = "spec_to_node s None OSeed"
      have "?n \<in> set (seed_news g us)"
        using s i None by (auto simp: seed_news_def spec_nodes_def get_None_iff)
      moreover have B: "root_batch g (seed_news g us)" "queued_batch (seed_news g us)"
        using root_batch_seed [OF dist deps] seed_news_in by (auto simp: queued_batch_def)
      ultimately have "get (append_nodes g (seed_news g us)) i = Some ?n"
        using root_batch_append(2) [OF S(1) B(1)] i by simp
      then have n: "get g' i = Some ?n"
        unfolding g' by (intro get_gate_if_deep root_batch_append(1) [OF S(1) B(1)]) simp_all
      have "parent c \<noteq> Some i" if "get g' d = Some c" for c d
        using shape_parentD [OF struct_shape [OF S'] that, of i] n by auto
      then have "set (declared_dependencies g' ?n) = set (spec_depends_on s)"
        using i by (auto simp: declared_dependencies_def split: option.split)
      then show ?thesis
        using n i by (intro exI [of _ i] exI [of _ ?n])
          (simp add: seed_spec_matches_existing_def dependency_sets_equal_def)
    qed
  qed
  then show ?thesis using us dist deps unfolding specs_matched_def by blast
qed

section \<open>The replay\<close>

lemma modify_id: "get g i = Some n \<Longrightarrow> f n = n \<Longrightarrow> modify g i f = g"
proof -
  have "update_first i f ns = ns" if "find (\<lambda>n. nid n = i) ns = Some n" "f n = n" for ns
    using that by (induction ns) (auto split: if_splits)
  then show "get g i = Some n \<Longrightarrow> f n = n \<Longrightarrow> modify g i f = g"
    by (simp add: get_def modify_def)
qed

lemma seed_stage_matched: "specs_matched g us \<Longrightarrow> seed_stage g staged us = Inr staged"
proof (induction us)
  case (Cons s us)
  then obtain i n where "spec_id s = Some i" "get g i = Some n" "seed_spec_matches_existing g n s"
    unfolding specs_matched_def by auto
  moreover have "specs_matched g us" using Cons.prems by (simp add: specs_matched_def)
  ultimately show ?case using Cons.IH by simp
qed simp

lemma gate_if_deep_id:
  assumes S: "struct_inv g"
  shows "gate_if_deep g = g"
proof (cases "requires_gates (mode g)")
  case True
  note u = struct_unique [OF S]
  from u have "ensure_root_gate g = g"
  proof (cases rule: ensure_root_gate_cases)
    case (2 h)
    have "set (map nid (root_nodes g)) \<subseteq> set (depends_on h)"
    proof
      fix d assume "d \<in> set (map nid (root_nodes g))"
      then have "\<exists>c. get g d = Some c \<and> \<not> is_gate c \<and> parent c = parent h"
        using root_nodes_get [OF u, of d] 2(4) by simp
      then show "d \<in> set (depends_on h)" using shape_scopeD [OF struct_shape [OF S] 2(2,3), of d] by simp
    qed
    then show ?thesis unfolding 2(5) by (intro modify_id [OF 2(2)] widen_gate_id)
  next
    case (3 k)
    obtain n where "n \<in> set (root_nodes g)" using 3(1) by (cases "root_nodes g") auto
    then have "get g (nid n) = Some n" using mem_nodes_get [OF u] by (simp add: root_nodes_def)
    from deep_root_gate_exists [OF S True this] 3(2) show ?thesis by (fastforce simp: root_gate_def)
  qed simp
  then show ?thesis by (simp add: gate_if_deep_def)
qed (simp add: gate_if_deep_def)

lemma replay:
  assumes S: "struct_inv g" and us: "seed_collapse specs [] = Inr us" "specs_matched g us"
    and deps: "\<forall>s \<in> set us. set (spec_depends_on s) \<subseteq> set (spec_ids us) \<union> ids g"
  shows "seed g specs = Inr g"
proof -
  have "check_deps (set (spec_ids us)) g us = Inr ()" using deps by (simp add: check_deps_ok)
  moreover have "acyclic_or_err (gate_if_deep g) = Inr g"
    using gate_if_deep_id [OF S] struct_acyclic [OF S] by (simp add: acyclic_or_err_ok)
  ultimately show ?thesis
    using us(1) seed_stage_matched [OF us(2)] unfolding seed_def gate_if_deep_def [symmetric] by simp
qed

inductive engine_steps :: "task_graph \<Rightarrow> task_graph \<Rightarrow> bool" where
  steps_refl: "engine_steps g g"
| steps_more: "engine_steps g g1 \<Longrightarrow> dag_step g1 e g2 \<Longrightarrow> engine_steps g g2"

lemma engine_steps_reachable: "engine_steps g g' \<Longrightarrow> reachable m g \<Longrightarrow> reachable m g'"
  by (induction rule: engine_steps.induct) (auto intro: reach_step)

lemma core_extends_ids: "core_extends P g g' \<Longrightarrow> ids g \<subseteq> ids g'"
proof
  fix i assume ext: "core_extends P g g'" and "i \<in> ids g"
  then obtain n where "get g i = Some n" using get_None_iff [of g i] by auto
  from core_extends_get [OF ext this] show "i \<in> ids g'" using get_None_iff [of g' i] by auto
qed

lemma seed_replay:
  assumes R: "reachable m g" and ok: "seed g specs = Inr g'" and st: "engine_steps g' g''"
  shows "seed g'' specs = Inr g''"
proof -
  have inv: "struct_inv h" "life_inv h" if "reachable m h" for h
    using reachable_struct [OF that] reachable_life [OF that] by blast+
  from specs_matched_seed [OF inv [OF R] ok] obtain us where us: "seed_collapse specs [] = Inr us"
    "specs_matched g' us" "\<forall>s \<in> set us. set (spec_depends_on s) \<subseteq> set (spec_ids us) \<union> ids g" by blast
  have R': "reachable m g'" using reach_step [OF R step_seed [OF ok]] .
  have "ids g \<subseteq> ids g'" using core_extends_ids [OF core_extends_seed [OF ok]] .
  from st R' us(2) have "reachable m g'' \<and> specs_matched g'' us \<and> ids g' \<subseteq> ids g''"
  proof (induction rule: engine_steps.induct)
    case (steps_more g g1 e g2)
    then have "reachable m g1" "specs_matched g1 us" "ids g \<subseteq> ids g1" by blast+
    then show ?case
      using specs_matched_step [OF steps_more.hyps(2) inv] reach_step steps_more.hyps(2)
        core_extends_ids [OF step_core_extends [OF steps_more.hyps(2)]] by blast
  qed simp
  then show ?thesis using replay [OF inv(1) us(1)] us(3) \<open>ids g \<subseteq> ids g'\<close> by blast
qed

end
