(* ===== verification/Run_Properties.thy ===== *)
theory Run_Properties
  imports Dag_Sim Dag_Replay Dag_Scenario
begin

text \<open>What the simulator promises for every worker, worker bound and step bound, and what a
  client may do that lost the reply to its seed.\<close>

text \<open>
  C17: The simulator returns: from every graph of the engine with nothing running, whatever the
  workers do, the loop ends (with a report or with the first error of an operation).
\<close>

theorem simulation_returns:
  assumes "reachable m g" "\<forall>n \<in> set (nodes g). status n \<noteq> Running"
  shows "\<exists>g' w' res. run worker max_workers max_steps g w = Some (g', w', res)"
proof -
  have "idle g" using assms(2) get_SomeD unfolding idle_def by blast
  from run_loop_returns [OF assms(1) this] show ?thesis unfolding run_def by fastforce
qed

definition demo_worker :: "unit worker" where
  "demo_worker w i k input = (ActComplete (deep_artifact ''ok''), w)"

definition demo_light :: task_graph where
  "demo_light = run_events Light
     [EvSeed [new_spec ''a'' ''A'' Explore, with_depends_on (new_spec ''b'' ''B'' Fix) [''a'']]]"

lemma demo_light_nodes: "list_all (\<lambda>n. status n = Queued) (nodes demo_light)"
  by code_simp

lemma demo_light_idle: "\<forall>n \<in> set (nodes demo_light). status n \<noteq> Running"
  using demo_light_nodes by (auto simp: list_all_iff)

lemma demo_light_reachable: "reachable Light demo_light"
  unfolding demo_light_def by (rule reachable_run)

theorem simulation_returns_witness:
  "\<exists>g' w' res. run demo_worker 3 10 demo_light () = Some (g', w', res)"
  by (rule simulation_returns [OF demo_light_reachable demo_light_idle])

text \<open>
  What a report means. The graph is one the engine can reach, with nothing running; the
  counts are those of its nodes; the run overshoots its step bound by less than one
  round. A run that did not stall finished every node, and one that stalled below its
  bound, with a worker to its name, has a failed node.
\<close>

theorem simulation_report_is_sound:
  assumes R: "reachable m g" "\<forall>n \<in> set (nodes g). status n \<noteq> Running"
    and r: "run worker max_workers max_steps g w = Some (g', w', Inr r)"
  shows "reachable m g' \<and> (\<forall>n \<in> set (nodes g'). status n \<noteq> Running)
    \<and> sim_completed r = length (filter (\<lambda>n. status n = Done) (nodes g'))
    \<and> sim_failed r = length (filter (\<lambda>n. status n = Failed) (nodes g'))
    \<and> sim_steps r < max 1 (max_steps + max_workers)
    \<and> (\<not> sim_stalled r \<longrightarrow> (\<forall>n \<in> set (nodes g'). status n = Done \<or> status n = Failed))
    \<and> (sim_stalled r \<longrightarrow> sim_steps r < max_steps \<longrightarrow> 0 < max_workers
        \<longrightarrow> (\<exists>n \<in> set (nodes g'). status n = Failed))"
proof -
  have "idle g" using R(2) get_SomeD unfolding idle_def by blast
  from run_loop_outcome [OF R(1) this r [unfolded run_def]]
  have out: "run_outcome m max_workers max_steps g' r" and steps: "sim_steps r < max 1 (max_steps + max_workers)"
    by simp_all
  then have R': "reachable m g'" and rep: "r = report g' (sim_steps r) (sim_stalled r)"
    and stall: "sim_stalled r \<Longrightarrow> \<not> all_terminal g' \<and> (max_steps \<le> sim_steps r \<or> ready_batch g' max_workers = [])"
    and fin: "\<not> sim_stalled r \<Longrightarrow> all_terminal g'"
    by (simp_all add: run_outcome_def)
  have idle: "status n \<noteq> Running" if "n \<in> set (nodes g')" for n
    using out mem_nodes_get [OF struct_unique [OF conjunct1 [OF reachable_struct [OF R']]] that]
    unfolding run_outcome_def idle_def by blast
  have "\<exists>n \<in> set (nodes g'). status n = Failed" if "sim_stalled r" "sim_steps r < max_steps" "0 < max_workers"
  proof (rule ccontr)
    assume "\<not> ?thesis"
    then have "\<forall>n \<in> set (nodes g'). status n = Queued \<or> status n = Done"
      using idle node_status.exhaust by blast
    from idle_graph_has_ready [OF R' this] show False using stall that by (auto simp: ready_batch_Nil)
  qed
  moreover have "sim_completed r = length (filter (\<lambda>n. status n = Done) (nodes g'))"
    "sim_failed r = length (filter (\<lambda>n. status n = Failed) (nodes g'))"
    using arg_cong [OF rep, of sim_completed] arg_cong [OF rep, of sim_failed]
    by (simp_all add: report_def is_done_def [abs_def])
  moreover have "\<forall>n \<in> set (nodes g'). status n = Done \<or> status n = Failed" if "\<not> sim_stalled r"
    using fin [OF that] by (auto simp: all_terminal_def list_all_iff node_is_terminal_def)
  ultimately show ?thesis using R' steps idle by blast
qed

theorem simulation_report_is_sound_witness:
  "\<exists>g' r. run demo_worker 3 10 demo_light () = Some (g', (), Inr r) \<and> sim_completed r = 2
     \<and> sim_completed r = length (filter (\<lambda>n. status n = Done) (nodes g'))"
proof -
  have "map_option (\<lambda>(g, w, res). case res of Inl e \<Rightarrow> 0 | Inr r \<Rightarrow> sim_completed r)
      (run demo_worker 3 10 demo_light ()) = Some 2"
    by code_simp
  then obtain g' res where "run demo_worker 3 10 demo_light () = Some (g', (), res)"
    "(case res of Inl e \<Rightarrow> 0 | Inr r \<Rightarrow> sim_completed r) = 2" by auto
  then obtain r where r: "run demo_worker 3 10 demo_light () = Some (g', (), Inr r)" "sim_completed r = 2"
    by (cases res) auto
  from simulation_report_is_sound [OF demo_light_reachable demo_light_idle r(1)] r show ?thesis by auto
qed

text \<open>
  Seeding is idempotent over the whole life of a graph: a batch that was accepted once is
  accepted again after any further operations and then changes nothing, in deep mode too
  (the plan-wide gate is neither widened nor reopened).
\<close>

theorem seed_replay_changes_nothing:
  assumes "reachable m g" "seed g specs = Inr g'" "engine_steps g' g''"
  shows "seed g'' specs = Inr g''"
  using seed_replay [OF assms] .

theorem seed_replay_changes_nothing_witness:
  "seed demo2 [new_spec ''a'' ''A'' Explore] = Inr demo2"
proof -
  let ?specs = "[new_spec ''a'' ''A'' Explore]"
  have "is_ok (seed (new_graph Deep) ?specs)" by code_simp
  then obtain g' where g': "seed (new_graph Deep) ?specs = Inr g'" by (auto simp: is_ok_iff)
  have steps: "engine_steps g' (fold exec_event es h)" if "engine_steps g' h" for es h
    using that
  proof (induction es arbitrary: h)
    case (Cons e es)
    have "engine_steps g' (exec_event e h)"
      using exec_event_step [of e h] steps_more [OF Cons.prems] Cons.prems by metis
    then show ?case using Cons.IH by simp
  qed simp
  have "run_events Deep demo_start = fold exec_event (tl demo_start) g'"
    using g' by (simp add: run_events_def demo_start_def)
  then have "demo1 = fold exec_event (tl demo_start) g'" using demo1_run by simp
  then have "demo2 = fold exec_event demo_middle (fold exec_event (tl demo_start) g')"
    using demo2_step by simp
  then have "engine_steps g' demo2" using steps [OF steps [OF steps_refl]] by metis
  from seed_replay_changes_nothing [OF reach_new g' this] show ?thesis .
qed

end
