(* ===== verification/Refinement.thy ===== *)
theory Refinement
  imports Prelude
begin

text \<open>
  Data refinement: a component with an invariant and an abstraction implements a
  specification when every operation keeps the invariant and commutes with the abstraction.
  What then holds of a run of the specification holds of the same run of the component.
\<close>

locale data_refinement =
  fixes inv :: "'c \<Rightarrow> bool" and abs :: "'c \<Rightarrow> 'a"
    and step :: "'op \<Rightarrow> 'c \<Rightarrow> 'c" and spec :: "'op \<Rightarrow> 'a \<Rightarrow> 'a" and init :: 'c
  assumes init_inv: "inv init"
    and step_inv: "inv s \<Longrightarrow> inv (step p s)"
    and step_abs: "inv s \<Longrightarrow> abs (step p s) = spec p (abs s)"
begin

lemma run_inv_from: "inv s \<Longrightarrow> inv (fold step ps s)"
  by (induction ps arbitrary: s) (simp_all add: step_inv)

lemma run_abs_from: "inv s \<Longrightarrow> abs (fold step ps s) = fold spec ps (abs s)"
  by (induction ps arbitrary: s) (simp_all add: step_inv step_abs)

lemma run_inv: "inv (fold step ps init)"
  by (rule run_inv_from) (rule init_inv)

lemma run_abs: "abs (fold step ps init) = fold spec ps (abs init)"
  by (rule run_abs_from) (rule init_inv)

end

end
