(* ===== verification/Swarm_Channels.thy ===== *)
theory Swarm_Channels
  imports Refinement Rust_Str "HOL-Library.Finite_Map"
begin

text \<open>
  The channel subscriptions of a swarm (\<open>next-code-swarm-core/src/lib.rs\<close>,
  \<open>ChannelIndex\<close>): two nested maps kept in step, one from swarm and channel to the
  subscribed sessions, one from session and swarm to its channels. A \<open>HashMap\<close> is an
  \<open>fmap\<close>, a \<open>HashSet\<close> an \<open>fset\<close>; where the code iterates over one, in an
  unspecified order, the model takes the sorted order, and the lemmas on
  \<open>drop_everywhere\<close> hold for every order.
\<close>

section \<open>The index\<close>

type_synonym nested = "(string, (string, string fset) fmap) fmap"

record channel_index =
  by_swarm_channel :: nested
  by_session :: nested

definition new_index :: channel_index where
  "new_index = \<lparr>by_swarm_channel = fmempty, by_session = fmempty\<rparr>"

text \<open>\<open>entry(a).or_default().entry(b).or_default().insert(x)\<close>.\<close>

definition entry_insert :: "string \<Rightarrow> string \<Rightarrow> string \<Rightarrow> nested \<Rightarrow> nested" where
  "entry_insert a b x m =
     (let inner = unwrap_or (fmlookup m a) fmempty; xs = unwrap_or (fmlookup inner b) {||}
      in fmupd a (fmupd b (finsert x xs) inner) m)"

text \<open>Remove an element of the set of a key, and the key with its last element.\<close>

definition drop_member ::
  "string \<Rightarrow> string \<Rightarrow> (string, string fset) fmap \<Rightarrow> (string, string fset) fmap" where
  "drop_member x b inner =
     (case fmlookup inner b of
        None \<Rightarrow> inner
      | Some xs \<Rightarrow>
          (let xs' = xs |-| {|x|} in if xs' = {||} then fmdrop b inner else fmupd b xs' inner))"

text \<open>Update the inner map of a key if there is one, and remove the key when it gets empty.\<close>

definition update_pruned ::
  "string \<Rightarrow> ((string, string fset) fmap \<Rightarrow> (string, string fset) fmap) \<Rightarrow> nested \<Rightarrow> nested" where
  "update_pruned a f m =
     (case fmlookup m a of
        None \<Rightarrow> m
      | Some inner \<Rightarrow> (let inner' = f inner in if inner' = fmempty then fmdrop a m else fmupd a inner' m))"

definition subscribe :: "string \<Rightarrow> string \<Rightarrow> string \<Rightarrow> channel_index \<Rightarrow> channel_index" where
  "subscribe se sw ch idx =
     idx\<lparr>by_swarm_channel := entry_insert sw ch se (by_swarm_channel idx),
         by_session := entry_insert se sw ch (by_session idx)\<rparr>"

definition unsubscribe :: "string \<Rightarrow> string \<Rightarrow> string \<Rightarrow> channel_index \<Rightarrow> channel_index" where
  "unsubscribe se sw ch idx =
     idx\<lparr>by_swarm_channel := update_pruned sw (drop_member se ch) (by_swarm_channel idx),
         by_session := update_pruned se (drop_member ch sw) (by_session idx)\<rparr>"

text \<open>Remove a session from a list of channels of each swarm of a list.\<close>

fun drop_everywhere :: "string \<Rightarrow> (string \<times> string list) list \<Rightarrow> nested \<Rightarrow> nested" where
  "drop_everywhere se [] m = m"
| "drop_everywhere se ((sw, chs) # rest) m =
     drop_everywhere se rest (update_pruned sw (fold (drop_member se) chs) m)"

definition subscribed_channels :: "(string, string fset) fmap \<Rightarrow> (string \<times> string list) list" where
  "subscribed_channels subs =
     map (\<lambda>sw. (sw, sorted_list_of_fset (unwrap_or (fmlookup subs sw) {||})))
       (sorted_list_of_fset (fmdom subs))"

definition all_channels :: "nested \<Rightarrow> (string \<times> string list) list" where
  "all_channels m =
     map (\<lambda>sw. (sw, sorted_list_of_fset (fmdom (unwrap_or (fmlookup m sw) fmempty))))
       (sorted_list_of_fset (fmdom m))"

definition remove_session :: "string \<Rightarrow> channel_index \<Rightarrow> channel_index" where
  "remove_session se idx =
     (case fmlookup (by_session idx) se of
        Some subs \<Rightarrow>
          idx\<lparr>by_session := fmdrop se (by_session idx),
              by_swarm_channel := drop_everywhere se (subscribed_channels subs) (by_swarm_channel idx)\<rparr>
      | None \<Rightarrow>
          idx\<lparr>by_swarm_channel :=
                drop_everywhere se (all_channels (by_swarm_channel idx)) (by_swarm_channel idx)\<rparr>)"

definition members :: "channel_index \<Rightarrow> string \<Rightarrow> string \<Rightarrow> string list" where
  "members idx sw ch =
     (case fmlookup (by_swarm_channel idx) sw of
        None \<Rightarrow> []
      | Some subs \<Rightarrow> sorted_list_of_fset (unwrap_or (fmlookup subs ch) {||}))"

section \<open>What a nested map holds\<close>

definition inner_cell :: "(string, string fset) fmap \<Rightarrow> string \<Rightarrow> string fset" where
  "inner_cell inner b = unwrap_or (fmlookup inner b) {||}"

definition cell :: "nested \<Rightarrow> string \<Rightarrow> string \<Rightarrow> string fset" where
  "cell m a b = inner_cell (unwrap_or (fmlookup m a) fmempty) b"

text \<open>No empty sets and no empty inner maps are stored.\<close>

definition inner_tight :: "(string, string fset) fmap \<Rightarrow> bool" where
  "inner_tight inner \<longleftrightarrow> (\<forall>b. fmlookup inner b \<noteq> Some {||})"

definition tight :: "nested \<Rightarrow> bool" where
  "tight m \<longleftrightarrow> (\<forall>a inner. fmlookup m a = Some inner \<longrightarrow> inner \<noteq> fmempty \<and> inner_tight inner)"

lemma inner_cell_simps [simp]:
  "inner_cell fmempty b = {||}"
  "inner_cell (fmupd b' xs inner) b = (if b = b' then xs else inner_cell inner b)"
  "inner_cell (fmdrop b' inner) b = (if b = b' then {||} else inner_cell inner b)"
  by (simp_all add: inner_cell_def)

lemma cell_simps [simp]:
  "cell fmempty a b = {||}"
  "cell (fmupd a' inner m) a b = (if a = a' then inner_cell inner b else cell m a b)"
  "cell (fmdrop a' m) a b = (if a = a' then {||} else cell m a b)"
  by (simp_all add: cell_def)

lemma tight_empty [simp]: "tight fmempty" "inner_tight fmempty"
  by (simp_all add: tight_def inner_tight_def)

lemma tight_drop [simp]: "tight m \<Longrightarrow> tight (fmdrop a m)"
  by (simp add: tight_def)

lemma inner_tight_upd: "inner_tight inner \<Longrightarrow> xs \<noteq> {||} \<Longrightarrow> inner_tight (fmupd b xs inner)"
  by (auto simp: inner_tight_def)

lemma tight_upd: "tight m \<Longrightarrow> inner \<noteq> fmempty \<Longrightarrow> inner_tight inner \<Longrightarrow> tight (fmupd a inner m)"
  by (auto simp: tight_def)

lemma tight_lookup: "tight m \<Longrightarrow> inner_tight (unwrap_or (fmlookup m a) fmempty)"
  by (cases "fmlookup m a") (auto simp: tight_def)

lemma fmupd_not_empty [simp]: "fmupd a x m \<noteq> fmempty"
proof
  assume "fmupd a x m = fmempty"
  then have "fmlookup (fmupd a x m) a = None" by simp
  then show False by simp
qed

lemma tight_cell_empty: "tight m \<Longrightarrow> \<forall>b. cell m a b = {||} \<Longrightarrow> fmlookup m a = None"
proof (cases "fmlookup m a")
  case (Some inner)
  assume t: "tight m" and e: "\<forall>b. cell m a b = {||}"
  have "fmlookup inner b = None" for b
    using t e Some by (cases "fmlookup inner b")
      (auto simp: tight_def inner_tight_def cell_def inner_cell_def dest: spec [of _ b])
  then have "inner = fmempty" by (intro fmap_ext) simp
  with t Some have False unfolding tight_def by blast
  then show ?thesis by simp
qed simp

section \<open>The operations on cells\<close>

lemma cell_entry_insert [simp]:
  "cell (entry_insert a b x m) c d = (if c = a \<and> d = b then finsert x (cell m a b) else cell m c d)"
  by (auto simp: entry_insert_def Let_def cell_def inner_cell_def)

lemma tight_entry_insert [simp]: "tight m \<Longrightarrow> tight (entry_insert a b x m)"
  by (auto simp: entry_insert_def Let_def intro!: tight_upd inner_tight_upd tight_lookup)

lemma inner_cell_drop_member [simp]:
  "inner_cell (drop_member x b inner) d = inner_cell inner d |-| (if d = b then {|x|} else {||})"
  by (auto simp: drop_member_def Let_def inner_cell_def split: option.splits)

lemma inner_tight_drop_member [simp]: "inner_tight inner \<Longrightarrow> inner_tight (drop_member x b inner)"
  by (auto simp: drop_member_def Let_def inner_tight_def split: option.splits)

lemma fold_drop_member:
  "inner_tight inner \<Longrightarrow> inner_tight (fold (drop_member x) bs inner)"
  "inner_cell (fold (drop_member x) bs inner) d = inner_cell inner d |-| (if d \<in> set bs then {|x|} else {||})"
  by (induction bs arbitrary: inner) auto

lemma cell_update_pruned:
  assumes "f fmempty = fmempty"
  shows "cell (update_pruned a f m) c d =
    (if c = a then inner_cell (f (unwrap_or (fmlookup m a) fmempty)) d else cell m c d)"
  using assms by (auto simp: update_pruned_def Let_def cell_def split: option.splits)

lemma tight_update_pruned:
  assumes "tight m" and "\<And>inner. inner_tight inner \<Longrightarrow> inner_tight (f inner)"
  shows "tight (update_pruned a f m)"
  using assms by (auto simp: update_pruned_def Let_def tight_def split: option.splits)

lemma drop_member_empty [simp]:
  "drop_member x b fmempty = fmempty" "fold (drop_member x) bs fmempty = fmempty"
proof -
  show one: "drop_member x b fmempty = fmempty" for b by (simp add: drop_member_def)
  show "fold (drop_member x) bs fmempty = fmempty" by (induction bs) (simp_all add: one)
qed

lemma cell_remove [simp]:
  "cell (update_pruned a (drop_member x b) m) c d =
     cell m c d |-| (if c = a \<and> d = b then {|x|} else {||})"
  by (auto simp: cell_update_pruned) (auto simp: cell_def)

lemma tight_remove [simp]: "tight m \<Longrightarrow> tight (update_pruned a (drop_member x b) m)"
  by (rule tight_update_pruned) simp_all

lemma tight_drop_everywhere [simp]: "tight m \<Longrightarrow> tight (drop_everywhere se work m)"
  by (induction se work m rule: drop_everywhere.induct)
    (simp_all add: tight_update_pruned fold_drop_member)

lemma cell_drop_everywhere:
  "cell (drop_everywhere se work m) c d =
     cell m c d |-| (if \<exists>chs. (c, chs) \<in> set work \<and> d \<in> set chs then {|se|} else {||})"
proof (induction se work m rule: drop_everywhere.induct)
  case (2 se sw chs rest m)
  have "cell (update_pruned sw (fold (drop_member se) chs) m) c d =
      cell m c d |-| (if c = sw \<and> d \<in> set chs then {|se|} else {||})"
    by (auto simp: cell_update_pruned fold_drop_member) (auto simp: cell_def)
  with 2 show ?case by auto
qed simp

section \<open>Invariant and abstraction\<close>

text \<open>The abstraction: who is subscribed to which channel of which swarm.\<close>

type_synonym subscription = "string \<times> string \<times> string"

definition subscriptions :: "channel_index \<Rightarrow> subscription set" where
  "subscriptions idx = {(se, sw, ch). se |\<in>| cell (by_swarm_channel idx) sw ch}"

definition mirrored :: "channel_index \<Rightarrow> bool" where
  "mirrored idx \<longleftrightarrow>
     (\<forall>se sw ch. se |\<in>| cell (by_swarm_channel idx) sw ch \<longleftrightarrow> ch |\<in>| cell (by_session idx) se sw)"

definition index_ok :: "channel_index \<Rightarrow> bool" where
  "index_ok idx \<longleftrightarrow> mirrored idx \<and> tight (by_swarm_channel idx) \<and> tight (by_session idx)"

datatype channel_op =
    Subscribe string string string
  | Unsubscribe string string string
  | RemoveSession string

fun index_step :: "channel_op \<Rightarrow> channel_index \<Rightarrow> channel_index" where
  "index_step (Subscribe se sw ch) idx = subscribe se sw ch idx"
| "index_step (Unsubscribe se sw ch) idx = unsubscribe se sw ch idx"
| "index_step (RemoveSession se) idx = remove_session se idx"

fun relation_step :: "channel_op \<Rightarrow> subscription set \<Rightarrow> subscription set" where
  "relation_step (Subscribe se sw ch) R = insert (se, sw, ch) R"
| "relation_step (Unsubscribe se sw ch) R = R - {(se, sw, ch)}"
| "relation_step (RemoveSession se) R = {t \<in> R. fst t \<noteq> se}"

lemma new_index_ok: "index_ok new_index"
  by (simp add: index_ok_def new_index_def mirrored_def)

lemma index_ok_subscribe: "index_ok idx \<Longrightarrow> index_ok (subscribe se sw ch idx)"
  by (auto simp: index_ok_def mirrored_def subscribe_def)

lemma index_ok_unsubscribe: "index_ok idx \<Longrightarrow> index_ok (unsubscribe se sw ch idx)"
  by (auto simp: index_ok_def mirrored_def unsubscribe_def)

lemma listed_channels:
  assumes "fmlookup m se = Some subs"
  shows "(\<exists>chs. (sw, chs) \<in> set (subscribed_channels subs) \<and> ch \<in> set chs) \<longleftrightarrow> ch |\<in>| cell m se sw"
  using assms by (cases "fmlookup subs sw")
    (auto simp: subscribed_channels_def cell_def inner_cell_def fmlookup_dom_iff image_iff)

text \<open>Without an entry of its own the session is in no channel: the scan changes nothing.\<close>

lemma unknown_session_absent:
  assumes "index_ok idx" and "fmlookup (by_session idx) se = None"
  shows "se |\<notin>| cell (by_swarm_channel idx) sw ch"
  using assms by (auto simp: index_ok_def mirrored_def cell_def)

lemma remove_session_cells:
  assumes "index_ok idx"
  shows "cell (by_swarm_channel (remove_session se idx)) sw ch = cell (by_swarm_channel idx) sw ch |-| {|se|}"
    and "cell (by_session (remove_session se idx)) s sw' = (if s = se then {||} else cell (by_session idx) s sw')"
proof -
  show "cell (by_swarm_channel (remove_session se idx)) sw ch = cell (by_swarm_channel idx) sw ch |-| {|se|}"
  proof (cases "fmlookup (by_session idx) se")
    case None
    with assms unknown_session_absent have "se |\<notin>| cell (by_swarm_channel idx) sw ch" by blast
    with None show ?thesis
      by (auto simp: remove_session_def cell_drop_everywhere)
  next
    case (Some subs)
    have "ch |\<in>| cell (by_session idx) se sw \<longleftrightarrow> se |\<in>| cell (by_swarm_channel idx) sw ch"
      using assms by (simp add: index_ok_def mirrored_def)
    with Some show ?thesis
      by (auto simp: remove_session_def cell_drop_everywhere listed_channels)
  qed
  show "cell (by_session (remove_session se idx)) s sw' = (if s = se then {||} else cell (by_session idx) s sw')"
    by (cases "fmlookup (by_session idx) se") (auto simp: remove_session_def cell_def)
qed

lemma index_ok_remove_session: "index_ok idx \<Longrightarrow> index_ok (remove_session se idx)"
proof -
  assume ok: "index_ok idx"
  have "tight (by_swarm_channel (remove_session se idx)) \<and> tight (by_session (remove_session se idx))"
    using ok by (cases "fmlookup (by_session idx) se") (simp_all add: index_ok_def remove_session_def)
  moreover have "mirrored (remove_session se idx)"
    using ok by (auto simp: mirrored_def remove_session_cells [OF ok] index_ok_def)
  ultimately show ?thesis by (simp add: index_ok_def)
qed

lemma index_step_ok: "index_ok idx \<Longrightarrow> index_ok (index_step p idx)"
  by (cases p) (simp_all add: index_ok_subscribe index_ok_unsubscribe index_ok_remove_session)

lemma index_step_refines:
  assumes "index_ok idx"
  shows "subscriptions (index_step p idx) = relation_step p (subscriptions idx)"
proof (cases p)
  case (RemoveSession se)
  with assms show ?thesis by (auto simp: subscriptions_def remove_session_cells)
qed (auto simp: subscriptions_def subscribe_def unsubscribe_def split: if_splits)

interpretation channels: data_refinement index_ok subscriptions index_step relation_step new_index
  by unfold_locales (simp_all add: new_index_ok index_step_ok index_step_refines)

lemma members_sorted: "members idx sw ch = sorted_list_of_set {se. (se, sw, ch) \<in> subscriptions idx}"
proof -
  have "members idx sw ch = sorted_list_of_fset (cell (by_swarm_channel idx) sw ch)"
    by (cases "fmlookup (by_swarm_channel idx) sw")
      (simp_all add: members_def cell_def inner_cell_def sorted_list_of_fset.rep_eq)
  then show ?thesis by (simp add: subscriptions_def sorted_list_of_fset.rep_eq)
qed

text \<open>Two consistent indexes with the same subscriptions are the same index.\<close>

lemma tight_ext:
  assumes "tight m" and "tight n" and "\<And>a b. cell m a b = cell n a b"
  shows "m = n"
proof (rule fmap_ext)
  fix a
  show "fmlookup m a = fmlookup n a"
  proof (cases "fmlookup m a = None \<or> fmlookup n a = None")
    case True
    then have "(\<forall>b. cell m a b = {||}) \<or> (\<forall>b. cell n a b = {||})" by (auto simp: cell_def)
    with assms(3) have "\<forall>b. cell m a b = {||}" and "\<forall>b. cell n a b = {||}" by simp_all
    with assms(1,2) show ?thesis by (simp add: tight_cell_empty)
  next
    case False
    then obtain i j where ij: "fmlookup m a = Some i" "fmlookup n a = Some j" by auto
    have "fmlookup i b = fmlookup j b" for b
      using ij assms(1,2) assms(3) [of a b]
      by (cases "fmlookup i b"; cases "fmlookup j b")
        (auto simp: cell_def inner_cell_def tight_def inner_tight_def)
    then have "i = j" by (rule fmap_ext)
    with ij show ?thesis by simp
  qed
qed

lemma index_determined:
  assumes "index_ok i" and "index_ok j" and "subscriptions i = subscriptions j"
  shows "i = j"
proof -
  have s: "se |\<in>| cell (by_swarm_channel i) sw ch \<longleftrightarrow> se |\<in>| cell (by_swarm_channel j) sw ch" for se sw ch
    using assms(3) by (auto simp: subscriptions_def set_eq_iff)
  then have "cell (by_swarm_channel i) sw ch = cell (by_swarm_channel j) sw ch" for sw ch
    by auto
  moreover have "cell (by_session i) se sw = cell (by_session j) se sw" for se sw
    using s assms(1,2) by (auto simp: index_ok_def mirrored_def)
  ultimately show ?thesis
    using assms(1,2) tight_ext by (simp add: index_ok_def)
qed

end
