(* ===== verification/Team_Spec.thy ===== *)
theory Team_Spec
  imports Rust_Str
begin

text \<open>
  The types of the team mode of the swarm core (\<open>next-code-swarm-core/src/team/spec.rs\<close>),
  the checks of team and member names (\<open>team/paths.rs\<close>) and the registry of agents that
  may join a team (\<open>team/eligibility.rs\<close>). Times (\<open>i64\<close> milliseconds) are only stored
  and compared: they are integers. An I/O error keeps the kind the code looks at.
\<close>

section \<open>Bounds\<close>

definition team_max_members :: nat where "team_max_members = 8"

definition team_max_parallel :: nat where "team_max_parallel = 4"

definition team_max_messages_per_run :: nat where "team_max_messages_per_run = 10000"

definition team_max_wall_clock_minutes :: nat where "team_max_wall_clock_minutes = 120"

definition team_max_turns_per_member :: nat where "team_max_turns_per_member = 500"

definition team_message_max_bytes :: nat where "team_message_max_bytes = 32 * 1024"

definition team_recipient_unread_max_bytes :: nat where
  "team_recipient_unread_max_bytes = 10 * 1024 * 1024"

record runtime_bounds =
  max_members :: nat
  max_parallel_members :: nat
  max_messages_per_run :: nat
  max_wall_clock_minutes :: nat
  max_member_turns :: nat

definition default_bounds :: runtime_bounds where
  "default_bounds =
     \<lparr>max_members = team_max_members, max_parallel_members = team_max_parallel,
      max_messages_per_run = team_max_messages_per_run,
      max_wall_clock_minutes = team_max_wall_clock_minutes,
      max_member_turns = team_max_turns_per_member\<rparr>"

section \<open>Errors\<close>

datatype io_error = Io_NotFound | Io_Other

datatype team_error =
    AlreadyActive string
  | RunNotFound string
  | TeamDeleting
  | BroadcastNotPermitted
  | PayloadTooLarge
  | RecipientBackpressure
  | DuplicateMessageId string
  | IneligibleAgent string string
  | InvalidTeamName string string
  | TaskError string
  | LockTimeout string
  | UnsupportedSchemaVersion string u8 u8
  | MailboxAuthFailed string
  | InvalidMemberName string string
  | TmuxError string
  | IoError io_error
  | JsonError

section \<open>Teams and their members\<close>

datatype backend_type = InProcess | Tmux

record member_common =
  cwd :: "string option"
  common_worktree :: "string option"
  subscriptions_of :: "string list"
  backend :: backend_type
  common_color :: "string option"
  is_active :: bool

datatype team_member_spec =
    CategoryMember string string string member_common
  | SubagentMember string string "string option" member_common

fun member_name :: "team_member_spec \<Rightarrow> string" where
  "member_name (CategoryMember n _ _ _) = n"
| "member_name (SubagentMember n _ _ _) = n"

fun member_common_of :: "team_member_spec \<Rightarrow> member_common" where
  "member_common_of (CategoryMember _ _ _ c) = c"
| "member_common_of (SubagentMember _ _ _ c) = c"

fun agent_type :: "team_member_spec \<Rightarrow> string" where
  "agent_type (SubagentMember _ t _ _) = t"
| "agent_type (CategoryMember _ _ _ _) = ''sisyphus''"

record team_spec =
  spec_version :: u8
  spec_name :: string
  spec_description :: "string option"
  spec_created_at :: int
  lead_agent_id :: "string option"
  team_allowed_paths :: "string list option"
  spec_members :: "team_member_spec list"

section \<open>Messages\<close>

datatype message_kind =
    PlainMessage | ShutdownRequestKind | ShutdownApprovedKind | ShutdownRejectedKind | Announcement

record team_reference =
  ref_path :: string
  ref_description :: "string option"

record team_message =
  msg_version :: u8
  message_id :: string
  msg_from :: string
  msg_to :: string
  msg_kind :: message_kind
  msg_body :: string
  msg_summary :: "string option"
  msg_references :: "team_reference list"
  timestamp :: int
  correlation_id :: "string option"
  msg_color :: "string option"

section \<open>Tasks\<close>

datatype task_status = Pending | Claimed | InProgress | Completed | Deleted

record team_task =
  task_version :: u8
  task_id :: string
  subject :: string
  task_description :: string
  active_form :: "string option"
  task_status :: task_status
  task_owner :: "string option"
  blocks :: "string list"
  blocked_by :: "string list"
  task_created_at :: int
  updated_at :: int
  claimed_at :: "int option"

section \<open>Runtime state\<close>

datatype spec_source = ProjectSource | UserSource

datatype runtime_status =
    Creating | RunActive | ShutdownRequested | Deleting | RunDeleted | RunFailed | Orphaned

record tmux_layout =
  owned_session :: bool
  target_session_id :: string
  focus_window_id :: "string option"
  grid_window_id :: "string option"

datatype member_agent_type = Leader | GeneralPurpose

datatype member_status =
    MemberPending | MemberRunning | MemberIdle | MemberErrored | MemberCompleted
  | MemberShutdownApproved

fun member_status_str :: "member_status \<Rightarrow> string" where
  "member_status_str MemberPending = ''pending''"
| "member_status_str MemberRunning = ''running''"
| "member_status_str MemberIdle = ''idle''"
| "member_status_str MemberErrored = ''errored''"
| "member_status_str MemberCompleted = ''completed''"
| "member_status_str MemberShutdownApproved = ''shutdown_approved''"

record member_runtime =
  rm_name :: string
  rm_session_id :: "string option"
  tmux_pane_id :: "string option"
  rm_agent_type :: member_agent_type
  rm_subagent_type :: "string option"
  rm_category :: "string option"
  rm_status :: member_status
  rm_color :: "string option"
  rm_worktree :: "string option"
  last_injected_turn_marker :: "string option"
  pending_injected_message_ids :: "string list"

record shutdown_request =
  member_id :: string
  requester_name :: string
  requested_at :: int
  approved_at :: "int option"
  rejected_reason :: "string option"
  rejected_at :: "int option"

record team_runtime_state =
  run_version :: u8
  team_run_id :: string
  team_name :: string
  run_source :: spec_source
  run_created_at :: int
  run_status :: runtime_status
  lead_session_id :: "string option"
  run_layout :: "tmux_layout option"
  run_members :: "member_runtime list"
  shutdown_requests :: "shutdown_request list"
  run_bounds :: runtime_bounds
  capability_token :: string

section \<open>Names\<close>

definition backslash :: string where
  "backslash = [CHR 0x5C]"

definition has_traversal :: "string \<Rightarrow> bool" where
  "has_traversal name \<longleftrightarrow>
     contains name ''..'' \<or> contains name ''/'' \<or> contains name backslash"

definition is_name_char :: "char \<Rightarrow> bool" where
  "is_name_char c \<longleftrightarrow> is_ascii_alphanumeric c \<or> c = CHR ''-'' \<or> c = CHR ''_''"

definition is_control :: "char \<Rightarrow> bool" where
  "is_control c \<longleftrightarrow> byte c < 32 \<or> byte c = 127"

text \<open>
  The scans go over bytes: a character that is not ASCII has only bytes from 128 on, and is
  refused as one that is not a name character.
\<close>

definition traversal_reason :: string where
  "traversal_reason = ''must not contain '' @ [CHR 0x27] @ ''..'' @ [CHR 0x27] @ '', '' @ [CHR 0x27]
     @ ''/'' @ [CHR 0x27] @ '', or '' @ [CHR 0x27] @ backslash @ [CHR 0x27]"

definition validate_team_name :: "string \<Rightarrow> team_error + unit" where
  "validate_team_name name =
     (if name = [] then err (InvalidTeamName name ''empty'')
      else if has_traversal name then err (InvalidTeamName name traversal_reason)
      else if \<not> list_all is_name_char name
      then err (InvalidTeamName name ''only alphanumeric, hyphen, and underscore allowed'')
      else ok ())"

definition validate_member_name :: "string \<Rightarrow> team_error + unit" where
  "validate_member_name name =
     (if name = [] then err (InvalidMemberName name ''empty'')
      else if has_traversal name then err (InvalidMemberName name traversal_reason)
      else if starts_with name ''-''
      then err (InvalidMemberName name
             (''must not start with '' @ [CHR 0x27] @ ''-'' @ [CHR 0x27] @ '' (tmux flag-injection risk)''))
      else if list_ex (\<lambda>c. is_control c \<or> \<not> is_name_char c) name
      then err (InvalidMemberName name
             ''only ASCII alphanumeric, hyphen, and underscore allowed; no control chars'')
      else ok ())"

text \<open>What the checks let through: non-empty words over the name characters.\<close>

definition name_ok :: "string \<Rightarrow> bool" where
  "name_ok name \<longleftrightarrow> name \<noteq> [] \<and> list_all is_name_char name"

lemma name_char_facts:
  "is_name_char c \<Longrightarrow> c \<noteq> CHR ''.'' \<and> c \<noteq> CHR ''/'' \<and> c \<noteq> CHR 0x5C \<and> c \<noteq> CHR ''*'' \<and> \<not> is_control c"
  by (auto simp: is_name_char_def is_control_def byte_defs)

lemma name_ok_no_traversal: "list_all is_name_char name \<Longrightarrow> \<not> has_traversal name"
  by (auto simp: has_traversal_def contains_iff backslash_def dest: name_char_facts)

lemma validate_team_name_iff: "validate_team_name name = Inr () \<longleftrightarrow> name_ok name"
  by (auto simp: validate_team_name_def name_ok_def name_ok_no_traversal)

lemma validate_member_name_iff:
  "validate_member_name name = Inr () \<longleftrightarrow> name_ok name \<and> hd name \<noteq> CHR ''-''"
proof (cases name)
  case (Cons c cs)
  have "list_ex (\<lambda>c. is_control c \<or> \<not> is_name_char c) name \<longleftrightarrow> \<not> list_all is_name_char name"
    by (auto simp: list_ex_iff list_all_iff dest: name_char_facts)
  moreover have "starts_with name ''-'' \<longleftrightarrow> c = CHR ''-''"
    using Cons by (simp add: starts_with_def)
  ultimately show ?thesis
    using Cons name_ok_no_traversal [of name]
    by (auto simp: validate_member_name_def name_ok_def)
qed (simp add: validate_member_name_def name_ok_def)

lemma broadcast_is_no_member: "validate_member_name ''*'' \<noteq> Inr ()"
  by (simp add: validate_member_name_iff name_ok_def is_name_char_def byte_defs)

section \<open>Eligibility\<close>

datatype eligibility_verdict = Eligible | Conditional | HardReject

definition read_only_reason :: string where
  "read_only_reason = ''agent is read-only and cannot write to the team mailbox; '' @
     ''use delegate-task / subagent for read-only analysis instead''"

definition eligibility :: "string \<Rightarrow> eligibility_verdict \<times> string" where
  "eligibility agent =
     (if agent \<in> {''sisyphus'', ''sisyphus-junior'', ''atlas''} then (Eligible, [])
      else if agent = ''hephaestus''
      then (Conditional,
            ''agent '' @ [CHR 0x27] @ ''hephaestus'' @ [CHR 0x27] @
            '' lacks teammate permission by default; grant it or use subagent_type '' @
            [CHR 0x27] @ ''sisyphus'' @ [CHR 0x27] @ '' instead'')
      else if agent \<in> {''oracle'', ''librarian'', ''explore'', ''multimodal-looker'', ''metis'',
                        ''momus'', ''prometheus''}
      then (HardReject, read_only_reason)
      else (Eligible, []))"

definition assert_eligible :: "string \<Rightarrow> string + unit" where
  "assert_eligible agent =
     (case eligibility agent of (HardReject, reason) \<Rightarrow> err reason | _ \<Rightarrow> ok ())"

definition read_only_agents :: "string set" where
  "read_only_agents =
     {''oracle'', ''librarian'', ''explore'', ''multimodal-looker'', ''metis'', ''momus'', ''prometheus''}"

lemma assert_eligible_iff: "assert_eligible agent = Inr () \<longleftrightarrow> agent \<notin> read_only_agents"
  by (simp add: assert_eligible_def eligibility_def read_only_agents_def)

end
