(* ===== verification/Rust_Num.thy ===== *)
theory Rust_Num
  imports Rust_Str
begin

text \<open>
  Parsing of unsigned integers (\<open>str::parse\<close>), and that a printed number parses back and
  survives \<open>trim\<close>.
\<close>

text \<open>
  \<open>parse::<uN>\<close> for the width \<open>w\<close>: an optional plus sign and decimal digits, without
  overflow.
\<close>

definition parse_uint :: "nat \<Rightarrow> string \<Rightarrow> nat option" where
  "parse_uint w s =
     (let ds = (case s of [] \<Rightarrow> [] | c # cs \<Rightarrow> if c = CHR ''+'' then cs else s)
      in if ds = [] \<or> \<not> list_all is_ascii_digit ds \<or> (2 :: int) ^ w \<le> int (digits_val ds) then None
         else Some (digits_val ds))"

lemma ws_len_digit: "is_ascii_digit c \<Longrightarrow> ws_len (c # cs) = 0"
  by (simp add: is_ascii_digit_def ws_len_def ws_encodings_def)

lemma ws_len_rev_digit: "is_ascii_digit c \<Longrightarrow> ws_len_rev (c # cs) = 0"
  by (simp add: is_ascii_digit_def ws_len_rev_def ws_encodings_def)

lemma trim_digits: "list_all is_ascii_digit s \<Longrightarrow> trim s = s"
proof (cases s)
  case (Cons c cs)
  assume d: "list_all is_ascii_digit s"
  with Cons have "trim_start s = s" by (simp add: ws_len_digit)
  moreover have "trim_rev (rev s) = rev s"
  proof (cases "rev s")
    case (Cons x xs)
    have "list_all is_ascii_digit (rev s)" using d by (simp add: list_all_iff)
    with Cons show ?thesis by (simp add: ws_len_rev_digit)
  qed simp
  ultimately show ?thesis by (simp add: trim_def trim_end_def)
qed (simp add: trim_def trim_end_def)

lemma show_nat_nonempty [simp]: "show_nat n \<noteq> []"
  by (subst show_nat.simps) simp

lemma show_nat_all_digits [simp]: "list_all is_ascii_digit (show_nat n)"
  using show_nat_digits by (auto simp: list_all_iff)

lemma unat_of_nat_u64: "n < 2 ^ 64 \<Longrightarrow> unat (of_nat n :: u64) = n"
  by (simp add: unsigned_of_nat take_bit_nat_eq_self)

lemma parse_show_nat: "n < 2 ^ w \<Longrightarrow> parse_uint w (show_nat n) = Some n"
proof (cases "show_nat n")
  case (Cons c cs)
  assume n: "n < 2 ^ w"
  have "is_ascii_digit c" using Cons show_nat_digits by (metis list.set_intros(1))
  then have "c \<noteq> CHR ''+''" by (auto simp: byte_defs)
  then have "(case show_nat n of [] \<Rightarrow> [] | d # ds \<Rightarrow> if d = CHR ''+'' then ds else show_nat n) = show_nat n"
    using Cons by simp
  then show ?thesis unfolding parse_uint_def using n by (simp add: Let_def not_le flip: of_nat_power)
qed simp

lemma byte_of_digit: "is_ascii_digit c \<Longrightarrow> byte c \<noteq> 10 \<and> byte c \<noteq> 13"
  by (simp add: is_ascii_digit_def)

text \<open>Text without line breaks, and the lines of such texts each ended by a newline.\<close>

definition one_line :: "string \<Rightarrow> bool" where
  "one_line s \<longleftrightarrow> list_all (\<lambda>c. byte c \<noteq> 10 \<and> byte c \<noteq> 13) s"

lemma one_line_show_nat [simp]: "one_line (show_nat n)"
  using show_nat_all_digits [of n] byte_of_digit by (auto simp: one_line_def list_all_iff)

lemma strip_cr_one_line [simp]: "one_line s \<Longrightarrow> strip_cr s = s"
  by (auto simp: strip_cr_def one_line_def list_all_iff)

lemma lines_acc_one_line:
  "one_line s \<Longrightarrow> one_line (rev acc) \<Longrightarrow> lines_acc acc (s @ nl @ rest) = (rev acc @ s) # lines rest"
proof (induction s arbitrary: acc)
  case Nil
  then show ?case by (simp add: nl_def byte_def lines_def)
next
  case (Cons c s)
  then have "one_line s" and "one_line (rev (c # acc))" by (simp_all add: one_line_def)
  from Cons.IH [OF this] Cons.prems(1) show ?case by (simp add: one_line_def)
qed

lemma lines_one_line: "one_line s \<Longrightarrow> lines (s @ nl @ rest) = s # lines rest"
  using lines_acc_one_line [of s "[]" rest] by (simp add: lines_def [of "s @ nl @ rest"] one_line_def)

lemma lines_empty [simp]: "lines [] = []"
  by (simp add: lines_def)

end
