(* ===== verification/Team_Tasks.thy ===== *)
theory Team_Tasks
  imports Team_Spec Rust_Num "HOL-Library.Finite_Map"
begin

text \<open>
  The task board of a team run (\<open>next-code-swarm-core/src/team/tasklist.rs\<close>). The tasks
  directory is a high-watermark file and a finite map from ids to the files \<open><id>.json\<close>;
  ids are plain file names. What the outside decides of a call is its environment: the
  clock, how the lock acquisition of \<open>with_lock\<close> ended, and how many of the call's
  atomic writes the disk still accepts. A call that holds the lock of its files runs
  undisturbed on them (theory \<open>Team_Locks\<close>), so that a history is a sequence of calls.
\<close>

section \<open>The directory\<close>

datatype text_file = NoFile | UnreadableText | TextFile string

datatype task_file = UnreadableFile | NotJson | TaskFile team_task

record task_board =
  high_watermark :: text_file
  task_files :: "(string, task_file) fmap"

definition empty_board :: task_board where
  "empty_board = \<lparr>high_watermark = NoFile, task_files = fmempty\<rparr>"

datatype lock_result = LockGranted | LockTimedOut | LockFailed

text \<open>\<open>debug_text\<close> is the \<open>Debug\<close> rendering of a string, which only an error text uses.\<close>

record call_env =
  now :: int
  lock_outcome :: lock_result
  disk_writes :: nat
  tasks_path :: string
  debug_text :: "string \<Rightarrow> string"

definition with_lock ::
  "call_env \<Rightarrow> string \<Rightarrow> (team_error + 'a) \<times> 's \<Rightarrow> 's \<Rightarrow> (team_error + 'a) \<times> 's" where
  "with_lock env lock_path body st =
     (case lock_outcome env of
        LockGranted \<Rightarrow> body
      | LockTimedOut \<Rightarrow> (err (LockTimeout lock_path), st)
      | LockFailed \<Rightarrow> (err (IoError Io_Other), st))"

definition read_task :: "task_board \<Rightarrow> string \<Rightarrow> team_error + team_task" where
  "read_task b i =
     (case fmlookup (task_files b) i of
        None \<Rightarrow> err (IoError Io_NotFound)
      | Some UnreadableFile \<Rightarrow> err (IoError Io_Other)
      | Some NotJson \<Rightarrow> err JsonError
      | Some (TaskFile t) \<Rightarrow> ok t)"

definition write_task :: "team_task \<Rightarrow> task_board \<Rightarrow> task_board" where
  "write_task t b = b\<lparr>task_files := fmupd (task_id t) (TaskFile t) (task_files b)\<rparr>"

text \<open>A task is written under the id of the call, whatever the id in the file is.\<close>

definition write_task_at :: "string \<Rightarrow> team_task \<Rightarrow> task_board \<Rightarrow> task_board" where
  "write_task_at i t b = b\<lparr>task_files := fmupd i (TaskFile t) (task_files b)\<rparr>"

section \<open>Ids\<close>

definition parse_u64 :: "string \<Rightarrow> u64 option" where
  "parse_u64 s = map_option of_nat (parse_uint 64 s)"

definition corrupt_watermark :: "call_env \<Rightarrow> string \<Rightarrow> string" where
  "corrupt_watermark env content =
     ''.highwatermark at '' @ tasks_path env @ ''/.highwatermark is corrupt (contents: '' @
     debug_text env content @ ''); refusing to silently reuse task ids. '' @
     ''Delete the file and re-create tasks, or run a migrator.''"

definition read_high_watermark :: "call_env \<Rightarrow> task_board \<Rightarrow> team_error + u64" where
  "read_high_watermark env b =
     (case high_watermark b of
        NoFile \<Rightarrow> ok 0
      | UnreadableText \<Rightarrow> err (IoError Io_Other)
      | TextFile content \<Rightarrow>
          (case parse_u64 (trim content) of
             None \<Rightarrow> err (TaskError (corrupt_watermark env content))
           | Some n \<Rightarrow>
               if n < - 1 then ok n else err (TaskError (corrupt_watermark env content))))"

section \<open>Operations\<close>

record new_task =
  new_subject :: string
  new_description :: string
  new_blocks :: "string list"
  new_blocked_by :: "string list"

definition fresh_task :: "call_env \<Rightarrow> new_task \<Rightarrow> u64 \<Rightarrow> team_task" where
  "fresh_task env input next =
     \<lparr>task_version = 1, task_id = show_nat (unat next), subject = new_subject input,
      task_description = new_description input, active_form = None, task_status = Pending,
      task_owner = None, blocks = new_blocks input, blocked_by = new_blocked_by input,
      task_created_at = now env, updated_at = now env, claimed_at = None\<rparr>"

definition create_task ::
  "call_env \<Rightarrow> new_task \<Rightarrow> task_board \<Rightarrow> (team_error + team_task) \<times> task_board" where
  "create_task env input b =
     with_lock env (tasks_path env @ ''/.lock'')
       (case read_high_watermark env b of
          Inl e \<Rightarrow> (err e, b)
        | Inr n \<Rightarrow>
            (let next = n + 1 in
             if disk_writes env = 0 then (err (IoError Io_Other), b)
             else
               let b1 = b\<lparr>high_watermark := TextFile (show_nat (unat next))\<rparr>;
                   t = fresh_task env input next
               in if disk_writes env = 1 then (err (IoError Io_Other), b1)
                  else (ok t, write_task t b1))) b"

definition not_claimable :: "string \<Rightarrow> team_error" where
  "not_claimable i = TaskError (''task '' @ i @ '' is not claimable'')"

definition blocked_error :: "string \<Rightarrow> string \<Rightarrow> team_error" where
  "blocked_error i dep = TaskError (''task '' @ i @ '' is blocked by incomplete task '' @ dep)"

fun check_blockers :: "task_board \<Rightarrow> string \<Rightarrow> string list \<Rightarrow> team_error + unit" where
  "check_blockers b i [] = ok ()"
| "check_blockers b i (dep # deps) =
     and_then (read_task b dep) (\<lambda>t.
       if task_status t \<noteq> Completed then err (blocked_error i dep) else check_blockers b i deps)"

definition claim_lock :: "call_env \<Rightarrow> string \<Rightarrow> string" where
  "claim_lock env i = tasks_path env @ ''/claims/'' @ i @ ''.lock''"

text \<open>The read-modify-write of one task file.\<close>

definition store_at ::
  "call_env \<Rightarrow> string \<Rightarrow> team_task \<Rightarrow> task_board \<Rightarrow> (team_error + team_task) \<times> task_board" where
  "store_at env i t b =
     (if disk_writes env = 0 then (err (IoError Io_Other), b) else (ok t, write_task_at i t b))"

definition claimed_task :: "call_env \<Rightarrow> string \<Rightarrow> team_task \<Rightarrow> team_task" where
  "claimed_task env member t =
     t\<lparr>task_status := Claimed, task_owner := Some member, claimed_at := Some (now env),
       updated_at := now env\<rparr>"

definition claim_task ::
  "call_env \<Rightarrow> string \<Rightarrow> string \<Rightarrow> task_board \<Rightarrow> (team_error + team_task) \<times> task_board" where
  "claim_task env i member b =
     (case validate_member_name member of
        Inl e \<Rightarrow> (err e, b)
      | Inr _ \<Rightarrow>
          with_lock env (claim_lock env i)
            (case read_task b i of
               Inl e \<Rightarrow> (err e, b)
             | Inr t \<Rightarrow>
                 if task_status t \<noteq> Pending then (err (not_claimable i), b)
                 else
                   (case check_blockers b i (blocked_by t) of
                      Inl e \<Rightarrow> (err e, b)
                    | Inr _ \<Rightarrow> store_at env i (claimed_task env member t) b)) b)"

fun valid_transition :: "task_status \<Rightarrow> task_status \<Rightarrow> bool" where
  "valid_transition Pending Claimed = True"
| "valid_transition Claimed InProgress = True"
| "valid_transition InProgress Completed = True"
| "valid_transition Claimed Pending = True"
| "valid_transition Completed Deleted = True"
| "valid_transition Pending Deleted = True"
| "valid_transition _ _ = False"

fun task_status_debug :: "task_status \<Rightarrow> string" where
  "task_status_debug Pending = ''Pending''"
| "task_status_debug Claimed = ''Claimed''"
| "task_status_debug InProgress = ''InProgress''"
| "task_status_debug Completed = ''Completed''"
| "task_status_debug Deleted = ''Deleted''"

definition transition_error :: "task_status \<Rightarrow> task_status \<Rightarrow> team_error" where
  "transition_error from' to' =
     TaskError (''invalid transition '' @ task_status_debug from' @ '' -> '' @ task_status_debug to')"

definition update_status ::
  "call_env \<Rightarrow> string \<Rightarrow> task_status \<Rightarrow> task_board \<Rightarrow> (team_error + team_task) \<times> task_board" where
  "update_status env i next b =
     with_lock env (claim_lock env i)
       (case read_task b i of
          Inl e \<Rightarrow> (err e, b)
        | Inr t \<Rightarrow>
            if \<not> valid_transition (task_status t) next
            then (err (transition_error (task_status t) next), b)
            else store_at env i (t\<lparr>task_status := next, updated_at := now env\<rparr>) b) b"

text \<open>
  The listing goes over the \<open>.json\<close> files in the order \<open>entries\<close> the directory gives
  them in; hidden and unreadable files are skipped.
\<close>

definition listed_task :: "task_board \<Rightarrow> string \<Rightarrow> team_task list" where
  "listed_task b i =
     (if starts_with (i @ ''.json'') ''.'' then []
      else case read_task b i of Inl _ \<Rightarrow> [] | Inr t \<Rightarrow> [t])"

definition task_matches :: "task_status option \<Rightarrow> string option \<Rightarrow> team_task \<Rightarrow> bool" where
  "task_matches status owner t \<longleftrightarrow>
     (case status of None \<Rightarrow> True | Some s \<Rightarrow> s = task_status t) \<and>
     (case owner of None \<Rightarrow> True | Some ow \<Rightarrow> task_owner t = Some ow)"

definition numeric_id :: "team_task \<Rightarrow> u64" where
  "numeric_id t = unwrap_or (parse_u64 (task_id t)) 0"

definition list_tasks ::
  "string list \<Rightarrow> task_status option \<Rightarrow> string option \<Rightarrow> task_board \<Rightarrow> team_task list" where
  "list_tasks entries status owner b =
     sort_key numeric_id (filter (task_matches status owner) (concat (map (listed_task b) entries)))"

section \<open>Transitive blockers\<close>

text \<open>The top of the stack is the head of the list.\<close>

function blockers_loop ::
  "task_board \<Rightarrow> string \<Rightarrow> string set \<Rightarrow> string list \<Rightarrow> string list \<Rightarrow> team_error + string list" where
  "blockers_loop b root seen [] order = ok order"
| "blockers_loop b root seen (i # stack) order =
     (if i \<in> seen then blockers_loop b root seen stack order
      else case read_task b i of
          Inl e \<Rightarrow> err e
        | Inr t \<Rightarrow>
            blockers_loop b root (insert i seen) (rev (blocked_by t) @ stack)
              (order @ filter (\<lambda>dep. dep \<noteq> root) (blocked_by t)))"
  by pat_completeness auto
termination
proof (relation "measures [\<lambda>(b, root, seen, stack, order). card (fset (fmdom (task_files b)) - seen),
                           \<lambda>(b, root, seen, stack, order). length stack]")
  fix b :: task_board and root i seen stack order t
  assume new: "i \<notin> seen" and read: "read_task b i = Inr t"
  have "i \<in> fset (fmdom (task_files b))"
    using read by (auto simp: read_task_def fmlookup_dom_iff split: option.splits)
  with new have "card (fset (fmdom (task_files b)) - insert i seen) < card (fset (fmdom (task_files b)) - seen)"
    by (intro psubset_card_mono) auto
  then show "((b, root, insert i seen, rev (blocked_by t) @ stack,
                order @ filter (\<lambda>dep. dep \<noteq> root) (blocked_by t)), b, root, seen, i # stack, order)
       \<in> measures [\<lambda>(b, root, seen, stack, order). card (fset (fmdom (task_files b)) - seen),
                    \<lambda>(b, root, seen, stack, order). length stack]"
    by simp
qed simp_all

definition transitive_blockers :: "task_board \<Rightarrow> string \<Rightarrow> team_error + string list" where
  "transitive_blockers b i = blockers_loop b i {} [i] []"

text \<open>The direct blockers of a task whose file can be read.\<close>

definition blocked_rel :: "task_board \<Rightarrow> (string \<times> string) set" where
  "blocked_rel b = {(i, d). \<exists>t. read_task b i = Inr t \<and> d \<in> set (blocked_by t)}"

definition readable :: "task_board \<Rightarrow> string \<Rightarrow> bool" where
  "readable b i \<longleftrightarrow> (\<exists>t. read_task b i = Inr t)"

lemma blocked_rel_read: "read_task b i = Inr t \<Longrightarrow> (i, d) \<in> blocked_rel b \<longleftrightarrow> d \<in> set (blocked_by t)"
  by (simp add: blocked_rel_def)

lemma closed_reach:
  assumes "root \<in> S" and "R `` S \<subseteq> S" and "S \<subseteq> R\<^sup>* `` {root}"
  shows "S = R\<^sup>* `` {root}" and "R `` S = R\<^sup>+ `` {root}"
proof -
  have "y \<in> S" if "(root, y) \<in> R\<^sup>*" for y
    using that assms(1,2) by (induction rule: rtrancl_induct) auto
  with assms(3) show S: "S = R\<^sup>* `` {root}" by auto
  show "R `` S = R\<^sup>+ `` {root}"
    unfolding S by (metis trancl_unfold_right relcomp_Image)
qed

lemma blockers_loop_exact:
  assumes "seen \<subseteq> (blocked_rel b)\<^sup>* `` {root}" and "set stack \<subseteq> (blocked_rel b)\<^sup>* `` {root}"
    and "root \<in> seen \<union> set stack" and "blocked_rel b `` seen \<subseteq> seen \<union> set stack"
    and "set order = blocked_rel b `` seen - {root}" and "\<forall>i \<in> seen. readable b i"
  shows "case blockers_loop b root seen stack order of
      Inr ds \<Rightarrow> set ds = (blocked_rel b)\<^sup>+ `` {root} - {root} \<and> (\<forall>i \<in> (blocked_rel b)\<^sup>* `` {root}. readable b i)
    | Inl e \<Rightarrow> \<exists>i \<in> (blocked_rel b)\<^sup>* `` {root}. read_task b i = Inl e"
  using assms
proof (induction b root seen stack order rule: blockers_loop.induct)
  case (1 b root seen order)
  then have "seen = (blocked_rel b)\<^sup>* `` {root}" "blocked_rel b `` seen = (blocked_rel b)\<^sup>+ `` {root}"
    using closed_reach [of root seen "blocked_rel b"] by simp_all
  with 1 show ?case by simp
next
  case (2 b root seen i stack order)
  show ?case
  proof (cases "i \<in> seen")
    case True
    with 2 show ?thesis by (auto simp: insert_absorb)
  next
    case new: False
    have i: "(root, i) \<in> (blocked_rel b)\<^sup>*" using "2.prems"(2) by auto
    show ?thesis
    proof (cases "read_task b i")
      case (Inl e)
      with new i show ?thesis by auto
    next
      case (Inr t)
      have deps: "blocked_rel b `` insert i seen = set (blocked_by t) \<union> blocked_rel b `` seen"
      proof -
        have "blocked_rel b `` {i} = set (blocked_by t)" using Inr by (auto simp: blocked_rel_def)
        then show ?thesis using Image_Un [of "blocked_rel b" "{i}" seen] by simp
      qed
      have "set (blocked_by t) \<subseteq> (blocked_rel b)\<^sup>* `` {root}"
        using i Inr by (auto simp: blocked_rel_read intro: rtrancl_into_rtrancl)
      then have "case blockers_loop b root (insert i seen) (rev (blocked_by t) @ stack)
          (order @ filter (\<lambda>dep. dep \<noteq> root) (blocked_by t)) of
        Inr ds \<Rightarrow> set ds = (blocked_rel b)\<^sup>+ `` {root} - {root} \<and> (\<forall>i \<in> (blocked_rel b)\<^sup>* `` {root}. readable b i)
      | Inl e \<Rightarrow> \<exists>i \<in> (blocked_rel b)\<^sup>* `` {root}. read_task b i = Inl e"
        using "2.prems" Inr deps new
        by (intro "2.IH"(2) [OF new Inr]) (auto simp: readable_def)
      with new Inr show ?thesis by simp
    qed
  qed
qed

end
