(* ===== verification/Team_Task_Facts.thy ===== *)
theory Team_Task_Facts
  imports Team_Tasks
begin

text \<open>
  Facts of the task board: what each call does when it succeeds, ids that are never given
  twice even when writes fail, and the order in which tasks are worked on.
\<close>

lemma parse_show_u64: "n < 2 ^ 64 \<Longrightarrow> parse_u64 (show_nat n) = Some (of_nat n)"
  by (simp add: parse_u64_def parse_show_nat)

section \<open>What successful calls did\<close>

lemma read_write_at [simp]:
  "read_task (write_task_at i t b) j = (if j = i then Inr t else read_task b j)"
  by (simp add: read_task_def write_task_at_def)

lemma with_lock_cases:
  "with_lock env l body st = res \<Longrightarrow> (\<exists>e. res = (Inl e, st)) \<or> res = body"
  by (auto simp: with_lock_def split: lock_result.splits)

lemma check_blockers_iff:
  "check_blockers b i deps = Inr () \<longleftrightarrow>
     (\<forall>d \<in> set deps. \<exists>u. read_task b d = Inr u \<and> task_status u = Completed)"
proof (induction deps)
  case (Cons d deps)
  then show ?case by (cases "read_task b d") auto
qed simp

lemma store_at_cases:
  "store_at env i t b = (r, b') \<Longrightarrow> (\<exists>e. r = Inl e \<and> b' = b) \<or> r = Inr t \<and> b' = write_task_at i t b"
  by (auto simp: store_at_def split: if_splits)

lemma claim_task_cases [op_elims]:
  assumes "claim_task env i member b = (r, b')"
  obtains (refused) e where "r = Inl e" "b' = b"
  | (claimed) t where "r = Inr (claimed_task env member t)" "read_task b i = Inr t"
      "task_status t = Pending" "b' = write_task_at i (claimed_task env member t) b"
      "validate_member_name member = Inr ()"
      "\<forall>d \<in> set (blocked_by t). \<exists>u. read_task b d = Inr u \<and> task_status u = Completed"
proof (cases "validate_member_name member")
  case (Inl e)
  with assms show ?thesis by (intro refused) (auto simp: claim_task_def)
next
  case (Inr u)
  show ?thesis
  proof (cases "read_task b i")
    case (Inl e)
    with assms Inr have "\<exists>e. (r, b') = (Inl e, b)"
      by (cases "lock_outcome env"; simp add: claim_task_def with_lock_def; metis)
    with refused show ?thesis by auto
  next
    case read: (Inr t)
    show ?thesis
    proof (cases "lock_outcome env = LockGranted \<and> task_status t = Pending \<and>
        check_blockers b i (blocked_by t) = Inr () \<and> disk_writes env \<noteq> 0")
      case True
      with assms Inr read show ?thesis
        by (intro claimed [of t]) (auto simp: claim_task_def with_lock_def store_at_def check_blockers_iff)
    next
      case False
      then have "\<exists>e. (r, b') = (Inl e, b)"
        using assms Inr read
        by (auto simp: claim_task_def with_lock_def store_at_def split: lock_result.splits sum.splits if_splits)
      with refused show ?thesis by auto
    qed
  qed
qed

lemma update_status_cases [op_elims]:
  assumes "update_status env i next b = (r, b')"
  obtains (refused) e where "r = Inl e" "b' = b"
  | (updated) t where "r = Inr (t\<lparr>task_status := next, updated_at := now env\<rparr>)" "read_task b i = Inr t"
      "valid_transition (task_status t) next"
      "b' = write_task_at i (t\<lparr>task_status := next, updated_at := now env\<rparr>) b"
  using assms with_lock_cases [OF assms [unfolded update_status_def]]
  by (auto simp: store_at_def split: sum.splits if_splits)

section \<open>Ids\<close>

definition watermark_is :: "task_board \<Rightarrow> nat \<Rightarrow> bool" where
  "watermark_is b n \<longleftrightarrow>
     high_watermark b = NoFile \<and> n = 0 \<or> high_watermark b = TextFile (show_nat n) \<and> n < 2 ^ 64"

definition numbered :: "task_board \<Rightarrow> nat \<Rightarrow> bool" where
  "numbered b n \<longleftrightarrow>
     (\<forall>i f. fmlookup (task_files b) i = Some f \<longrightarrow>
        (\<exists>t k. f = TaskFile t \<and> task_id t = i \<and> i = show_nat k \<and> 1 \<le> k \<and> k \<le> n))"

lemma read_watermark:
  assumes "watermark_is b n"
  shows "read_high_watermark env b =
    (if n < 2 ^ 64 - 1 then Inr (of_nat n)
     else Inl (TaskError (corrupt_watermark env (show_nat n))))"
proof (cases "high_watermark b")
  case (TextFile s)
  with assms have s: "s = show_nat n" and n: "n < 2 ^ 64" by (auto simp: watermark_is_def)
  have "unat (of_nat n :: u64) = n" using n by (simp add: unat_of_nat_u64)
  moreover have "unat (- 1 :: u64) = 2 ^ 64 - 1"
    by (simp add: unsigned_minus_1_eq_mask mask_eq_exp_minus_1)
  ultimately have "(of_nat n :: u64) < - 1 \<longleftrightarrow> n < 2 ^ 64 - 1" by (simp add: word_less_nat_alt)
  with TextFile s n show ?thesis
    by (simp add: read_high_watermark_def trim_digits parse_show_u64)
qed (use assms in \<open>auto simp: watermark_is_def read_high_watermark_def\<close>)

lemma next_id:
  assumes "n < 2 ^ 64 - 1"
  shows "unat (of_nat n + 1 :: u64) = Suc n"
proof -
  have "of_nat n + 1 = (of_nat (Suc n) :: u64)" by simp
  then show ?thesis using assms unat_of_nat_u64 [of "Suc n"] by (simp add: add.commute)
qed

lemma create_task_cases [op_elims]:
  assumes "create_task env input b = (r, b')" and "watermark_is b n"
  obtains (refused) e where "r = Inl e" "b' = b"
  | (lost) e where "r = Inl e" "b' = b\<lparr>high_watermark := TextFile (show_nat (Suc n))\<rparr>"
      "Suc n < 2 ^ 64"
  | (created) "r = Inr (fresh_task env input (of_nat n + 1))" "Suc n < 2 ^ 64"
      "b' = write_task_at (show_nat (Suc n)) (fresh_task env input (of_nat n + 1))
              (b\<lparr>high_watermark := TextFile (show_nat (Suc n))\<rparr>)"
proof (cases "n < 2 ^ 64 - 1 \<and> lock_outcome env = LockGranted \<and> disk_writes env \<noteq> 0")
  case True
  then have ok: "create_task env input b =
    (if disk_writes env = 1 then (Inl (IoError Io_Other), b\<lparr>high_watermark := TextFile (show_nat (Suc n))\<rparr>)
     else (Inr (fresh_task env input (of_nat n + 1)),
       write_task (fresh_task env input (of_nat n + 1)) (b\<lparr>high_watermark := TextFile (show_nat (Suc n))\<rparr>)))"
    using assms(2) by (simp add: create_task_def with_lock_def read_watermark next_id Let_def)
  have "task_id (fresh_task env input (of_nat n + 1)) = show_nat (Suc n)"
    using True by (simp add: fresh_task_def next_id)
  with ok True assms(1) lost created show ?thesis
    by (auto simp: write_task_def write_task_at_def split: if_splits)
next
  case False
  then have "\<exists>e. create_task env input b = (Inl e, b)"
    using assms(2)
    by (auto simp: create_task_def with_lock_def read_watermark Let_def split: lock_result.splits)
  with assms(1) refused show ?thesis by auto
qed

section \<open>Histories\<close>

datatype board_op =
    CreateTask call_env new_task
  | ClaimTask call_env string string
  | UpdateStatus call_env string task_status

fun board_step :: "board_op \<Rightarrow> task_board \<Rightarrow> (team_error + team_task) \<times> task_board" where
  "board_step (CreateTask env input) b = create_task env input b"
| "board_step (ClaimTask env i member) b = claim_task env i member b"
| "board_step (UpdateStatus env i next) b = update_status env i next b"

definition board_after :: "board_op list \<Rightarrow> task_board \<Rightarrow> task_board" where
  "board_after ops b = fold (\<lambda>p b. snd (board_step p b)) ops b"

lemma board_after_simps [simp]:
  "board_after [] b = b"
  "board_after (p # ops) b = board_after ops (snd (board_step p b))"
  by (simp_all add: board_after_def)

lemma board_after_induct:
  assumes "P b" and "\<And>p b. p \<in> set ops \<Longrightarrow> P b \<Longrightarrow> P (snd (board_step p b))"
  shows "P (board_after ops b)"
  using assms by (induction ops arbitrary: b) auto

definition board_ok :: "task_board \<Rightarrow> bool" where
  "board_ok b \<longleftrightarrow> (\<exists>n. watermark_is b n \<and> numbered b n)"

lemma empty_board_ok: "board_ok empty_board"
  by (auto simp: board_ok_def watermark_is_def numbered_def empty_board_def)

lemma watermark_fields [simp]:
  "high_watermark (write_task_at i t b) = high_watermark b"
  "task_files (write_task_at i t b) = fmupd i (TaskFile t) (task_files b)"
  by (simp_all add: write_task_at_def)

lemma numbered_read:
  "numbered b n \<Longrightarrow> read_task b i = Inr t \<Longrightarrow> task_id t = i \<and> (\<exists>k. i = show_nat k \<and> 1 \<le> k \<and> k \<le> n)"
  unfolding numbered_def read_task_def
  by (cases "fmlookup (task_files b) i") (fastforce split: task_file.splits)+

lemma numbered_write:
  "numbered b n \<Longrightarrow> read_task b i = Inr t \<Longrightarrow> task_id t' = task_id t \<Longrightarrow> numbered (write_task_at i t' b) n"
  using numbered_read [of b n i t] by (auto simp: numbered_def)

lemma board_step_ok:
  assumes "board_ok b"
  shows "board_ok (snd (board_step p b))"
proof -
  from assms obtain n where n: "watermark_is b n" "numbered b n" by (auto simp: board_ok_def)
  have keep: "board_ok (write_task_at i t' b)" if "read_task b i = Inr t" "task_id t' = task_id t" for i t t'
    using n numbered_write [OF n(2) that] by (auto simp: board_ok_def watermark_is_def)
  obtain r b' where step: "board_step p b = (r, b')" by fastforce
  have "board_ok b'"
  proof (cases p)
    case (CreateTask env input)
    with step have "create_task env input b = (r, b')" by simp
    from this n(1) show ?thesis
    proof (cases rule: create_task_cases)
      case refused
      with assms show ?thesis by simp
    next
      case lost
      have "numbered b' (Suc n)" using lost n(2) unfolding numbered_def by (fastforce simp: le_Suc_eq)
      with lost show ?thesis by (auto simp: board_ok_def watermark_is_def)
    next
      case created
      have id: "task_id (fresh_task env input (of_nat n + 1)) = show_nat (Suc n)"
        using created(2) by (simp add: fresh_task_def next_id)
      have "numbered b' (Suc n)"
        unfolding numbered_def
      proof (intro allI impI)
        fix i f
        assume f: "fmlookup (task_files b') i = Some f"
        show "\<exists>t k. f = TaskFile t \<and> task_id t = i \<and> i = show_nat k \<and> 1 \<le> k \<and> k \<le> Suc n"
        proof (cases "i = show_nat (Suc n)")
          case True
          with f created(3) id show ?thesis by (auto intro!: exI [of _ "Suc n"])
        next
          case False
          with f created(3) have "fmlookup (task_files b) i = Some f" by (auto split: if_splits)
          with n(2) obtain t k where "f = TaskFile t \<and> task_id t = i \<and> i = show_nat k \<and> 1 \<le> k \<and> k \<le> n"
            unfolding numbered_def by blast
          then show ?thesis by (auto intro!: exI [of _ k])
        qed
      qed
      with created show ?thesis by (auto simp: board_ok_def watermark_is_def)
    qed
  next
    case (ClaimTask env i member)
    with step have "claim_task env i member b = (r, b')" by simp
    then show ?thesis
      by (cases rule: claim_task_cases) (use assms keep in \<open>auto simp: claimed_task_def\<close>)
  next
    case (UpdateStatus env i st)
    with step have "update_status env i st b = (r, b')" by simp
    then show ?thesis
      by (cases rule: update_status_cases) (use assms keep in auto)
  qed
  with step show ?thesis by simp
qed

lemma board_after_ok: "board_ok b \<Longrightarrow> board_ok (board_after ops b)"
  by (rule board_after_induct) (auto intro: board_step_ok)

lemma numbered_fresh: "numbered b n \<Longrightarrow> fmlookup (task_files b) (show_nat (Suc n)) = None"
  by (cases "fmlookup (task_files b) (show_nat (Suc n))") (fastforce simp: numbered_def show_nat_inj)+

lemma created_id_fresh:
  assumes "board_ok b" and "create_task env input b = (Inr t, b')"
  shows "fmlookup (task_files b) (task_id t) = None"
    and "b' = b\<lparr>high_watermark := TextFile (task_id t),
              task_files := fmupd (task_id t) (TaskFile t) (task_files b)\<rparr>"
proof -
  from assms(1) obtain n where n: "watermark_is b n" "numbered b n" by (auto simp: board_ok_def)
  from assms(2) have *: "t = fresh_task env input (of_nat n + 1) \<and> Suc n < 2 ^ 64 \<and>
    b' = write_task_at (show_nat (Suc n)) t (b\<lparr>high_watermark := TextFile (show_nat (Suc n))\<rparr>)"
    using n(1) by (cases rule: create_task_cases) auto
  then have id: "task_id t = show_nat (Suc n)" by (simp add: fresh_task_def next_id)
  show "fmlookup (task_files b) (task_id t) = None" using numbered_fresh [OF n(2)] id by simp
  show "b' = b\<lparr>high_watermark := TextFile (task_id t),
              task_files := fmupd (task_id t) (TaskFile t) (task_files b)\<rparr>"
    using * id by (simp add: write_task_at_def)
qed

section \<open>The order of work\<close>

definition started :: "task_status \<Rightarrow> bool" where
  "started st \<longleftrightarrow> st \<in> {Claimed, InProgress, Completed}"

definition settled :: "task_status \<Rightarrow> bool" where
  "settled st \<longleftrightarrow> st \<in> {Completed, Deleted}"

definition blockers_settled :: "task_board \<Rightarrow> team_task \<Rightarrow> bool" where
  "blockers_settled b t \<longleftrightarrow>
     (\<forall>d \<in> set (blocked_by t). \<exists>u. read_task b d = Inr u \<and> settled (task_status u))"

definition work_ok :: "task_board \<Rightarrow> bool" where
  "work_ok b \<longleftrightarrow>
     (\<forall>i t. read_task b i = Inr t \<longrightarrow> started (task_status t) \<longrightarrow>
        task_owner t \<noteq> None \<and> blockers_settled b t)"

lemma settled_forever: "valid_transition st st' \<Longrightarrow> settled st \<Longrightarrow> settled st'"
  by (cases st; cases st') (simp_all add: settled_def)

lemma started_before: "valid_transition st st' \<Longrightarrow> st' \<noteq> Claimed \<Longrightarrow> started st' \<Longrightarrow> started st"
  by (cases st; cases st') (simp_all add: started_def)

lemma blockers_settled_write:
  assumes "blockers_settled b u" and "read_task b i = Inr t"
    and "settled (task_status t) \<Longrightarrow> settled (task_status t')"
  shows "blockers_settled (write_task_at i t' b) u"
  unfolding blockers_settled_def
proof
  fix d
  assume "d \<in> set (blocked_by u)"
  with assms(1) obtain v where "read_task b d = Inr v" "settled (task_status v)"
    by (auto simp: blockers_settled_def)
  with assms(2,3) show "\<exists>v. read_task (write_task_at i t' b) d = Inr v \<and> settled (task_status v)"
    by (cases "d = i") auto
qed

lemma work_ok_write:
  assumes "work_ok b" and "read_task b i = Inr t"
    and "settled (task_status t) \<Longrightarrow> settled (task_status t')"
    and "started (task_status t') \<Longrightarrow> task_owner t' \<noteq> None \<and> blockers_settled b t'"
  shows "work_ok (write_task_at i t' b)"
  unfolding work_ok_def
proof (intro allI impI)
  fix j u
  assume read: "read_task (write_task_at i t' b) j = Inr u" and st: "started (task_status u)"
  have "task_owner u \<noteq> None \<and> blockers_settled b u"
  proof (cases "j = i")
    case True
    with read st assms(4) show ?thesis by simp
  next
    case False
    with read have "read_task b j = Inr u" by simp
    with st assms(1) show ?thesis unfolding work_ok_def by blast
  qed
  with blockers_settled_write [OF _ assms(2)] assms(3)
  show "task_owner u \<noteq> None \<and> blockers_settled (write_task_at i t' b) u" by blast
qed

lemma read_watermark_upd [simp]: "read_task (b\<lparr>high_watermark := w\<rparr>) i = read_task b i"
  by (simp add: read_task_def)

lemma work_ok_watermark [simp]: "work_ok (b\<lparr>high_watermark := w\<rparr>) = work_ok b"
  by (simp add: work_ok_def blockers_settled_def)

lemma work_ok_create:
  assumes "work_ok b" and "fmlookup (task_files b) i = None" and "task_status t = Pending"
  shows "work_ok (write_task_at i t b)"
  unfolding work_ok_def
proof (intro allI impI)
  fix j u
  assume read: "read_task (write_task_at i t b) j = Inr u" and st: "started (task_status u)"
  then have ji: "j \<noteq> i" using assms(3) by (auto simp: started_def)
  with read st assms(1) have u: "task_owner u \<noteq> None" "blockers_settled b u"
    unfolding work_ok_def by auto
  have "d \<noteq> i" if "read_task b d = Inr v" for d v
    using that assms(2) by (auto simp: read_task_def)
  with u(2) have "blockers_settled (write_task_at i t b) u"
    by (auto simp: blockers_settled_def)
  with u show "task_owner u \<noteq> None \<and> blockers_settled (write_task_at i t b) u" by simp
qed

text \<open>A status update that claims a task without going through \<open>claim_task\<close>.\<close>

fun manual_claim :: "board_op \<Rightarrow> bool" where
  "manual_claim (UpdateStatus _ _ st) = (st = Claimed)"
| "manual_claim _ = False"

lemma board_step_work:
  assumes "board_ok b" and "work_ok b" and "\<not> manual_claim p"
  shows "work_ok (snd (board_step p b))"
proof -
  obtain r b' where step: "board_step p b = (r, b')" by fastforce
  have "work_ok b'"
  proof (cases p)
    case (CreateTask env input)
    with step have create: "create_task env input b = (r, b')" by simp
    from assms(1) obtain n where n: "watermark_is b n" "numbered b n" by (auto simp: board_ok_def)
    show ?thesis
      using create n(1)
    proof (cases rule: create_task_cases)
      case created
      have "fmlookup (task_files (b\<lparr>high_watermark := TextFile (show_nat (Suc n))\<rparr>)) (show_nat (Suc n)) = None"
        using numbered_fresh [OF n(2)] by simp
      moreover have "task_status (fresh_task env input (of_nat n + 1)) = Pending"
        by (simp add: fresh_task_def)
      ultimately show ?thesis using created(3) work_ok_create assms(2) by simp
    qed (use assms(2) in auto)
  next
    case (ClaimTask env i member)
    with step have "claim_task env i member b = (r, b')" by simp
    then show ?thesis
    proof (cases rule: claim_task_cases)
      case (claimed t)
      have "blockers_settled b (claimed_task env member t)"
        using claimed(6) by (auto simp: blockers_settled_def claimed_task_def settled_def)
      moreover have "task_owner (claimed_task env member t) \<noteq> None" by (simp add: claimed_task_def)
      moreover have "\<not> settled (task_status t)" using claimed(3) by (simp add: settled_def)
      ultimately show ?thesis
        unfolding claimed(4) by (intro work_ok_write [OF assms(2) claimed(2)]) simp_all
    qed (use assms(2) in simp)
  next
    case (UpdateStatus env i st)
    with step have "update_status env i st b = (r, b')" by simp
    then show ?thesis
    proof (cases rule: update_status_cases)
      case (updated t)
      have "task_owner t \<noteq> None \<and> blockers_settled b t" if "started st"
      proof -
        have "started (task_status t)"
          using that updated(3) assms(3) UpdateStatus started_before by fastforce
        with updated(2) assms(2) show ?thesis unfolding work_ok_def by blast
      qed
      then show ?thesis
        unfolding updated(4)
        by (intro work_ok_write [OF assms(2) updated(2)])
          (auto simp: settled_forever [OF updated(3)] blockers_settled_def)
    qed (use assms(2) in simp)
  qed
  with step show ?thesis by simp
qed

lemma empty_board_work: "work_ok empty_board"
  by (simp add: work_ok_def read_task_def empty_board_def)

lemma board_after_work:
  assumes "list_all (\<lambda>p. \<not> manual_claim p) ops"
  shows "work_ok (board_after ops empty_board)"
proof -
  have "board_ok (board_after ops empty_board) \<and> work_ok (board_after ops empty_board)"
    by (rule board_after_induct)
      (use assms in \<open>auto simp: empty_board_ok empty_board_work board_step_ok board_step_work list_all_iff\<close>)
  then show ?thesis by simp
qed

section \<open>Held claims\<close>

text \<open>A call that changes the file of a task other than by a claim.\<close>

fun updates_task :: "string \<Rightarrow> board_op \<Rightarrow> bool" where
  "updates_task i (UpdateStatus _ j _) = (i = j)"
| "updates_task i _ = False"

lemma claim_refused:
  assumes "read_task b i = Inr t" and "task_status t \<noteq> Pending"
  shows "\<exists>e. claim_task env i member b = (Inl e, b)"
proof -
  obtain r b' where c: "claim_task env i member b = (r, b')" by fastforce
  then show ?thesis by (cases rule: claim_task_cases) (use assms c in auto)
qed

lemma board_step_holds:
  assumes "board_ok b" and "read_task b i = Inr t" and "task_status t \<noteq> Pending"
    and "\<not> updates_task i p"
  shows "read_task (snd (board_step p b)) i = Inr t"
proof -
  obtain r b' where step: "board_step p b = (r, b')" by fastforce
  have "read_task b' i = Inr t"
  proof (cases p)
    case (CreateTask env input)
    with step have create: "create_task env input b = (r, b')" by simp
    from assms(1) obtain n where n: "watermark_is b n" "numbered b n" by (auto simp: board_ok_def)
    have fresh: "i \<noteq> show_nat (Suc n)"
      using numbered_fresh [OF n(2)] assms(2) by (auto simp: read_task_def)
    from create n(1) show ?thesis
      by (cases rule: create_task_cases) (use assms(2) fresh in auto)
  next
    case (ClaimTask env j member)
    with step have "claim_task env j member b = (r, b')" by simp
    then show ?thesis
      by (cases rule: claim_task_cases) (use assms in auto)
  next
    case (UpdateStatus env j st)
    with step have "update_status env j st b = (r, b')" by simp
    then show ?thesis
      by (cases rule: update_status_cases) (use assms UpdateStatus in auto)
  qed
  with step show ?thesis by simp
qed

lemma board_after_holds:
  assumes "board_ok b" and "read_task b i = Inr t" and "task_status t \<noteq> Pending"
    and "list_all (\<lambda>p. \<not> updates_task i p) ops"
  shows "read_task (board_after ops b) i = Inr t"
proof -
  have "board_ok (board_after ops b) \<and> read_task (board_after ops b) i = Inr t"
    by (rule board_after_induct)
      (use assms in \<open>auto simp: board_step_ok board_step_holds list_all_iff\<close>)
  then show ?thesis by simp
qed

section \<open>Listing\<close>

lemma set_list_tasks:
  "set (list_tasks entries status owner b) =
     {t. \<exists>i \<in> set entries. \<not> starts_with (i @ ''.json'') ''.'' \<and> read_task b i = Inr t \<and>
         task_matches status owner t}"
proof -
  have "t \<in> set (listed_task b i) \<longleftrightarrow> \<not> starts_with (i @ ''.json'') ''.'' \<and> read_task b i = Inr t" for t i
    by (cases "read_task b i") (auto simp: listed_task_def)
  then show ?thesis by (auto simp: list_tasks_def)
qed

lemma list_tasks_sorted: "sorted (map numeric_id (list_tasks entries status owner b))"
  by (simp add: list_tasks_def)

end
