(* ===== verification/Team_Locks.thy ===== *)
theory Team_Locks
  imports Team_Spec Rust_Num
begin

text \<open>
  The lock files of the team mode (\<open>next-code-swarm-core/src/team/locks.rs\<close>): exclusive
  creation of a file, the verdict whether the owner of a lock is dead, and \<open>with_lock_stale\<close>
  as the interleaved steps of any number of callers. A caller is a call of \<open>with_lock\<close>; its
  process may die at any step. The steps of a caller are the system calls of the loop: the
  exclusive creation, the writing of the body, the reading of a lock that is there, its removal
  after a stale verdict, and the release. A lock file carries its creator, which tells two
  files of the same path apart as their inodes do. A cached verdict that the lock is not
  stale is a reading without effect; sleeping and jitter only delay a caller.
\<close>

section \<open>Lock bodies and verdicts\<close>

definition lock_body :: "string \<Rightarrow> nat \<Rightarrow> nat \<Rightarrow> string \<Rightarrow> string" where
  "lock_body tag pid acquired host =
     tag @ nl @ show_nat pid @ nl @ show_nat acquired @ nl @ host @ nl"

text \<open>\<open>None\<close> stands for a file that cannot be read.\<close>

definition stale_check :: "(nat \<Rightarrow> bool) \<Rightarrow> nat \<Rightarrow> nat \<Rightarrow> string option \<Rightarrow> bool" where
  "stale_check pid_alive epoch_ms stale file =
     (case file of
        None \<Rightarrow> False
      | Some content \<Rightarrow>
          (let ls = filter (\<lambda>l. l \<noteq> []) (lines content) in
           if length ls \<noteq> 4 then False
           else case (parse_uint 32 (ls ! 1), parse_uint 128 (ls ! 2)) of
               (Some pid, Some acquired) \<Rightarrow> \<not> pid_alive pid \<and> epoch_ms - acquired > stale
             | _ \<Rightarrow> False))"

text \<open>The xorshift step of \<open>retry_jitter\<close> on the state of the thread, 0 at first.\<close>

definition xorshift :: "u64 \<Rightarrow> u64" where
  "xorshift s0 =
     (let s1 = xor s0 (push_bit 13 s0); s2 = xor s1 (drop_bit 7 s1) in xor s2 (push_bit 17 s2))"

definition retry_jitter :: "u64 option \<Rightarrow> nat \<times> u64 option" where
  "retry_jitter rng =
     (let s = xorshift (unwrap_or rng 0); s' = (if s = 0 then 1 else s)
      in (max 1 (unat s' mod 26), Some s))"

text \<open>The state starts at 0, where xorshift stays: every jitter is one millisecond.\<close>

lemma jitter_is_constant:
  "retry_jitter None = (1, Some 0)" "retry_jitter (Some 0) = (1, Some 0)"
  by (simp_all add: retry_jitter_def xorshift_def)

lemma stale_check_body:
  assumes "one_line tag" and "tag \<noteq> []" and "one_line host" and "host \<noteq> []"
    and "pid < 2 ^ 32" and "acquired < 2 ^ 128"
  shows "stale_check alive t stale (Some (lock_body tag pid acquired host)) \<longleftrightarrow>
    \<not> alive pid \<and> stale < t - acquired"
proof -
  have "lines (lock_body tag pid acquired host) = [tag, show_nat pid, show_nat acquired, host]"
    using assms lines_one_line [of host "[]"] by (simp add: lock_body_def lines_one_line)
  then have "filter (\<lambda>l. l \<noteq> []) (lines (lock_body tag pid acquired host)) =
      [tag, show_nat pid, show_nat acquired, host]"
    using assms by simp
  then show ?thesis
    using assms by (simp add: stale_check_def parse_show_nat)
qed

lemma stale_check_empty [simp]: "\<not> stale_check alive t stale (Some [])"
  by (simp add: stale_check_def)

section \<open>Callers\<close>

text \<open>
  Callers, by number: the process each runs in, its owner tag and host name, its stale
  threshold and its acquire timeout.
\<close>

record lock_config =
  proc :: "nat \<Rightarrow> nat"
  owner_tag :: "nat \<Rightarrow> string"
  host :: "nat \<Rightarrow> string"
  stale_after :: "nat \<Rightarrow> nat"
  acquire_timeout :: "nat \<Rightarrow> nat"

definition default_stale_ms :: nat where "default_stale_ms = 300000"

definition lock_wait_timeout_ms :: nat where "lock_wait_timeout_ms = 15000"

definition config_ok :: "lock_config \<Rightarrow> bool" where
  "config_ok k \<longleftrightarrow>
     (\<forall>c. one_line (owner_tag k c) \<and> owner_tag k c \<noteq> [] \<and> one_line (host k c) \<and> host k c \<noteq> [] \<and>
          proc k c < 2 ^ 32)"

text \<open>
  \<open>Trying\<close> and \<open>Reaping\<close> remember when the call started, \<open>Reaping\<close> also whose lock was
  judged stale; the ghost flag \<open>overtaken\<close> records that a lock was removed that is not the
  one the verdict was about.
\<close>

datatype lock_phase = Outside | Trying nat | Reaping nat nat | Writing | Holding

record lock_state =
  lock_file :: "(nat \<times> string) option"
  phase :: "nat \<Rightarrow> lock_phase"
  dead :: "nat set"
  clock :: nat
  overtaken :: bool

definition lock_init :: lock_state where
  "lock_init = \<lparr>lock_file = None, phase = (\<lambda>_. Outside), dead = {}, clock = 0, overtaken = False\<rparr>"

datatype lock_event =
    Call nat | CreateNew nat | WriteBody nat | WriteFails nat | Look nat | RemoveStale nat
  | Release nat | GiveUp nat | Crash nat | Tick

definition live :: "lock_config \<Rightarrow> lock_state \<Rightarrow> nat \<Rightarrow> bool" where
  "live k s c \<longleftrightarrow> proc k c \<notin> dead s"

definition judged_stale :: "lock_config \<Rightarrow> lock_state \<Rightarrow> nat \<Rightarrow> bool" where
  "judged_stale k s c \<longleftrightarrow>
     stale_check (\<lambda>p. p \<notin> dead s) (clock s) (stale_after k c) (map_option snd (lock_file s))"

definition set_phase :: "nat \<Rightarrow> lock_phase \<Rightarrow> lock_state \<Rightarrow> lock_state" where
  "set_phase c ph s = s\<lparr>phase := (phase s)(c := ph)\<rparr>"

text \<open>
  The steps. The body of a lock goes to the file its caller created, even when the path
  holds another one by now; a failing write leaves the created file behind.
\<close>

fun lock_step :: "lock_config \<Rightarrow> lock_event \<Rightarrow> lock_state \<Rightarrow> lock_state option" where
  "lock_step k (Call c) s =
     (if live k s c \<and> phase s c = Outside then Some (set_phase c (Trying (clock s)) s) else None)"
| "lock_step k (CreateNew c) s =
     (case phase s c of
        Trying _ \<Rightarrow>
          if live k s c \<and> lock_file s = None
          then Some (set_phase c Writing (s\<lparr>lock_file := Some (c, [])\<rparr>)) else None
      | _ \<Rightarrow> None)"
| "lock_step k (WriteBody c) s =
     (if live k s c \<and> phase s c = Writing
      then Some (set_phase c Holding
             (s\<lparr>lock_file := (case lock_file s of
                  Some (cr, content) \<Rightarrow>
                    if cr = c then Some (c, lock_body (owner_tag k c) (proc k c) (clock s) (host k c))
                    else Some (cr, content)
                | None \<Rightarrow> None)\<rparr>))
      else None)"
| "lock_step k (WriteFails c) s =
     (if live k s c \<and> phase s c = Writing then Some (set_phase c Outside s) else None)"
| "lock_step k (Look c) s =
     (case (phase s c, lock_file s) of
        (Trying t, Some (cr, content)) \<Rightarrow>
          if live k s c
          then Some (if judged_stale k s c then set_phase c (Reaping t cr) s else s) else None
      | _ \<Rightarrow> None)"
| "lock_step k (RemoveStale c) s =
     (case phase s c of
        Reaping t cr \<Rightarrow>
          if live k s c
          then Some (set_phase c (Trying t)
                 (s\<lparr>lock_file := None,
                    overtaken := overtaken s \<or>
                      (case lock_file s of None \<Rightarrow> False | Some f \<Rightarrow> fst f \<noteq> cr)\<rparr>))
          else None
      | _ \<Rightarrow> None)"
| "lock_step k (Release c) s =
     (if live k s c \<and> phase s c = Holding
      then Some (set_phase c Outside (s\<lparr>lock_file := None\<rparr>)) else None)"
| "lock_step k (GiveUp c) s =
     (case phase s c of
        Trying t \<Rightarrow>
          if live k s c \<and> clock s - t > acquire_timeout k c then Some (set_phase c Outside s) else None
      | _ \<Rightarrow> None)"
| "lock_step k (Crash p) s = Some (s\<lparr>dead := insert p (dead s)\<rparr>)"
| "lock_step k Tick s = Some (s\<lparr>clock := clock s + 1\<rparr>)"

inductive lock_reachable :: "lock_config \<Rightarrow> lock_state \<Rightarrow> bool" for k where
  start: "lock_reachable k lock_init"
| step: "lock_reachable k s \<Longrightarrow> lock_step k e s = Some s' \<Longrightarrow> clock s' < 2 ^ 128 \<Longrightarrow> lock_reachable k s'"

fun lock_run :: "lock_config \<Rightarrow> lock_event list \<Rightarrow> lock_state \<Rightarrow> lock_state option" where
  "lock_run k [] s = Some s"
| "lock_run k (e # es) s = (case lock_step k e s of None \<Rightarrow> None | Some s' \<Rightarrow> lock_run k es s')"

text \<open>A caller is in the section from the creation of the file to its release.\<close>

definition in_section :: "lock_config \<Rightarrow> lock_state \<Rightarrow> nat \<Rightarrow> bool" where
  "in_section k s c \<longleftrightarrow> live k s c \<and> (phase s c = Writing \<or> phase s c = Holding)"

section \<open>Mutual exclusion\<close>

definition body_of :: "lock_config \<Rightarrow> nat \<Rightarrow> string \<Rightarrow> bool" where
  "body_of k c content \<longleftrightarrow>
     content = [] \<or>
     (\<exists>t < 2 ^ 128. content = lock_body (owner_tag k c) (proc k c) t (host k c))"

lemma body_of_intros:
  "body_of k c []"
  "t < 2 ^ 128 \<Longrightarrow> body_of k c (lock_body (owner_tag k c) (proc k c) t (host k c))"
  by (auto simp: body_of_def)

definition files_ok :: "lock_config \<Rightarrow> lock_state \<Rightarrow> bool" where
  "files_ok k s \<longleftrightarrow> (\<forall>cr content. lock_file s = Some (cr, content) \<longrightarrow> body_of k cr content)"

text \<open>Who is judged stale is dead.\<close>

definition reap_ok :: "lock_config \<Rightarrow> lock_state \<Rightarrow> bool" where
  "reap_ok k s \<longleftrightarrow> (\<forall>c t cr. phase s c = Reaping t cr \<longrightarrow> proc k cr \<in> dead s)"

text \<open>The file belongs to the live caller in the section.\<close>

definition owner_ok :: "lock_config \<Rightarrow> lock_state \<Rightarrow> bool" where
  "owner_ok k s \<longleftrightarrow>
     (\<forall>c. live k s c \<and> phase s c \<in> {Writing, Holding} \<longrightarrow> (\<exists>content. lock_file s = Some (c, content)))"

definition lock_inv :: "lock_config \<Rightarrow> lock_state \<Rightarrow> bool" where
  "lock_inv k s \<longleftrightarrow>
     clock s < 2 ^ 128 \<and> files_ok k s \<and> reap_ok k s \<and> (overtaken s \<longrightarrow> dead s \<noteq> {}) \<and>
     (\<not> overtaken s \<longrightarrow> owner_ok k s)"

lemma set_phase_simps [simp]:
  "lock_file (set_phase c ph s) = lock_file s" "dead (set_phase c ph s) = dead s"
  "clock (set_phase c ph s) = clock s" "overtaken (set_phase c ph s) = overtaken s"
  "phase (set_phase c ph s) d = (if d = c then ph else phase s d)"
  by (simp_all add: set_phase_def)

lemma live_set_phase [simp]: "live k (set_phase c ph s) d = live k s d"
  by (simp add: live_def)

lemma judged_stale_dead:
  assumes "config_ok k" and "lock_file s = Some (cr, content)" and "body_of k cr content"
    and "judged_stale k s c"
  shows "proc k cr \<in> dead s"
proof -
  from assms(2,4) have st: "stale_check (\<lambda>p. p \<notin> dead s) (clock s) (stale_after k c) (Some content)"
    by (simp add: judged_stale_def)
  then have "content \<noteq> []" by auto
  with assms(3) obtain t where "t < 2 ^ 128"
    and "content = lock_body (owner_tag k cr) (proc k cr) t (host k cr)"
    by (auto simp: body_of_def)
  with st assms(1) show ?thesis by (simp add: stale_check_body config_ok_def)
qed

lemma step_files_ok:
  assumes "lock_step k e s = Some s'" and "files_ok k s" and "clock s < 2 ^ 128"
  shows "files_ok k s'"
  using assms
  by (cases e) (auto simp: files_ok_def body_of_intros split: if_splits lock_phase.splits option.splits)

lemma step_reap_ok:
  assumes "lock_step k e s = Some s'" and "reap_ok k s" and "files_ok k s" and "config_ok k"
  shows "reap_ok k s'"
proof (cases e)
  case (Look c)
  then obtain t cr content where s: "phase s c = Trying t" "lock_file s = Some (cr, content)"
    and s': "s' = (if judged_stale k s c then set_phase c (Reaping t cr) s else s)"
    using assms(1) by (auto split: lock_phase.splits option.splits if_splits)
  show ?thesis
  proof (cases "judged_stale k s c")
    case True
    with assms(3,4) s have "proc k cr \<in> dead s"
      by (intro judged_stale_dead) (auto simp: files_ok_def)
    with True s' assms(2) show ?thesis by (simp add: reap_ok_def)
  qed (use s' assms(2) in simp)
qed (use assms in \<open>auto simp: reap_ok_def split: if_splits lock_phase.splits\<close>)

lemma step_ghost:
  assumes "lock_step k e s = Some s'" and "reap_ok k s" and "overtaken s \<longrightarrow> dead s \<noteq> {}"
  shows "overtaken s' \<longrightarrow> dead s' \<noteq> {}" and "overtaken s \<Longrightarrow> overtaken s'"
  using assms
  by (cases e; force simp: reap_ok_def split: if_splits lock_phase.splits option.splits)+

lemma owner_unique:
  assumes "owner_ok k s" and "live k s c \<and> phase s c \<in> {Writing, Holding}"
    and "live k s d \<and> phase s d \<in> {Writing, Holding}"
  shows "c = d"
proof -
  from assms obtain x y where "lock_file s = Some (c, x)" "lock_file s = Some (d, y)"
    unfolding owner_ok_def by meson
  then show ?thesis by simp
qed

lemma step_owner_ok:
  assumes "lock_step k e s = Some s'" and "owner_ok k s" and "reap_ok k s" and "\<not> overtaken s'"
  shows "owner_ok k s'"
proof (cases e)
  case (RemoveStale c)
  then obtain t cr where p: "phase s c = Reaping t cr"
    and s': "s' = set_phase c (Trying t) (s\<lparr>lock_file := None,
       overtaken := overtaken s \<or> (case lock_file s of None \<Rightarrow> False | Some f \<Rightarrow> fst f \<noteq> cr)\<rparr>)"
    using assms(1) by (auto split: lock_phase.splits if_splits)
  have "proc k cr \<in> dead s" using p assms(3) by (auto simp: reap_ok_def)
  moreover have "\<not> (\<exists>f. lock_file s = Some f \<and> fst f \<noteq> cr)" using assms(4) s' by auto
  ultimately have "\<not> (live k s d \<and> phase s d \<in> {Writing, Holding})" for d
    using assms(2) unfolding owner_ok_def live_def by fastforce
  then show ?thesis using s' by (auto simp: owner_ok_def live_def)
next
  case (Release c)
  then have "live k s c" "phase s c = Holding"
    and s': "s' = set_phase c Outside (s\<lparr>lock_file := None\<rparr>)"
    using assms(1) by (auto split: if_splits)
  with owner_unique [OF assms(2)] have "c = d" if "live k s d \<and> phase s d \<in> {Writing, Holding}" for d
    using that by simp
  then show ?thesis using s' by (auto simp: owner_ok_def live_def)
next
  case (CreateNew c)
  with assms have "\<not> (live k s d \<and> phase s d \<in> {Writing, Holding})" for d
    unfolding owner_ok_def by (auto split: lock_phase.splits if_splits)
  moreover have "s' = set_phase c Writing (s\<lparr>lock_file := Some (c, [])\<rparr>)"
    using CreateNew assms(1) by (auto split: lock_phase.splits if_splits)
  ultimately show ?thesis by (auto simp: owner_ok_def live_def)
next
  case (WriteBody c)
  then have c: "live k s c" "phase s c = Writing" using assms(1) by (auto split: if_splits)
  then obtain content where f: "lock_file s = Some (c, content)"
    using assms(2) unfolding owner_ok_def by blast
  have only: "c = d" if "live k s d \<and> phase s d \<in> {Writing, Holding}" for d
    using owner_unique [OF assms(2) _ that] c by simp
  from WriteBody c f assms(1) have "s' = set_phase c Holding
      (s\<lparr>lock_file := Some (c, lock_body (owner_tag k c) (proc k c) (clock s) (host k c))\<rparr>)"
    by simp
  with only show ?thesis by (auto simp: owner_ok_def live_def)
qed (use assms in \<open>auto simp: owner_ok_def live_def split: if_splits lock_phase.splits option.splits\<close>)

lemma lock_step_inv:
  assumes "config_ok k" and "lock_inv k s" and "lock_step k e s = Some s'" and "clock s' < 2 ^ 128"
  shows "lock_inv k s'"
  using assms step_files_ok [OF assms(3)] step_reap_ok [OF assms(3)] step_ghost [OF assms(3)]
    step_owner_ok [OF assms(3)]
  by (auto simp: lock_inv_def)

lemma reachable_lock_inv: "lock_reachable k s \<Longrightarrow> config_ok k \<Longrightarrow> lock_inv k s"
proof (induction rule: lock_reachable.induct)
  case start
  then show ?case
    by (simp add: lock_inv_def lock_init_def files_ok_def reap_ok_def owner_ok_def)
qed (auto intro: lock_step_inv)

lemma section_owner:
  assumes "lock_inv k s" and "\<not> overtaken s" and "in_section k s c"
  shows "\<exists>content. lock_file s = Some (c, content)"
  using assms by (auto simp: lock_inv_def owner_ok_def in_section_def)

lemma run_reachable:
  "lock_run k es s = Some s' \<Longrightarrow> lock_reachable k s \<Longrightarrow> clock s' < 2 ^ 128 \<Longrightarrow> lock_reachable k s'"
proof (induction es arbitrary: s)
  case (Cons e es)
  from Cons.prems(1) obtain m where m: "lock_step k e s = Some m" "lock_run k es m = Some s'"
    by (auto split: option.splits)
  have mono: "clock u \<le> clock v" if "lock_run k fs u = Some v" for fs u v
    using that
  proof (induction fs arbitrary: u)
    case (Cons f fs)
    then obtain w where w: "lock_step k f u = Some w" "lock_run k fs w = Some v"
      by (auto split: option.splits)
    have "clock u \<le> clock w"
      using w(1) by (cases f) (auto split: if_splits lock_phase.splits option.splits)
    with Cons.IH [OF w(2)] show ?case by simp
  qed simp
  have "clock m < 2 ^ 128" using mono [OF m(2)] Cons.prems(3) by simp
  then show ?case using Cons.IH [OF m(2)] Cons.prems(2,3) m(1) lock_reachable.step by blast
qed simp

section \<open>A lock whose body could not be written\<close>

text \<open>Its file stays for good: it is never judged stale, and nobody else may remove it.\<close>

definition orphaned :: "lock_config \<Rightarrow> lock_state \<Rightarrow> bool" where
  "orphaned k s \<longleftrightarrow>
     (\<exists>cr. lock_file s = Some (cr, []) \<and> phase s cr \<noteq> Writing) \<and>
     (\<forall>c. (\<forall>t cr. phase s c \<noteq> Reaping t cr) \<and> phase s c \<noteq> Writing \<and> phase s c \<noteq> Holding)"

lemma orphaned_forever:
  assumes "lock_step k e s = Some s'" and "orphaned k s"
  shows "orphaned k s'"
  using assms
  by (cases e) (auto simp: orphaned_def judged_stale_def split: if_splits lock_phase.splits option.splits)

end
