(* ===== verification/Team_State.thy ===== *)
theory Team_State
  imports Team_Tasks
begin

text \<open>
  The run store of the team mode (\<open>next-code-swarm-core/src/team/state.rs\<close>): one
  \<open>state.json\<close> per run, and beside it the inboxes of the members and the task board, which
  the mailbox and the task list own. The environment of a write says how the lock
  acquisition ended and whether the disk accepts the write; run ids and capability tokens
  are the values the uuid generator gave.
\<close>

datatype state_file = UnreadableState | NotJsonState | StateFile team_runtime_state

text \<open>Inbox files by name, with their bytes, and the files moved to \<open>processed/\<close>.\<close>

record mailbox =
  unread_files :: "(string, string) fmap"
  processed_files :: "(string, string) fmap"

definition empty_mailbox :: mailbox where
  "empty_mailbox = \<lparr>unread_files = fmempty, processed_files = fmempty\<rparr>"

record team_store =
  run_files :: "(string, state_file) fmap"
  inboxes :: "(string \<times> string, mailbox) fmap"
  boards :: "(string, task_board) fmap"

definition empty_store :: team_store where
  "empty_store = \<lparr>run_files = fmempty, inboxes = fmempty, boards = fmempty\<rparr>"

definition expected_version :: u8 where
  "expected_version = 1"

definition load_runtime :: "team_store \<Rightarrow> string \<Rightarrow> team_error + team_runtime_state" where
  "load_runtime s run =
     (case fmlookup (run_files s) run of
        None \<Rightarrow> err (RunNotFound run)
      | Some UnreadableState \<Rightarrow> err (IoError Io_Other)
      | Some NotJsonState \<Rightarrow> err JsonError
      | Some (StateFile st) \<Rightarrow>
          if run_version st \<noteq> expected_version
          then err (UnsupportedSchemaVersion run (run_version st) expected_version)
          else ok st)"

definition persist :: "bool \<Rightarrow> team_runtime_state \<Rightarrow> team_store \<Rightarrow> (team_error + unit) \<times> team_store" where
  "persist write_ok st s =
     (if write_ok
      then (ok (), s\<lparr>run_files := fmupd (team_run_id st) (StateFile st) (run_files s)\<rparr>)
      else (err (IoError Io_Other), s))"

definition initial_member :: "team_spec \<Rightarrow> team_member_spec \<Rightarrow> member_runtime" where
  "initial_member spec m =
     \<lparr>rm_name = member_name m, rm_session_id = None, tmux_pane_id = None,
      rm_agent_type = (if Some (member_name m) = lead_agent_id spec then Leader else GeneralPurpose),
      rm_subagent_type = (case m of SubagentMember _ t _ _ \<Rightarrow> Some t | CategoryMember _ _ _ _ \<Rightarrow> None),
      rm_category = (case m of CategoryMember _ c _ _ \<Rightarrow> Some c | SubagentMember _ _ _ _ \<Rightarrow> None),
      rm_status = MemberPending, rm_color = common_color (member_common_of m),
      rm_worktree = common_worktree (member_common_of m), last_injected_turn_marker = None,
      pending_injected_message_ids = []\<rparr>"

definition initial_state ::
  "string \<Rightarrow> string \<Rightarrow> int \<Rightarrow> team_spec \<Rightarrow> string \<Rightarrow> spec_source \<Rightarrow> team_runtime_state" where
  "initial_state run token created spec lead source =
     \<lparr>run_version = 1, team_run_id = run, team_name = spec_name spec, run_source = source,
      run_created_at = created, run_status = Creating, lead_session_id = Some lead,
      run_layout = None, run_members = map (initial_member spec) (spec_members spec),
      shutdown_requests = [], run_bounds = default_bounds, capability_token = token\<rparr>"

definition create_runtime ::
  "bool \<Rightarrow> string \<Rightarrow> string \<Rightarrow> int \<Rightarrow> team_spec \<Rightarrow> string \<Rightarrow> spec_source \<Rightarrow> team_store
     \<Rightarrow> (team_error + team_runtime_state) \<times> team_store" where
  "create_runtime write_ok run token created spec lead source s =
     (let st = initial_state run token created spec lead source in
      case persist write_ok st s of
        (Inl e, s') \<Rightarrow> (err e, s')
      | (Inr _, s') \<Rightarrow> (ok st, s'))"

record write_env =
  state_lock :: lock_result
  state_write :: bool
  state_lock_path :: string

definition transition ::
  "write_env \<Rightarrow> string \<Rightarrow> (team_runtime_state \<Rightarrow> team_runtime_state) \<Rightarrow> team_store
     \<Rightarrow> (team_error + team_runtime_state) \<times> team_store" where
  "transition env run mutate s =
     (case state_lock env of
        LockTimedOut \<Rightarrow> (err (LockTimeout (state_lock_path env)), s)
      | LockFailed \<Rightarrow> (err (IoError Io_Other), s)
      | LockGranted \<Rightarrow>
          (case load_runtime s run of
             Inl e \<Rightarrow> (err e, s)
           | Inr st \<Rightarrow>
               (let st' = mutate st in
                case persist (state_write env) st' s of
                  (Inl e, s') \<Rightarrow> (err e, s')
                | (Inr _, s') \<Rightarrow> (ok st', s'))))"

text \<open>The runs that are being created or active, in the order \<open>dirs\<close> of the directory.\<close>

definition active_run :: "team_store \<Rightarrow> string \<Rightarrow> team_runtime_state list" where
  "active_run s run =
     (case load_runtime s run of
        Inl _ \<Rightarrow> []
      | Inr st \<Rightarrow> if run_status st \<in> {Creating, RunActive} then [st] else [])"

definition list_active_runs :: "string list \<Rightarrow> team_store \<Rightarrow> team_runtime_state list" where
  "list_active_runs dirs s = concat (map (active_run s) dirs)"

section \<open>Facts\<close>

lemma load_persisted:
  "fmlookup (run_files s) run = Some (StateFile st) \<Longrightarrow> run_version st = 1 \<Longrightarrow> load_runtime s run = Inr st"
  by (simp add: load_runtime_def expected_version_def)

lemma load_runtime_ok:
  "load_runtime s run = Inr st \<longleftrightarrow>
     fmlookup (run_files s) run = Some (StateFile st) \<and> run_version st = 1"
proof (cases "fmlookup (run_files s) run")
  case (Some f)
  then show ?thesis by (cases f) (auto simp: load_runtime_def expected_version_def)
qed (simp add: load_runtime_def)

lemma transition_cases [op_elims]:
  assumes "transition env run mutate s = (r, s')"
  obtains (refused) e where "r = Inl e" "s' = s"
  | (changed) st where "load_runtime s run = Inr st" "r = Inr (mutate st)"
      "s' = s\<lparr>run_files := fmupd (team_run_id (mutate st)) (StateFile (mutate st)) (run_files s)\<rparr>"
proof (cases "state_lock env = LockGranted \<and> state_write env \<and> (\<exists>st. load_runtime s run = Inr st)")
  case True
  then obtain st where "load_runtime s run = Inr st" by blast
  with True assms changed show ?thesis by (simp add: transition_def persist_def Let_def)
next
  case False
  then have "\<exists>e. transition env run mutate s = (Inl e, s)"
    by (cases "state_lock env"; cases "load_runtime s run") (simp_all add: transition_def persist_def Let_def)
  with assms refused show ?thesis by auto
qed

lemma set_list_active_runs:
  "set (list_active_runs dirs s) =
     {st. \<exists>run \<in> set dirs. load_runtime s run = Inr st \<and> run_status st \<in> {Creating, RunActive}}"
proof -
  have "st \<in> set (active_run s run) \<longleftrightarrow>
      load_runtime s run = Inr st \<and> run_status st \<in> {Creating, RunActive}" for st run
    by (cases "load_runtime s run") (auto simp: active_run_def)
  then show ?thesis by (auto simp: list_active_runs_def)
qed

end
