(* ===== verification/Team_Mailbox.thy ===== *)
theory Team_Mailbox
  imports Team_State
begin

text \<open>
  The file mailbox of a team run (\<open>next-code-swarm-core/src/team/mailbox.rs\<close>). An inbox is
  a finite map from file names to bytes; message ids are plain file names. The JSON codec is
  a parameter: \<open>render\<close> is \<open>to_string_pretty\<close>, \<open>parse\<close> is \<open>from_str\<close>.
\<close>

section \<open>Capabilities\<close>

definition byte_word :: "char \<Rightarrow> u8" where
  "byte_word c = of_nat (byte c)"

fun diff_bytes :: "u8 \<Rightarrow> string \<Rightarrow> string \<Rightarrow> u8" where
  "diff_bytes d (x # xs) (y # ys) = diff_bytes (or d (xor (byte_word x) (byte_word y))) xs ys"
| "diff_bytes d _ _ = d"

definition subtle_equals :: "string \<Rightarrow> string \<Rightarrow> bool" where
  "subtle_equals a b \<longleftrightarrow> length a = length b \<and> diff_bytes 0 a b = 0"

definition verify_capability :: "team_store \<Rightarrow> string \<Rightarrow> string \<Rightarrow> team_error + team_runtime_state" where
  "verify_capability s run token =
     and_then (load_runtime s run) (\<lambda>st.
       if capability_token st = [] then ok st
       else if subtle_equals (capability_token st) token then ok st
       else err (MailboxAuthFailed run))"

lemma byte_word_inj: "byte_word x = byte_word y \<longleftrightarrow> x = y"
proof
  assume "byte_word x = byte_word y"
  then have "unat (of_nat (byte x) :: u8) = unat (of_nat (byte y) :: u8)" by (simp add: byte_word_def)
  moreover have "byte c < 256" for c by (simp add: byte_def)
  ultimately have "byte x = byte y" by (simp add: unsigned_of_nat take_bit_eq_mod)
  then show "x = y" by (simp add: byte_def)
qed simp

lemma or_zero_iff: "or (a :: u8) b = 0 \<longleftrightarrow> a = 0 \<and> b = 0"
  by (rule or_eq_0_iff)

lemma xor_zero_iff: "xor (a :: u8) b = 0 \<longleftrightarrow> a = b"
proof
  have "xor (xor a b) b = a" by (simp add: xor.assoc)
  then show "xor a b = 0 \<Longrightarrow> a = b" by simp
qed simp

lemma diff_bytes_zero: "length a = length b \<Longrightarrow> diff_bytes d a b = 0 \<longleftrightarrow> d = 0 \<and> a = b"
proof (induction a arbitrary: b d)
  case (Cons x xs)
  then obtain y ys where "b = y # ys" by (cases b) auto
  with Cons show ?case by (auto simp: or_zero_iff xor_zero_iff byte_word_inj)
qed simp

text \<open>The constant-time comparison is equality.\<close>

lemma subtle_equals_iff: "subtle_equals a b \<longleftrightarrow> a = b"
  by (auto simp: subtle_equals_def diff_bytes_zero)

lemma verify_capability_iff:
  "verify_capability s run token = Inr st \<longleftrightarrow>
     load_runtime s run = Inr st \<and> (capability_token st = [] \<or> capability_token st = token)"
  by (auto simp: verify_capability_def and_then_ok_iff subtle_equals_iff split: if_splits)

section \<open>Inboxes\<close>

definition unreserved_name :: "string \<Rightarrow> string" where
  "unreserved_name i = i @ ''.json''"

definition reserved_name :: "string \<Rightarrow> string" where
  "reserved_name i = ''.delivering-'' @ i @ ''.json''"

definition inbox_of :: "team_store \<Rightarrow> string \<Rightarrow> string \<Rightarrow> mailbox" where
  "inbox_of s run member = unwrap_or (fmlookup (inboxes s) (run, member)) empty_mailbox"

definition counts_as_unread :: "string \<Rightarrow> bool" where
  "counts_as_unread name \<longleftrightarrow>
     ends_with name ''.json'' \<and> (\<not> starts_with name ''.'' \<or> starts_with name ''.delivering-'')"

definition unread_size_bytes :: "mailbox \<Rightarrow> nat" where
  "unread_size_bytes box =
     (\<Sum>name \<leftarrow> filter counts_as_unread (sorted_list_of_fset (fmdom (unread_files box))).
        length (unwrap_or (fmlookup (unread_files box) name) []))"

section \<open>Sending\<close>

record json_codec =
  render :: "team_message \<Rightarrow> string"
  parse :: "string \<Rightarrow> team_message option"

record send_context =
  is_lead :: bool
  active_members :: "string list"
  reserved_recipients :: "string list"
  recipient_unread_max_bytes :: nat
  presented_token :: string

definition lead_context :: "string list \<Rightarrow> string \<Rightarrow> send_context" where
  "lead_context active token =
     \<lparr>is_lead = True, active_members = active, reserved_recipients = [],
      recipient_unread_max_bytes = team_recipient_unread_max_bytes, presented_token = token\<rparr>"

record send_result =
  sent_id :: string
  delivered_to :: "string list"

text \<open>How the delivery to each recipient fares: its lock and its write.\<close>

record delivery_env =
  inbox_lock :: "string \<Rightarrow> lock_result"
  inbox_write :: "string \<Rightarrow> bool"
  inbox_lock_path :: "string \<Rightarrow> string"

text \<open>The delivery to one recipient, under the lock of its inbox.\<close>

definition deliver ::
  "delivery_env \<Rightarrow> team_message \<Rightarrow> string \<Rightarrow> send_context \<Rightarrow> string \<Rightarrow> mailbox \<Rightarrow> team_error + mailbox" where
  "deliver env msg serialized ctx recipient box =
     (case inbox_lock env recipient of
        LockTimedOut \<Rightarrow> err (LockTimeout (inbox_lock_path env recipient))
      | LockFailed \<Rightarrow> err (IoError Io_Other)
      | LockGranted \<Rightarrow>
          if unread_size_bytes box + length serialized > recipient_unread_max_bytes ctx
          then err RecipientBackpressure
          else if unreserved_name (message_id msg) |\<in>| fmdom (unread_files box) \<or>
                  reserved_name (message_id msg) |\<in>| fmdom (unread_files box)
          then err (DuplicateMessageId (message_id msg))
          else if \<not> inbox_write env recipient then err (IoError Io_Other)
          else
            let target = (if recipient \<in> set (reserved_recipients ctx)
                          then reserved_name (message_id msg) else unreserved_name (message_id msg))
            in ok (box\<lparr>unread_files := fmupd target serialized (unread_files box)\<rparr>))"

fun deliver_all ::
  "delivery_env \<Rightarrow> team_message \<Rightarrow> string \<Rightarrow> send_context \<Rightarrow> string \<Rightarrow> string list \<Rightarrow> string list \<Rightarrow> team_store
     \<Rightarrow> (team_error + string list) \<times> team_store" where
  "deliver_all env msg serialized ctx run [] delivered s = (ok delivered, s)"
| "deliver_all env msg serialized ctx run (r # rs) delivered s =
     (case deliver env msg serialized ctx r (inbox_of s run r) of
        Inl e \<Rightarrow> (err e, s)
      | Inr box \<Rightarrow>
          deliver_all env msg serialized ctx run rs (delivered @ [r])
            (s\<lparr>inboxes := fmupd (run, r) box (inboxes s)\<rparr>))"

fun validate_names :: "string list \<Rightarrow> team_error + unit" where
  "validate_names [] = ok ()"
| "validate_names (n # ns) = and_then (validate_member_name n) (\<lambda>_. validate_names ns)"

definition recipients_of :: "team_message \<Rightarrow> send_context \<Rightarrow> string list" where
  "recipients_of msg ctx =
     (if msg_to msg = ''*'' then remdups_adj (sort (active_members ctx)) else [msg_to msg])"

text \<open>The checks before the first delivery, in the order of the code.\<close>

definition admit ::
  "team_store \<Rightarrow> team_message \<Rightarrow> string \<Rightarrow> send_context \<Rightarrow> team_error + string list" where
  "admit s msg run ctx =
     and_then
       (case verify_capability s run (presented_token ctx) of
          Inr st \<Rightarrow> ok (Some st)
        | Inl e \<Rightarrow> (case e of RunNotFound _ \<Rightarrow> ok None | _ \<Rightarrow> err e))
       (\<lambda>state.
     and_then (validate_names (filter (\<lambda>n. n \<noteq> ''*'') [msg_from msg, msg_to msg])) (\<lambda>_.
       if length (msg_body msg) > team_message_max_bytes then err PayloadTooLarge
       else if (case state of None \<Rightarrow> False | Some st \<Rightarrow> run_status st \<in> {Deleting, RunDeleted})
       then err TeamDeleting
       else if msg_to msg = ''*'' \<and> \<not> is_lead ctx then err BroadcastNotPermitted
       else and_then (validate_names (recipients_of msg ctx)) (\<lambda>_. ok (recipients_of msg ctx))))"

definition send_message ::
  "json_codec \<Rightarrow> delivery_env \<Rightarrow> team_message \<Rightarrow> string \<Rightarrow> send_context \<Rightarrow> team_store
     \<Rightarrow> (team_error + send_result) \<times> team_store" where
  "send_message j env msg run ctx s =
     (case admit s msg run ctx of
        Inl e \<Rightarrow> (err e, s)
      | Inr rs \<Rightarrow>
          (case deliver_all env msg (render j msg @ nl) ctx run rs [] s of
             (Inl e, s') \<Rightarrow> (err e, s')
           | (Inr ds, s') \<Rightarrow> (ok \<lparr>sent_id = message_id msg, delivered_to = ds\<rparr>, s')))"

section \<open>Reading and acknowledging\<close>

text \<open>\<open>names\<close> is the order the directory gives its files in.\<close>

definition unread_message :: "json_codec \<Rightarrow> mailbox \<Rightarrow> string \<Rightarrow> team_message list" where
  "unread_message j box name =
     (if starts_with name ''.'' \<or> \<not> ends_with name ''.json'' then []
      else case fmlookup (unread_files box) name of
          None \<Rightarrow> []
        | Some content \<Rightarrow> (case parse j content of None \<Rightarrow> [] | Some m \<Rightarrow> [m]))"

definition list_unread :: "json_codec \<Rightarrow> string list \<Rightarrow> team_store \<Rightarrow> string \<Rightarrow> string \<Rightarrow> team_message list" where
  "list_unread j names s run member =
     sort_key timestamp (concat (map (unread_message j (inbox_of s run member)) names))"

definition poll_messages ::
  "json_codec \<Rightarrow> string list \<Rightarrow> team_store \<Rightarrow> string \<Rightarrow> string \<Rightarrow> string list \<Rightarrow> team_message list" where
  "poll_messages j names s run member already_pending =
     filter (\<lambda>m. message_id m \<notin> set already_pending) (list_unread j names s run member)"

text \<open>\<open>rename\<close> into \<open>processed/\<close>, replacing what is there.\<close>

definition move_processed :: "string \<Rightarrow> string \<Rightarrow> mailbox \<Rightarrow> mailbox option" where
  "move_processed src target box =
     (case fmlookup (unread_files box) src of
        None \<Rightarrow> None
      | Some content \<Rightarrow>
          Some (box\<lparr>unread_files := fmdrop src (unread_files box),
                    processed_files := fmupd target content (processed_files box)\<rparr>))"

definition ack_one :: "string \<Rightarrow> mailbox \<Rightarrow> mailbox" where
  "ack_one i box =
     (case move_processed (unreserved_name i) (i @ ''.json'') box of
        Some box' \<Rightarrow> box'
      | None \<Rightarrow> unwrap_or (move_processed (reserved_name i) (i @ ''.json'') box) box)"

definition acknowledge :: "string \<Rightarrow> string \<Rightarrow> string list \<Rightarrow> team_store \<Rightarrow> team_store" where
  "acknowledge run member ids s =
     s\<lparr>inboxes := fmupd (run, member) (fold ack_one ids (inbox_of s run member)) (inboxes s)\<rparr>"

end
