(* ===== verification/Team_Runtime.thy ===== *)
theory Team_Runtime
  imports Team_Mailbox
begin

text \<open>
  The life of a team run (\<open>next-code-swarm-core/src/team/runtime.rs\<close>): the checks of a team
  specification, the creation of a run, whose members are spawned by a bounded pool of
  threads, and its shutdown and deletion. The threads are interleaved steps over the shared
  cursor, the failure slot and the run store; what the spawner answers is part of the step.
  The tmux calls (\<open>layout.rs\<close>) are outside: only their answers enter.
\<close>

section \<open>Specifications\<close>

definition member_limit_error :: "string \<Rightarrow> team_error" where
  "member_limit_error name = InvalidTeamName name (''max '' @ show_nat team_max_members @ '' members'')"

definition normalize_spec :: "team_spec \<Rightarrow> team_error + team_spec" where
  "normalize_spec spec =
     (if spec_members spec = []
      then err (InvalidTeamName (spec_name spec) ''team needs at least one member'')
      else if length (spec_members spec) > team_max_members then err (member_limit_error (spec_name spec))
      else and_then (validate_names (map member_name (spec_members spec))) (\<lambda>_.
        ok (if lead_agent_id spec = None
            then spec\<lparr>lead_agent_id := Some (member_name (hd (spec_members spec)))\<rparr> else spec)))"

fun check_eligible :: "team_member_spec list \<Rightarrow> team_error + unit" where
  "check_eligible [] = ok ()"
| "check_eligible (m # ms) =
     (case assert_eligible (agent_type m) of
        Inl reason \<Rightarrow> err (IneligibleAgent (member_name m) reason)
      | Inr _ \<Rightarrow> check_eligible ms)"

definition build_member_prompt :: "team_spec \<Rightarrow> team_member_spec \<Rightarrow> string \<Rightarrow> string" where
  "build_member_prompt spec m run =
     join nl
       ([''Team: '' @ spec_name spec, ''TeamRunId: '' @ run, ''Member: '' @ member_name m]
        @ (case common_worktree (member_common_of m) of None \<Rightarrow> [] | Some wt \<Rightarrow> [''Worktree: '' @ wt])
        @ (case m of
             CategoryMember _ _ prompt _ \<Rightarrow> [prompt]
           | SubagentMember _ _ prompt _ \<Rightarrow> (case prompt of None \<Rightarrow> [] | Some p \<Rightarrow> [p])))"

definition find_existing_run ::
  "string list \<Rightarrow> string \<Rightarrow> string \<Rightarrow> team_store \<Rightarrow> team_runtime_state option" where
  "find_existing_run dirs name lead s =
     find (\<lambda>st. team_name st = name \<and> lead_session_id st = Some lead) (list_active_runs dirs s)"

section \<open>Preparing a run\<close>

text \<open>What the outside decides of a creation: the uuids, the clock, the disk.\<close>

record create_env =
  new_run_id :: string
  new_token :: string
  created_at :: int
  run_dirs :: "string list"
  state_write_ok :: bool
  base_dirs_ok :: bool

datatype prepared = Existing team_runtime_state | Prepared team_spec team_runtime_state team_store

definition prepare_team ::
  "create_env \<Rightarrow> team_spec \<Rightarrow> string \<Rightarrow> team_store \<Rightarrow> (team_error + prepared) \<times> team_store" where
  "prepare_team env spec lead s =
     (case and_then (normalize_spec spec) (\<lambda>spec'.
             and_then (validate_team_name (spec_name spec')) (\<lambda>_.
               and_then (check_eligible (spec_members spec')) (\<lambda>_. ok spec'))) of
        Inl e \<Rightarrow> (err e, s)
      | Inr spec' \<Rightarrow>
          (case find_existing_run (run_dirs env) (spec_name spec') lead s of
             Some st \<Rightarrow> (ok (Existing st), s)
           | None \<Rightarrow>
               (case create_runtime (state_write_ok env) (new_run_id env) (new_token env)
                       (created_at env) spec' lead ProjectSource s of
                  (Inl e, s') \<Rightarrow> (err e, s')
                | (Inr st, s') \<Rightarrow>
                    if base_dirs_ok env then (ok (Prepared spec' st s'), s')
                    else (err (IoError Io_Other), s'))))"

section \<open>Spawning the members\<close>

text \<open>The place of a thread in its loop.\<close>

datatype spawn_phase = Checking | Fetching | Spawning nat | Recording nat string | Returned

text \<open>
  \<open>launches\<close>, \<open>recorded\<close> and \<open>skipped\<close> are ghost fields: the members the spawner was
  called for, the sessions the run state took, and the members whose session it did not
  take because the ignored result of \<open>transition\<close> was an error.
\<close>

record spawn_state =
  sp_store :: team_store
  cursor :: nat
  failure :: "team_error option"
  sp_phase :: "nat \<Rightarrow> spawn_phase"
  launches :: "nat list"
  recorded :: "nat \<Rightarrow> string option"
  skipped :: "nat list"

definition spawn_init :: "team_store \<Rightarrow> spawn_state" where
  "spawn_init s =
     \<lparr>sp_store = s, cursor = 0, failure = None, sp_phase = (\<lambda>_. Checking), launches = [],
      recorded = (\<lambda>_. None), skipped = []\<rparr>"

definition worker_count :: "team_runtime_state \<Rightarrow> team_spec \<Rightarrow> nat" where
  "worker_count st spec =
     max 1 (min (max_parallel_members (run_bounds st)) (length (spec_members spec)))"

definition deadline_error :: team_error where
  "deadline_error = TaskError ''wall-clock deadline exceeded for team spawn''"

fun mark_running :: "string \<Rightarrow> string \<Rightarrow> member_runtime list \<Rightarrow> member_runtime list" where
  "mark_running name session [] = []"
| "mark_running name session (m # ms) =
     (if rm_name m = name then m\<lparr>rm_session_id := Some session, rm_status := MemberRunning\<rparr> # ms
      else m # mark_running name session ms)"

definition record_session :: "string \<Rightarrow> string \<Rightarrow> team_runtime_state \<Rightarrow> team_runtime_state" where
  "record_session name session st =
     st\<lparr>run_members := mark_running name session (run_members st)\<rparr>"

datatype spawn_event =
    CheckFailure nat
  | DeadlinePassed nat
  | FetchMember nat
  | SpawnOk nat string
  | SpawnErr nat team_error
  | RecordSession nat write_env

definition goto_phase :: "nat \<Rightarrow> spawn_phase \<Rightarrow> spawn_state \<Rightarrow> spawn_state" where
  "goto_phase w ph ss = ss\<lparr>sp_phase := (sp_phase ss)(w := ph)\<rparr>"

definition record_step :: "team_spec \<Rightarrow> string \<Rightarrow> write_env \<Rightarrow> nat \<Rightarrow> string \<Rightarrow> spawn_state \<Rightarrow> spawn_state" where
  "record_step spec run env i session ss =
     (case transition env run (record_session (member_name (spec_members spec ! i)) session) (sp_store ss) of
        (Inl _, s') \<Rightarrow> ss\<lparr>sp_store := s', skipped := skipped ss @ [i]\<rparr>
      | (Inr _, s') \<Rightarrow> ss\<lparr>sp_store := s', recorded := (recorded ss)(i := Some session)\<rparr>)"

fun spawn_step :: "team_spec \<Rightarrow> string \<Rightarrow> spawn_event \<Rightarrow> spawn_state \<Rightarrow> spawn_state option" where
  "spawn_step spec run (CheckFailure w) ss =
     (if sp_phase ss w = Checking
      then Some (goto_phase w (if failure ss \<noteq> None then Returned else Fetching) ss) else None)"
| "spawn_step spec run (DeadlinePassed w) ss =
     (if sp_phase ss w = Fetching
      then Some (goto_phase w Returned (ss\<lparr>failure := Some deadline_error\<rparr>)) else None)"
| "spawn_step spec run (FetchMember w) ss =
     (if sp_phase ss w = Fetching
      then
        let i = cursor ss; ss' = ss\<lparr>cursor := i + 1\<rparr>
        in Some (if i < length (spec_members spec)
                 then goto_phase w (Spawning i) (ss'\<lparr>launches := launches ss' @ [i]\<rparr>)
                 else goto_phase w Returned ss')
      else None)"
| "spawn_step spec run (SpawnOk w session) ss =
     (case sp_phase ss w of
        Spawning i \<Rightarrow> Some (goto_phase w (Recording i session) ss)
      | _ \<Rightarrow> None)"
| "spawn_step spec run (SpawnErr w e) ss =
     (case sp_phase ss w of
        Spawning i \<Rightarrow> Some (goto_phase w Returned (ss\<lparr>failure := Some e\<rparr>))
      | _ \<Rightarrow> None)"
| "spawn_step spec run (RecordSession w env) ss =
     (case sp_phase ss w of
        Recording i session \<Rightarrow> Some (goto_phase w Checking (record_step spec run env i session ss))
      | _ \<Rightarrow> None)"

fun event_worker :: "spawn_event \<Rightarrow> nat" where
  "event_worker (CheckFailure w) = w"
| "event_worker (DeadlinePassed w) = w"
| "event_worker (FetchMember w) = w"
| "event_worker (SpawnOk w _) = w"
| "event_worker (SpawnErr w _) = w"
| "event_worker (RecordSession w _) = w"

text \<open>The states \<open>n\<close> threads can bring the spawning to.\<close>

inductive spawning :: "team_spec \<Rightarrow> string \<Rightarrow> nat \<Rightarrow> team_store \<Rightarrow> spawn_state \<Rightarrow> bool"
  for spec run n s where
  start: "spawning spec run n s (spawn_init s)"
| step: "spawning spec run n s ss \<Longrightarrow> event_worker e < n \<Longrightarrow> spawn_step spec run e ss = Some ss'
    \<Longrightarrow> spawning spec run n s ss'"

fun spawn_run :: "team_spec \<Rightarrow> string \<Rightarrow> spawn_event list \<Rightarrow> spawn_state \<Rightarrow> spawn_state option" where
  "spawn_run spec run [] ss = Some ss"
| "spawn_run spec run (e # es) ss =
     (case spawn_step spec run e ss of None \<Rightarrow> None | Some ss' \<Rightarrow> spawn_run spec run es ss')"

definition joined :: "nat \<Rightarrow> spawn_state \<Rightarrow> bool" where
  "joined n ss \<longleftrightarrow> (\<forall>w < n. sp_phase ss w = Returned)"

section \<open>Deleting, finishing and shutting down\<close>

text \<open>
  The removal of the run directory takes the state, the inboxes and the task board of the
  run; a failing removal is ignored, and is taken to have removed nothing.
\<close>

definition remove_run :: "string \<Rightarrow> team_store \<Rightarrow> team_store" where
  "remove_run run s =
     s\<lparr>run_files := fmdrop run (run_files s),
       inboxes := fmfilter (\<lambda>k. fst k \<noteq> run) (inboxes s),
       boards := fmdrop run (boards s)\<rparr>"

definition with_status :: "runtime_status \<Rightarrow> team_runtime_state \<Rightarrow> team_runtime_state" where
  "with_status st r = r\<lparr>run_status := st\<rparr>"

definition delete_team :: "write_env \<Rightarrow> write_env \<Rightarrow> bool \<Rightarrow> string \<Rightarrow> team_store \<Rightarrow> team_store" where
  "delete_team env1 env2 remove_ok run s =
     (let s1 = snd (transition env1 run (with_status Deleting) s);
          s2 = snd (transition env2 run (with_status RunDeleted) s1)
      in if remove_ok then remove_run run s2 else s2)"

record finish_env =
  delete_env1 :: write_env
  delete_env2 :: write_env
  delete_remove_ok :: bool
  activate_env :: write_env

definition finish_team ::
  "finish_env \<Rightarrow> string \<Rightarrow> spawn_state \<Rightarrow> (team_error + team_runtime_state) \<times> team_store" where
  "finish_team env run ss =
     (case failure ss of
        Some e \<Rightarrow> (err e, delete_team (delete_env1 env) (delete_env2 env) (delete_remove_ok env) run (sp_store ss))
      | None \<Rightarrow> transition (activate_env env) run (with_status RunActive) (sp_store ss))"

text \<open>\<open>create_team\<close>: every result an interleaving of the spawning threads can give.\<close>

inductive create_team ::
  "create_env \<Rightarrow> finish_env \<Rightarrow> team_spec \<Rightarrow> string \<Rightarrow> team_store
     \<Rightarrow> (team_error + team_runtime_state) \<times> team_store \<Rightarrow> bool"
  for env fenv spec lead s where
  refused: "prepare_team env spec lead s = (Inl e, s') \<Longrightarrow> create_team env fenv spec lead s (err e, s')"
| existing: "prepare_team env spec lead s = (Inr (Existing st), s')
    \<Longrightarrow> create_team env fenv spec lead s (ok st, s')"
| spawned: "prepare_team env spec lead s = (Inr (Prepared spec' st s'), s1)
    \<Longrightarrow> n = worker_count st spec'
    \<Longrightarrow> spawning spec' (team_run_id st) n s' ss \<Longrightarrow> joined n ss
    \<Longrightarrow> create_team env fenv spec lead s (finish_team fenv (team_run_id st) ss)"

definition shutdown_message :: "string \<Rightarrow> string \<Rightarrow> string \<Rightarrow> int \<Rightarrow> team_message" where
  "shutdown_message i from_name to_name at =
     \<lparr>msg_version = 1, message_id = i, msg_from = from_name, msg_to = to_name,
      msg_kind = ShutdownRequestKind, msg_body = ''Please wrap up and shut down.'',
      msg_summary = None, msg_references = [], timestamp = at, correlation_id = None, msg_color = None\<rparr>"

text \<open>
  The requests of \<open>shutdown_team\<close>: \<open>ids\<close> and \<open>stamps\<close> give the fresh message id and the
  time for each member; a failed delivery is dropped.
\<close>

fun request_shutdowns ::
  "json_codec \<Rightarrow> delivery_env \<Rightarrow> (string \<Rightarrow> string) \<Rightarrow> (string \<Rightarrow> int) \<Rightarrow> send_context \<Rightarrow> string \<Rightarrow> string
     \<Rightarrow> member_runtime list \<Rightarrow> team_store \<Rightarrow> team_store" where
  "request_shutdowns j env ids stamps ctx run lead [] s = s"
| "request_shutdowns j env ids stamps ctx run lead (m # ms) s =
     request_shutdowns j env ids stamps ctx run lead ms
       (if rm_name m = lead then s
        else snd (send_message j env
               (shutdown_message (ids (rm_name m)) lead (rm_name m) (stamps (rm_name m))) run ctx s))"

definition lead_name :: "team_runtime_state \<Rightarrow> string" where
  "lead_name st =
     (case find (\<lambda>m. rm_agent_type m = Leader) (run_members st) of
        Some m \<Rightarrow> rm_name m
      | None \<Rightarrow> ''lead'')"

definition shutdown_team ::
  "json_codec \<Rightarrow> delivery_env \<Rightarrow> (string \<Rightarrow> string) \<Rightarrow> (string \<Rightarrow> int) \<Rightarrow> write_env \<Rightarrow> string \<Rightarrow> team_store
     \<Rightarrow> (team_error + unit) \<times> team_store" where
  "shutdown_team j env ids stamps wenv run s =
     (case load_runtime s run of
        Inl e \<Rightarrow> (err e, s)
      | Inr st \<Rightarrow>
          (let ctx = lead_context (map rm_name (run_members st)) (capability_token st);
               s1 = request_shutdowns j env ids stamps ctx run (lead_name st) (run_members st) s
           in case transition wenv run (with_status ShutdownRequested) s1 of
                (Inl e, s2) \<Rightarrow> (err e, s2)
              | (Inr _, s2) \<Rightarrow> (ok (), s2)))"

definition set_panes :: "string \<Rightarrow> (string \<Rightarrow> string option) \<Rightarrow> team_runtime_state \<Rightarrow> team_runtime_state" where
  "set_panes target panes st =
     st\<lparr>run_layout := Some \<lparr>owned_session = False, target_session_id = target,
          focus_window_id = Some target, grid_window_id = None\<rparr>,
        run_members := map (\<lambda>m. case panes (rm_name m) of
            None \<Rightarrow> m | Some p \<Rightarrow> m\<lparr>tmux_pane_id := Some p\<rparr>) (run_members st)\<rparr>"

text \<open>The answers of tmux: whether a layout can be shown, and the pane of each member.\<close>

definition activate_team_layout ::
  "bool \<Rightarrow> team_error + (string \<Rightarrow> string option) \<Rightarrow> write_env \<Rightarrow> string \<Rightarrow> string \<Rightarrow> team_store
     \<Rightarrow> (team_error + unit) \<times> team_store" where
  "activate_team_layout can_visualize layout env run target s =
     (if \<not> can_visualize then (ok (), s)
      else case load_runtime s run of
          Inl e \<Rightarrow> (err e, s)
        | Inr _ \<Rightarrow>
            (case layout of
               Inl e \<Rightarrow> (err e, s)
             | Inr panes \<Rightarrow>
                 (case transition env run (set_panes target panes) s of
                    (Inl e, s') \<Rightarrow> (err e, s')
                  | (Inr _, s') \<Rightarrow> (ok (), s'))))"

end
