(* ===== verification/Team_Mail_Facts.thy ===== *)
theory Team_Mail_Facts
  imports Team_Mailbox
begin

text \<open>
  What sending, reading and acknowledging do to the inboxes: who may send, what a
  delivery adds, and how far a broadcast gets when a recipient refuses.
\<close>

section \<open>Sizes\<close>

lemma unread_size_sum:
  "unread_size_bytes box =
     (\<Sum>name | name |\<in>| fmdom (unread_files box) \<and> counts_as_unread name.
        length (unwrap_or (fmlookup (unread_files box) name) []))"
proof -
  have "distinct (filter counts_as_unread (sorted_list_of_fset (fmdom (unread_files box))))"
    by (simp add: sorted_list_of_fset.rep_eq)
  then show ?thesis
    unfolding unread_size_bytes_def
    by (subst sum_list_distinct_conv_sum_set) (auto intro: sum.cong)
qed

lemma unread_size_add:
  assumes "name |\<notin>| fmdom (unread_files box)"
  shows "unread_size_bytes (box\<lparr>unread_files := fmupd name content (unread_files box)\<rparr>)
    = unread_size_bytes box + (if counts_as_unread name then length content else 0)"
proof -
  let ?S = "{n. n |\<in>| fmdom (unread_files box) \<and> counts_as_unread n}"
  let ?len = "\<lambda>n. length (unwrap_or (fmlookup (unread_files box) n) [])"
  let ?len' = "\<lambda>n. length (unwrap_or (fmlookup (fmupd name content (unread_files box)) n) [])"
  have fin: "finite ?S" by (rule finite_subset [of _ "fset (fmdom (unread_files box))"]) auto
  have new: "{n. n |\<in>| finsert name (fmdom (unread_files box)) \<and> counts_as_unread n} =
      (if counts_as_unread name then insert name ?S else ?S)"
    by auto
  have same: "sum ?len' ?S = sum ?len ?S"
    by (rule sum.cong) (use assms in auto)
  have "unread_size_bytes (box\<lparr>unread_files := fmupd name content (unread_files box)\<rparr>) =
      sum ?len' (if counts_as_unread name then insert name ?S else ?S)"
    unfolding unread_size_sum new [symmetric] by simp
  also have "\<dots> = sum ?len ?S + (if counts_as_unread name then length content else 0)"
    using fin same assms by simp
  finally show ?thesis by (simp only: unread_size_sum)
qed

section \<open>One delivery\<close>

text \<open>A delivery puts one new file with the message into the inbox and respects its bound.\<close>

definition stored :: "string \<Rightarrow> string \<Rightarrow> nat \<Rightarrow> mailbox \<Rightarrow> mailbox \<Rightarrow> bool" where
  "stored i content bound box box' \<longleftrightarrow>
     (\<exists>name \<in> {unreserved_name i, reserved_name i}.
        unreserved_name i |\<notin>| fmdom (unread_files box) \<and> reserved_name i |\<notin>| fmdom (unread_files box) \<and>
        box' = box\<lparr>unread_files := fmupd name content (unread_files box)\<rparr>) \<and>
     unread_size_bytes box' \<le> bound"

lemma deliver_stored:
  assumes "deliver env msg content ctx r box = Inr box'"
  shows "stored (message_id msg) content (recipient_unread_max_bytes ctx) box box'"
proof -
  let ?name = "if r \<in> set (reserved_recipients ctx) then reserved_name (message_id msg)
    else unreserved_name (message_id msg)"
  from assms have fits: "unread_size_bytes box + length content \<le> recipient_unread_max_bytes ctx"
    and new: "unreserved_name (message_id msg) |\<notin>| fmdom (unread_files box)"
      "reserved_name (message_id msg) |\<notin>| fmdom (unread_files box)"
    and box': "box' = box\<lparr>unread_files := fmupd ?name content (unread_files box)\<rparr>"
    by (auto simp: deliver_def Let_def split: lock_result.splits if_splits)
  have "unread_size_bytes box' \<le> unread_size_bytes box + length content"
    unfolding box' using new by (subst unread_size_add) auto
  with fits have "unread_size_bytes box' \<le> recipient_unread_max_bytes ctx" by simp
  moreover have "?name \<in> {unreserved_name (message_id msg), reserved_name (message_id msg)}" by simp
  ultimately show ?thesis unfolding stored_def using new box' by blast
qed

section \<open>All deliveries\<close>

lemma inbox_of_upd [simp]:
  "inbox_of (s\<lparr>inboxes := fmupd (run, r) box (inboxes s)\<rparr>) run' r' =
     (if run' = run \<and> r' = r then box else inbox_of s run' r')"
  by (auto simp: inbox_of_def)

lemma deliver_all_prefix:
  assumes "deliver_all env msg content ctx run rs delivered s = (res, s')" and "distinct rs"
  obtains k where "k \<le> length rs"
    and "\<And>r. r \<in> set (take k rs) \<Longrightarrow> deliver env msg content ctx r (inbox_of s run r) = Inr (inbox_of s' run r)"
    and "\<And>run' r. run' \<noteq> run \<or> r \<notin> set (take k rs) \<Longrightarrow> inbox_of s' run' r = inbox_of s run' r"
    and "run_files s' = run_files s" and "boards s' = boards s"
    and "case res of Inr ds \<Rightarrow> k = length rs \<and> ds = delivered @ rs
      | Inl e \<Rightarrow> k < length rs \<and> deliver env msg content ctx (rs ! k) (inbox_of s run (rs ! k)) = Inl e"
  using assms
proof (induction rs arbitrary: delivered s thesis)
  case Nil
  then show ?case by fastforce
next
  case (Cons r rs)
  show ?case
  proof (cases "deliver env msg content ctx r (inbox_of s run r)")
    case (Inl e)
    with Cons.prems(2) have "res = Inl e" "s' = s" by simp_all
    with Inl show ?thesis by (intro Cons.prems(1) [of 0]) simp_all
  next
    case (Inr box)
    let ?s = "s\<lparr>inboxes := fmupd (run, r) box (inboxes s)\<rparr>"
    from Inr Cons.prems(2) have rest: "deliver_all env msg content ctx run rs (delivered @ [r]) ?s = (res, s')"
      by simp
    have r: "r \<notin> set rs" "distinct rs" using Cons.prems(3) by simp_all
    from Cons.IH [OF _ rest r(2)] obtain k where k: "k \<le> length rs"
      "\<And>q. q \<in> set (take k rs) \<Longrightarrow> deliver env msg content ctx q (inbox_of ?s run q) = Inr (inbox_of s' run q)"
      "\<And>run' q. run' \<noteq> run \<or> q \<notin> set (take k rs) \<Longrightarrow> inbox_of s' run' q = inbox_of ?s run' q"
      "run_files s' = run_files ?s" "boards s' = boards ?s"
      "case res of Inr ds \<Rightarrow> k = length rs \<and> ds = (delivered @ [r]) @ rs
       | Inl e \<Rightarrow> k < length rs \<and> deliver env msg content ctx (rs ! k) (inbox_of ?s run (rs ! k)) = Inl e"
      by blast
    have rk: "r \<notin> set (take k rs)" using r(1) by (meson in_set_takeD)
    show ?thesis
    proof (rule Cons.prems(1) [of "Suc k"])
      fix q
      assume "q \<in> set (take (Suc k) (r # rs))"
      then show "deliver env msg content ctx q (inbox_of s run q) = Inr (inbox_of s' run q)"
        using k(2) [of q] k(3) [of run q] Inr rk by (cases "q = r") auto
    next
      fix run' q
      assume "run' \<noteq> run \<or> q \<notin> set (take (Suc k) (r # rs))"
      then show "inbox_of s' run' q = inbox_of s run' q" using k(3) [of run' q] by auto
    next
      show "case res of Inr ds \<Rightarrow> Suc k = length (r # rs) \<and> ds = delivered @ r # rs
        | Inl e \<Rightarrow> Suc k < length (r # rs) \<and>
            deliver env msg content ctx ((r # rs) ! Suc k) (inbox_of s run ((r # rs) ! Suc k)) = Inl e"
      proof (cases res)
        case (Inl e)
        with k(6) have "k < length rs" by simp
        with r(1) have "rs ! k \<noteq> r" by (metis nth_mem)
        with k(6) Inl show ?thesis by simp
      qed (use k(6) in simp)
    qed (use k in auto)
  qed
qed

section \<open>Admission\<close>

text \<open>Who may post to a run: nobody when it is being deleted, anybody when it is not there.\<close>

definition may_post :: "team_store \<Rightarrow> string \<Rightarrow> string \<Rightarrow> bool" where
  "may_post s run token \<longleftrightarrow>
     (case load_runtime s run of
        Inr st \<Rightarrow> (capability_token st = [] \<or> capability_token st = token) \<and>
                  run_status st \<notin> {Deleting, RunDeleted}
      | Inl e \<Rightarrow> (\<exists>r. e = RunNotFound r))"

definition well_addressed :: "team_message \<Rightarrow> send_context \<Rightarrow> bool" where
  "well_addressed msg ctx \<longleftrightarrow>
     (\<forall>n \<in> {msg_from msg, msg_to msg}. n = ''*'' \<or> validate_member_name n = Inr ()) \<and>
     (\<forall>r \<in> set (recipients_of msg ctx). validate_member_name r = Inr ()) \<and>
     length (msg_body msg) \<le> team_message_max_bytes \<and> (msg_to msg = ''*'' \<longrightarrow> is_lead ctx)"

lemma validate_names_iff: "validate_names ns = Inr () \<longleftrightarrow> (\<forall>n \<in> set ns. validate_member_name n = Inr ())"
proof (induction ns)
  case (Cons n ns)
  then show ?case by (cases "validate_member_name n") auto
qed simp

lemma admit_iff:
  "admit s msg run ctx = Inr rs \<longleftrightarrow>
     rs = recipients_of msg ctx \<and> may_post s run (presented_token ctx) \<and> well_addressed msg ctx"
proof -
  let ?auth = "case verify_capability s run (presented_token ctx) of
      Inr st \<Rightarrow> ok (Some st) | Inl e \<Rightarrow> (case e of RunNotFound _ \<Rightarrow> ok None | _ \<Rightarrow> err e)"
  have auth: "(\<exists>st. ?auth = Inr st \<and>
      \<not> (case st of None \<Rightarrow> False | Some st \<Rightarrow> run_status st \<in> {Deleting, RunDeleted})) \<longleftrightarrow>
      may_post s run (presented_token ctx)"
  proof (cases "load_runtime s run")
    case (Inl e)
    then show ?thesis
      by (cases e) (simp_all add: verify_capability_def may_post_def)
  next
    case (Inr st)
    then show ?thesis
      by (auto simp: verify_capability_def may_post_def subtle_equals_iff)
  qed
  have names: "validate_names (filter (\<lambda>n. n \<noteq> ''*'') [msg_from msg, msg_to msg]) = Inr () \<longleftrightarrow>
      (\<forall>n \<in> {msg_from msg, msg_to msg}. n = ''*'' \<or> validate_member_name n = Inr ())"
    by (auto simp: validate_names_iff)
  have "admit s msg run ctx = Inr rs \<longleftrightarrow>
      rs = recipients_of msg ctx \<and>
      (\<exists>st. ?auth = Inr st \<and>
        \<not> (case st of None \<Rightarrow> False | Some st \<Rightarrow> run_status st \<in> {Deleting, RunDeleted})) \<and>
      well_addressed msg ctx"
    unfolding admit_def well_addressed_def names [symmetric] validate_names_iff [symmetric]
    by (auto simp: and_then_ok_iff)
  with auth show ?thesis by simp
qed

lemma sorted_remdups_adj_distinct: "sorted xs \<Longrightarrow> distinct (remdups_adj xs)"
  by (induction xs rule: remdups_adj.induct) auto

lemma recipients_distinct: "distinct (recipients_of msg ctx)"
  by (simp add: recipients_of_def sorted_remdups_adj_distinct)

lemma send_message_cases:
  assumes "send_message j env msg run ctx s = (res, s')"
  obtains (refused) e where "admit s msg run ctx = Inl e" "res = Inl e" "s' = s"
  | (tried) r where "may_post s run (presented_token ctx)" "well_addressed msg ctx"
      "deliver_all env msg (render j msg @ nl) ctx run (recipients_of msg ctx) [] s = (r, s')"
      "res = map_sum (\<lambda>e. e) (\<lambda>ds. \<lparr>sent_id = message_id msg, delivered_to = ds\<rparr>) r"
proof (cases "admit s msg run ctx")
  case (Inl e)
  with assms have "res = Inl e" "s' = s" by (simp_all add: send_message_def)
  with Inl show ?thesis by (rule refused)
next
  case (Inr rs)
  then have rs: "rs = recipients_of msg ctx" "may_post s run (presented_token ctx)" "well_addressed msg ctx"
    by (simp_all add: admit_iff)
  obtain r s2 where d: "deliver_all env msg (render j msg @ nl) ctx run rs [] s = (r, s2)" by fastforce
  have "send_message j env msg run ctx s =
      (map_sum (\<lambda>e. e) (\<lambda>ds. \<lparr>sent_id = message_id msg, delivered_to = ds\<rparr>) r, s2)"
    unfolding send_message_def Inr sum.case d by (cases r) simp_all
  with assms have res: "s2 = s'" "res = map_sum (\<lambda>e. e) (\<lambda>ds. \<lparr>sent_id = message_id msg, delivered_to = ds\<rparr>) r"
    by simp_all
  show ?thesis by (rule tried [OF rs(2,3) _ res(2)]) (use d rs(1) res(1) in simp)
qed

section \<open>Reading\<close>

lemma set_list_unread:
  "set (list_unread j names s run member) =
     {m. \<exists>name \<in> set names. \<exists>content. \<not> starts_with name ''.'' \<and> ends_with name ''.json'' \<and>
         fmlookup (unread_files (inbox_of s run member)) name = Some content \<and> parse j content = Some m}"
proof -
  have "m \<in> set (unread_message j box name) \<longleftrightarrow>
      \<not> starts_with name ''.'' \<and> ends_with name ''.json'' \<and>
      (\<exists>content. fmlookup (unread_files box) name = Some content \<and> parse j content = Some m)" for m box name
  proof (cases "fmlookup (unread_files box) name")
    case (Some content)
    then show ?thesis by (cases "parse j content") (auto simp: unread_message_def)
  qed (simp add: unread_message_def)
  then show ?thesis by (auto simp: list_unread_def)
qed

lemma acknowledged_is_gone:
  assumes "fmlookup (unread_files (inbox_of s run member)) (unreserved_name i) = Some content"
  shows "fmlookup (unread_files (inbox_of (acknowledge run member [i] s) run member)) (unreserved_name i) = None"
    and "fmlookup (processed_files (inbox_of (acknowledge run member [i] s) run member)) (i @ ''.json'') = Some content"
  using assms by (simp_all add: acknowledge_def ack_one_def move_processed_def)

text \<open>A run that was deleted takes messages again, without a token.\<close>

lemma deleted_run_takes_messages: "load_runtime s run = Inl (RunNotFound run) \<Longrightarrow> may_post s run token"
  by (simp add: may_post_def)

end
