(* ===== verification/Team_Runtime_Facts.thy ===== *)
theory Team_Runtime_Facts
  imports Team_Runtime Team_Mail_Facts
begin

text \<open>
  The spawning threads: what every interleaving keeps of the cursor, the launches and the
  run state, and that a creation that ends without failure has brought up every member.
\<close>

section \<open>Specifications that pass\<close>

lemma normalize_spec_ok:
  assumes "normalize_spec spec = Inr spec'"
  shows "spec_members spec' = spec_members spec" and "spec_name spec' = spec_name spec"
    and "1 \<le> length (spec_members spec')" and "length (spec_members spec') \<le> team_max_members"
    and "\<forall>m \<in> set (spec_members spec'). validate_member_name (member_name m) = Inr ()"
    and "lead_agent_id spec' \<noteq> None"
  using assms
  by (auto simp: normalize_spec_def and_then_ok_iff validate_names_iff Suc_le_eq split: if_splits)

lemma check_eligible_iff:
  "check_eligible ms = Inr () \<longleftrightarrow> (\<forall>m \<in> set ms. agent_type m \<notin> read_only_agents)"
proof (induction ms)
  case (Cons m ms)
  then show ?case
    using assert_eligible_iff [of "agent_type m"] by (cases "assert_eligible (agent_type m)") auto
qed simp

lemma prepare_team_fresh:
  assumes "prepare_team env spec lead s = (Inr (Prepared spec' st s1), s1')"
  shows "normalize_spec spec = Inr spec'" and "check_eligible (spec_members spec') = Inr ()"
    and "validate_team_name (spec_name spec') = Inr ()"
    and "st = initial_state (new_run_id env) (new_token env) (created_at env) spec' lead ProjectSource"
    and "s1 = s\<lparr>run_files := fmupd (new_run_id env) (StateFile st) (run_files s)\<rparr>" and "s1' = s1"
proof -
  obtain sp where sp: "normalize_spec spec = Inr sp" "validate_team_name (spec_name sp) = Inr ()"
    "check_eligible (spec_members sp) = Inr ()"
    using assms
    by (cases "normalize_spec spec"; cases "validate_team_name (spec_name (projr (normalize_spec spec)))";
        cases "check_eligible (spec_members (projr (normalize_spec spec)))")
      (auto simp: prepare_team_def)
  with assms have *: "find_existing_run (run_dirs env) (spec_name sp) lead s = None" "state_write_ok env"
    "base_dirs_ok env"
    by (auto simp: prepare_team_def create_runtime_def persist_def Let_def split: option.splits if_splits)
  have run: "team_run_id (initial_state r t c sp lead src) = r" for r t c src
    by (simp add: initial_state_def)
  from assms sp * have "spec' = sp \<and> s1' = s1 \<and>
      st = initial_state (new_run_id env) (new_token env) (created_at env) sp lead ProjectSource \<and>
      s1 = s\<lparr>run_files := fmupd (new_run_id env) (StateFile st) (run_files s)\<rparr>"
    by (auto simp: prepare_team_def create_runtime_def persist_def Let_def run)
  with sp show "normalize_spec spec = Inr spec'" "check_eligible (spec_members spec') = Inr ()"
    "validate_team_name (spec_name spec') = Inr ()"
    "st = initial_state (new_run_id env) (new_token env) (created_at env) spec' lead ProjectSource"
    "s1 = s\<lparr>run_files := fmupd (new_run_id env) (StateFile st) (run_files s)\<rparr>" "s1' = s1"
    by simp_all
qed

lemma worker_count_bounds:
  assumes "run_bounds st = default_bounds"
  shows "1 \<le> worker_count st spec" and "worker_count st spec \<le> team_max_parallel"
  using assms by (simp_all add: worker_count_def default_bounds_def team_max_parallel_def)

section \<open>The members of a run state\<close>

definition member_now :: "string option \<Rightarrow> member_runtime \<Rightarrow> member_runtime" where
  "member_now session m =
     (case session of
        None \<Rightarrow> m
      | Some x \<Rightarrow> m\<lparr>rm_session_id := Some x, rm_status := MemberRunning\<rparr>)"

definition members_now :: "(nat \<Rightarrow> string option) \<Rightarrow> member_runtime list \<Rightarrow> member_runtime list" where
  "members_now rec' ms = map (\<lambda>i. member_now (rec' i) (ms ! i)) [0..<length ms]"

lemma member_now_name [simp]: "rm_name (member_now x m) = rm_name m"
  by (cases x) (simp_all add: member_now_def)

lemma members_now_names: "map rm_name (members_now rec' ms) = map rm_name ms"
  by (rule nth_equalityI) (simp_all add: members_now_def)

lemma mark_running_at:
  assumes "distinct (map rm_name ms)" and "i < length ms"
  shows "mark_running (rm_name (ms ! i)) x ms =
    ms[i := (ms ! i)\<lparr>rm_session_id := Some x, rm_status := MemberRunning\<rparr>]"
  using assms
proof (induction ms arbitrary: i)
  case (Cons m ms)
  show ?case
  proof (cases i)
    case (Suc k)
    with Cons.prems have "rm_name m \<noteq> rm_name (ms ! k)" by auto
    with Suc Cons show ?thesis by simp
  qed simp
qed simp

lemma mark_members_now:
  assumes "distinct (map rm_name ms)" and "i < length ms"
  shows "mark_running (rm_name (ms ! i)) x (members_now rec' ms) = members_now (rec'(i := Some x)) ms"
proof -
  have "mark_running (rm_name (members_now rec' ms ! i)) x (members_now rec' ms) =
      (members_now rec' ms)[i := (members_now rec' ms ! i)\<lparr>rm_session_id := Some x, rm_status := MemberRunning\<rparr>]"
    using assms by (intro mark_running_at) (simp_all add: members_now_names, simp add: members_now_def)
  moreover have "rm_name (members_now rec' ms ! i) = rm_name (ms ! i)"
    using assms(2) by (simp add: members_now_def)
  moreover have "(members_now rec' ms)[i := (members_now rec' ms ! i)\<lparr>rm_session_id := Some x, rm_status := MemberRunning\<rparr>]
      = members_now (rec'(i := Some x)) ms"
    by (rule nth_equalityI)
      (use assms(2) in \<open>auto simp: members_now_def nth_list_update member_now_def split: option.splits\<close>)
  ultimately show ?thesis by simp
qed

section \<open>The pool\<close>

definition busy :: "spawn_state \<Rightarrow> nat \<Rightarrow> nat \<Rightarrow> bool" where
  "busy ss w i \<longleftrightarrow> sp_phase ss w = Spawning i \<or> (\<exists>x. sp_phase ss w = Recording i x)"

definition handled :: "nat \<Rightarrow> spawn_state \<Rightarrow> nat \<Rightarrow> bool" where
  "handled n ss i \<longleftrightarrow> (\<exists>w < n. busy ss w i) \<or> recorded ss i \<noteq> None \<or> i \<in> set (skipped ss)"

text \<open>
  The launches are the members up to the cursor, each once and in order; nothing that was
  launched is forgotten as long as nobody failed; a thread without failure only returns
  past the last member.
\<close>

definition pool_ok :: "nat \<Rightarrow> nat \<Rightarrow> spawn_state \<Rightarrow> bool" where
  "pool_ok m n ss \<longleftrightarrow>
     launches ss = [0..<min (cursor ss) m] \<and>
     (\<forall>w i. busy ss w i \<longrightarrow> i < min (cursor ss) m) \<and>
     (\<forall>w \<ge> n. sp_phase ss w = Checking) \<and>
     (failure ss = None \<longrightarrow> (\<forall>i < min (cursor ss) m. handled n ss i)) \<and>
     (failure ss = None \<longrightarrow> (\<exists>w. sp_phase ss w = Returned) \<longrightarrow> m \<le> cursor ss)"

lemma spawn_init_pool: "pool_ok m n (spawn_init s)"
  by (simp add: pool_ok_def spawn_init_def busy_def)

lemma goto_simps [simp]:
  "sp_phase (goto_phase w ph ss) v = (if v = w then ph else sp_phase ss v)"
  "cursor (goto_phase w ph ss) = cursor ss" "failure (goto_phase w ph ss) = failure ss"
  "launches (goto_phase w ph ss) = launches ss" "recorded (goto_phase w ph ss) = recorded ss"
  "skipped (goto_phase w ph ss) = skipped ss" "sp_store (goto_phase w ph ss) = sp_store ss"
  by (simp_all add: goto_phase_def)

lemma record_step_simps [simp]:
  "cursor (record_step spec run env i x ss) = cursor ss"
  "failure (record_step spec run env i x ss) = failure ss"
  "launches (record_step spec run env i x ss) = launches ss"
  "sp_phase (record_step spec run env i x ss) = sp_phase ss"
  by (auto simp: record_step_def split: prod.splits sum.splits)

lemma record_step_done:
  "recorded (record_step spec run env i x ss) i \<noteq> None \<or> i \<in> set (skipped (record_step spec run env i x ss))"
  by (auto simp: record_step_def split: prod.splits sum.splits)

lemma record_step_mono:
  "recorded ss j \<noteq> None \<or> j \<in> set (skipped ss) \<Longrightarrow>
     recorded (record_step spec run env i x ss) j \<noteq> None \<or> j \<in> set (skipped (record_step spec run env i x ss))"
  by (auto simp: record_step_def split: prod.splits sum.splits)

text \<open>How a member stays handled when one thread moves.\<close>

lemma handled_goto:
  assumes "handled n ss i" and "\<not> busy ss w i \<or> w < n \<and> (ph = Spawning i \<or> (\<exists>x. ph = Recording i x))"
  shows "handled n (goto_phase w ph ss) i"
  using assms unfolding handled_def busy_def by auto

lemma handled_record:
  assumes "handled n ss j" and "busy ss w i"
  shows "handled n (goto_phase w Checking (record_step spec run env i x ss)) j"
proof (cases "j = i")
  case True
  with record_step_done show ?thesis by (simp add: handled_def)
next
  case False
  consider v where "v < n" "busy ss v j" | "recorded ss j \<noteq> None \<or> j \<in> set (skipped ss)"
    using assms(1) by (auto simp: handled_def)
  then show ?thesis
  proof cases
    case 1
    have "v \<noteq> w" using 1 assms(2) False by (auto simp: busy_def)
    with 1 show ?thesis by (auto simp: handled_def busy_def)
  next
    case 2
    then show ?thesis using record_step_mono [OF 2] by (simp add: handled_def)
  qed
qed

text \<open>One thread goes to the phase \<open>ph\<close> after the shared fields were updated to \<open>ss0\<close>.\<close>

lemma pool_ok_goto:
  assumes ok: "pool_ok m n ss" and "w < n" and phases: "sp_phase ss0 = sp_phase ss"
    and cur: "cursor ss \<le> cursor ss0" and launch: "launches ss0 = [0..<min (cursor ss0) m]"
    and ph: "\<And>i. ph = Spawning i \<or> (\<exists>x. ph = Recording i x) \<Longrightarrow> i < min (cursor ss0) m"
    and kept: "\<And>i. failure ss0 = None \<Longrightarrow> i < min (cursor ss0) m \<Longrightarrow> handled n (goto_phase w ph ss0) i"
    and fail: "failure ss0 = None \<Longrightarrow> failure ss = None"
    and ret: "ph = Returned \<Longrightarrow> failure ss0 = None \<Longrightarrow> m \<le> cursor ss0"
  shows "pool_ok m n (goto_phase w ph ss0)"
  unfolding pool_ok_def
proof (intro conjI allI impI)
  fix v i
  assume b: "busy (goto_phase w ph ss0) v i"
  show "i < min (cursor (goto_phase w ph ss0)) m"
  proof (cases "v = w")
    case True
    with b ph show ?thesis by (simp add: busy_def)
  next
    case False
    with b phases have "busy ss v i" by (simp add: busy_def)
    with ok cur have "i < cursor ss \<and> i < m" by (simp add: pool_ok_def)
    with cur show ?thesis by simp
  qed
next
  fix v
  assume "n \<le> v"
  with ok \<open>w < n\<close> phases show "sp_phase (goto_phase w ph ss0) v = Checking"
    by (simp add: pool_ok_def)
next
  assume f: "failure (goto_phase w ph ss0) = None" and "\<exists>v. sp_phase (goto_phase w ph ss0) v = Returned"
  then obtain v where v: "sp_phase (goto_phase w ph ss0) v = Returned" by blast
  show "m \<le> cursor (goto_phase w ph ss0)"
  proof (cases "v = w")
    case True
    with v f ret show ?thesis by simp
  next
    case False
    with v phases have "sp_phase ss v = Returned" by simp
    with ok f fail have "m \<le> cursor ss" unfolding pool_ok_def by auto
    with cur show ?thesis by simp
  qed
qed (use launch kept in simp_all)

lemma pool_ok_facts:
  assumes "pool_ok m n ss"
  shows "launches ss = [0..<min (cursor ss) m]" and "busy ss w i \<Longrightarrow> i < min (cursor ss) m"
    and "failure ss = None \<Longrightarrow> i < min (cursor ss) m \<Longrightarrow> handled n ss i"
  using assms by (simp_all add: pool_ok_def)

lemma spawn_step_pool:
  assumes "spawn_step spec run e ss = Some ss'" and ok: "pool_ok (length (spec_members spec)) n ss"
    and w: "event_worker e < n"
  shows "pool_ok (length (spec_members spec)) n ss'"
proof -
  note facts = pool_ok_facts [OF ok]
  note move = pool_ok_goto [OF ok]
  show ?thesis
  proof (cases e)
    case (CheckFailure w)
    let ?ph = "if failure ss \<noteq> None then Returned else Fetching"
    from assms(1) CheckFailure have p: "sp_phase ss w = Checking" and ss': "ss' = goto_phase w ?ph ss"
      by (auto split: if_splits)
    show ?thesis
      unfolding ss'
    proof (rule move)
      fix i
      assume "failure ss = None" "i < min (cursor ss) (length (spec_members spec))"
      then have "handled n ss i" by (rule facts(3))
      then show "handled n (goto_phase w ?ph ss) i" using p by (intro handled_goto) (simp_all add: busy_def)
    qed (use w CheckFailure facts(1) in \<open>auto split: if_splits\<close>)
  next
    case (DeadlinePassed w)
    from assms(1) DeadlinePassed have ss': "ss' = goto_phase w Returned (ss\<lparr>failure := Some deadline_error\<rparr>)"
      by (auto split: if_splits)
    show ?thesis unfolding ss' by (rule move) (use assms(3) DeadlinePassed facts(1) in auto)
  next
    case (FetchMember w)
    let ?m = "length (spec_members spec)"
    from assms(1) FetchMember have p: "sp_phase ss w = Fetching" by (auto split: if_splits)
    then have idle: "\<not> busy ss w i" for i by (simp add: busy_def)
    have wn: "w < n" using w FetchMember by simp
    show ?thesis
    proof (cases "cursor ss < ?m")
      case True
      let ?s0 = "ss\<lparr>cursor := cursor ss + 1, launches := launches ss @ [cursor ss]\<rparr>"
      from True FetchMember assms(1) p have ss': "ss' = goto_phase w (Spawning (cursor ss)) ?s0"
        by (simp add: Let_def)
      show ?thesis
        unfolding ss'
      proof (rule move)
        fix i
        assume f: "failure ?s0 = None" and i: "i < min (cursor ?s0) ?m"
        show "handled n (goto_phase w (Spawning (cursor ss)) ?s0) i"
        proof (cases "i = cursor ss")
          case True
          with wn show ?thesis by (auto simp: handled_def busy_def)
        next
          case False
          with i f have "handled n ss i" by (intro facts(3)) simp_all
          then have "handled n ?s0 i" by (simp add: handled_def busy_def)
          then show ?thesis using idle by (intro handled_goto) (simp_all add: busy_def)
        qed
      qed (use wn True facts(1) in \<open>auto simp: min_def\<close>)
    next
      case False
      let ?s0 = "ss\<lparr>cursor := cursor ss + 1\<rparr>"
      from False FetchMember assms(1) p have ss': "ss' = goto_phase w Returned ?s0"
        by (simp add: Let_def)
      show ?thesis
        unfolding ss'
      proof (rule move)
        fix i
        assume "failure ?s0 = None" and "i < min (cursor ?s0) ?m"
        with False have "handled n ss i" by (intro facts(3)) simp_all
        then have "handled n ?s0 i" by (simp add: handled_def busy_def)
        then show "handled n (goto_phase w Returned ?s0) i"
          using idle by (intro handled_goto) (simp_all add: busy_def)
      qed (use wn False facts(1) in \<open>auto simp: min_def\<close>)
    qed
  next
    case (SpawnOk w x)
    from assms(1) SpawnOk obtain i where p: "sp_phase ss w = Spawning i" and ss': "ss' = goto_phase w (Recording i x) ss"
      by (auto split: spawn_phase.splits)
    have wn: "w < n" using w SpawnOk by simp
    have i: "i < min (cursor ss) (length (spec_members spec))" using p facts(2) [of w i] by (simp add: busy_def)
    show ?thesis
      unfolding ss'
    proof (rule move)
      fix j
      assume "failure ss = None" "j < min (cursor ss) (length (spec_members spec))"
      then have "handled n ss j" by (rule facts(3))
      then show "handled n (goto_phase w (Recording i x) ss) j"
        using p wn by (intro handled_goto) (auto simp: busy_def)
    qed (use wn i facts(1) in auto)
  next
    case (SpawnErr w x)
    from assms(1) SpawnErr have ss': "ss' = goto_phase w Returned (ss\<lparr>failure := Some x\<rparr>)"
      by (auto split: spawn_phase.splits)
    show ?thesis unfolding ss' by (rule move) (use assms(3) SpawnErr facts(1) in auto)
  next
    case (RecordSession w env)
    from assms(1) RecordSession obtain i x where p: "sp_phase ss w = Recording i x"
      and ss': "ss' = goto_phase w Checking (record_step spec run env i x ss)"
      by (auto split: spawn_phase.splits)
    have wn: "w < n" using w RecordSession by simp
    have b: "busy ss w i" using p by (simp add: busy_def)
    show ?thesis
      unfolding ss'
    proof (rule move)
      fix j
      assume "failure (record_step spec run env i x ss) = None"
        "j < min (cursor (record_step spec run env i x ss)) (length (spec_members spec))"
      then have "handled n ss j" by (intro facts(3)) simp_all
      then show "handled n (goto_phase w Checking (record_step spec run env i x ss)) j"
        using b by (rule handled_record)
    qed (use wn facts(1) in auto)
  qed
qed

lemma spawning_pool: "spawning spec run n s ss \<Longrightarrow> pool_ok (length (spec_members spec)) n ss"
  by (induction rule: spawning.induct) (auto intro: spawn_init_pool spawn_step_pool)

section \<open>The run state during the spawning\<close>

definition run_tracks :: "team_runtime_state \<Rightarrow> spawn_state \<Rightarrow> bool" where
  "run_tracks st ss \<longleftrightarrow>
     load_runtime (sp_store ss) (team_run_id st) =
       Inr (st\<lparr>run_members := members_now (recorded ss) (run_members st)\<rparr>)"

lemma record_step_tracks:
  assumes "run_tracks st ss" and "distinct (map rm_name (run_members st))" and "run_version st = 1"
    and "map rm_name (run_members st) = map member_name (spec_members spec)"
    and "i < length (spec_members spec)"
  shows "run_tracks st (record_step spec (team_run_id st) env i x ss)"
proof -
  let ?name = "member_name (spec_members spec ! i)"
  let ?st = "st\<lparr>run_members := members_now (recorded ss) (run_members st)\<rparr>"
  have len: "i < length (run_members st)" using assms(4,5) map_eq_imp_length_eq by metis
  have name: "?name = rm_name (run_members st ! i)"
    using assms(4,5) len by (metis nth_map)
  have mark: "record_session ?name x ?st =
      st\<lparr>run_members := members_now ((recorded ss)(i := Some x)) (run_members st)\<rparr>"
    unfolding record_session_def name using mark_members_now [OF assms(2) len] by simp
  obtain r s' where t: "transition env (team_run_id st) (record_session ?name x) (sp_store ss) = (r, s')"
    by fastforce
  then show ?thesis
  proof (cases rule: transition_cases)
    case (refused e)
    with t assms(1) show ?thesis by (simp add: record_step_def run_tracks_def)
  next
    case (changed st')
    with assms(1) have "st' = ?st" by (simp add: run_tracks_def)
    with changed t mark assms(3) show ?thesis
      by (simp add: record_step_def run_tracks_def load_runtime_ok)
  qed
qed

lemma spawn_step_tracks:
  assumes "spawn_step spec (team_run_id st) e ss = Some ss'" and "run_tracks st ss"
    and "distinct (map rm_name (run_members st))" and "run_version st = 1"
    and "map rm_name (run_members st) = map member_name (spec_members spec)"
    and "pool_ok (length (spec_members spec)) n ss"
  shows "run_tracks st ss'"
proof (cases e)
  case (RecordSession w env)
  with assms(1) obtain i x where p: "sp_phase ss w = Recording i x"
    and ss': "ss' = goto_phase w Checking (record_step spec (team_run_id st) env i x ss)"
    by (auto split: spawn_phase.splits)
  have "i < length (spec_members spec)" using p assms(6) by (fastforce simp: pool_ok_def busy_def)
  from record_step_tracks [OF assms(2-5) this] ss' show ?thesis by (simp add: run_tracks_def)
qed (use assms(1,2) in \<open>auto simp: run_tracks_def Let_def split: if_splits spawn_phase.splits\<close>)

lemma spawning_tracks:
  assumes "spawning spec (team_run_id st) n s ss" and "load_runtime s (team_run_id st) = Inr st"
    and "distinct (map rm_name (run_members st))"
    and "map rm_name (run_members st) = map member_name (spec_members spec)"
  shows "run_tracks st ss"
  using assms
proof (induction rule: spawning.induct)
  case start
  have "members_now (\<lambda>_. None) ms = ms" for ms
    by (rule nth_equalityI) (simp_all add: members_now_def member_now_def)
  with start show ?case by (simp add: run_tracks_def spawn_init_def)
next
  case (step ss e ss')
  have "run_version st = 1" using step.prems(1) by (simp add: load_runtime_ok)
  with step show ?case
    by (intro spawn_step_tracks [OF step.hyps(3)]) (auto intro: spawning_pool)
qed

lemma initial_names: "map rm_name (run_members (initial_state r t c spec lead src)) = map member_name (spec_members spec)"
  by (simp add: initial_state_def initial_member_def)

text \<open>The number of threads bounds how many members are being spawned at once.\<close>

lemma busy_bound:
  assumes "pool_ok m n ss"
  shows "card {w. \<exists>i. busy ss w i} \<le> n"
proof -
  have "{w. \<exists>i. busy ss w i} \<subseteq> {..<n}"
    using assms by (auto simp: pool_ok_def busy_def not_le [symmetric])
  then show ?thesis using card_mono [of "{..<n}"] by fastforce
qed

lemma joined_complete:
  assumes "pool_ok m n ss" and "joined n ss" and "1 \<le> n" and "failure ss = None"
  shows "launches ss = [0..<m]" and "\<forall>i < m. recorded ss i \<noteq> None \<or> i \<in> set (skipped ss)"
proof -
  have "sp_phase ss 0 = Returned" using assms(2,3) by (simp add: joined_def)
  with assms(1,4) have c: "m \<le> cursor ss" by (auto simp: pool_ok_def)
  with assms(1) show "launches ss = [0..<m]" by (simp add: pool_ok_def min_def split: if_splits)
  have idle: "\<not> busy ss w i" if "w < n" for w i using that assms(2) by (simp add: joined_def busy_def)
  show "\<forall>i < m. recorded ss i \<noteq> None \<or> i \<in> set (skipped ss)"
  proof (intro allI impI)
    fix i
    assume "i < m"
    with c assms(1,4) have "handled n ss i" by (simp add: pool_ok_def)
    with idle show "recorded ss i \<noteq> None \<or> i \<in> set (skipped ss)" by (auto simp: handled_def)
  qed
qed

end
