(* ===== verification/Team_Scenario.thy ===== *)
theory Team_Scenario
  imports Team_Task_Facts Team_Locks Team_Runtime_Facts
begin

text \<open>
  Concrete runs of the team mode: a small board, callers of one lock, a team of two. They
  show that the properties of the team mode are about runs that exist, and they exhibit
  the behaviours the properties exclude by hypothesis.
\<close>

section \<open>A board of two tasks\<close>

definition demo_env :: call_env where
  "demo_env = \<lparr>now = 5, lock_outcome = LockGranted, disk_writes = 2, tasks_path = ''tasks'',
     debug_text = (\<lambda>s. s)\<rparr>"

definition demo_task :: "string \<Rightarrow> string list \<Rightarrow> new_task" where
  "demo_task name deps =
     \<lparr>new_subject = name, new_description = [], new_blocks = [], new_blocked_by = deps\<rparr>"

definition two_tasks :: "board_op list" where
  "two_tasks = [CreateTask demo_env (demo_task ''a'' []), CreateTask demo_env (demo_task ''b'' [''1''])]"

definition worked_board :: "board_op list" where
  "worked_board = two_tasks @
     [ClaimTask demo_env ''1'' ''w'', UpdateStatus demo_env ''1'' InProgress,
      UpdateStatus demo_env ''1'' Completed, ClaimTask demo_env ''2'' ''v'']"

text \<open>The same without \<open>claim_task\<close>: the status is set by hand.\<close>

definition hand_claimed :: "board_op list" where
  "hand_claimed = two_tasks @ [UpdateStatus demo_env ''2'' Claimed, UpdateStatus demo_env ''2'' InProgress]"

text \<open>A completed blocker is deleted before its dependent is claimed.\<close>

definition deleted_blocker :: "board_op list" where
  "deleted_blocker = two_tasks @
     [ClaimTask demo_env ''1'' ''w'', UpdateStatus demo_env ''1'' InProgress,
      UpdateStatus demo_env ''1'' Completed, UpdateStatus demo_env ''1'' Deleted]"

lemma small_numbers:
  "show_nat (Suc 0) = ''1''" "show_nat 1 = ''1''" "show_nat 2 = ''2''" by code_simp+

lemma read_one: "trim ''1'' = ''1''" "parse_u64 ''1'' = Some 1"
  using trim_digits [OF show_nat_all_digits [of 1]] parse_show_u64 [of 1]
  by (simp_all add: small_numbers)

lemma one_below_max: "(1 :: u64) < - 1"
  by (simp add: word_less_nat_alt unsigned_minus_1_eq_mask mask_eq_exp_minus_1)

lemma demo_names: "validate_member_name ''w'' = Inr ()" "validate_member_name ''v'' = Inr ()"
  by code_simp+

lemmas board_eval = two_tasks_def demo_env_def demo_task_def create_task_def with_lock_def
  read_high_watermark_def empty_board_def fresh_task_def write_task_def write_task_at_def
  claim_task_def update_status_def store_at_def claimed_task_def read_task_def Let_def
  small_numbers read_one one_below_max demo_names

definition second_task :: "board_op list \<Rightarrow> (team_error + team_task)" where
  "second_task ops = read_task (board_after ops empty_board) ''2''"

lemma worked_board_result:
  "map_sum (\<lambda>e. e) (\<lambda>t. (task_status t, task_owner t, blocked_by t)) (second_task worked_board) =
     Inr (Claimed, Some ''v'', [''1''])"
  by (simp add: second_task_def worked_board_def board_eval)

lemma hand_claimed_result:
  "map_sum (\<lambda>e. e) (\<lambda>t. (task_status t, task_owner t)) (second_task hand_claimed) = Inr (InProgress, None)"
  "map_sum (\<lambda>e. e) task_status (read_task (board_after hand_claimed empty_board) ''1'') = Inr Pending"
  by (simp_all add: second_task_def hand_claimed_def board_eval)

text \<open>A status set by hand starts a blocked task, without an owner.\<close>

lemma manual_claim_skips_blockers: "\<not> work_ok (board_after hand_claimed empty_board)"
proof -
  obtain t where t: "read_task (board_after hand_claimed empty_board) ''2'' = Inr t"
    "task_status t = InProgress" "task_owner t = None"
    using hand_claimed_result(1) by (cases "second_task hand_claimed") (auto simp: second_task_def)
  then show ?thesis by (auto simp: work_ok_def started_def)
qed

text \<open>A deleted blocker never lets its dependents go.\<close>

lemma deleted_blocker_blocks:
  "fst (claim_task demo_env ''2'' ''v'' (board_after deleted_blocker empty_board)) =
     Inl (blocked_error ''2'' ''1'')"
  by (simp add: deleted_blocker_def board_eval)

section \<open>Callers of one lock\<close>

definition plain_locks :: lock_config where
  "plain_locks = \<lparr>proc = (\<lambda>c. if c = 0 then 0 else if c = 1 then 1 else 2), owner_tag = (\<lambda>_. ''t''),
     host = (\<lambda>_. ''h''), stale_after = (\<lambda>_. 0), acquire_timeout = (\<lambda>_. 3)\<rparr>"

lemma plain_locks_ok: "config_ok plain_locks"
  by (auto simp: config_ok_def plain_locks_def one_line_def byte_def)

definition one_holder :: "lock_event list" where
  "one_holder = [Call 1, CreateNew 1, WriteBody 1, Call 2]"

text \<open>
  The holder dies; two waiting callers both judge its lock stale; the second one removes
  the lock the first one has taken in between.
\<close>

definition double_reap :: "lock_event list" where
  "double_reap = [Call 0, CreateNew 0, WriteBody 0, Tick, Crash 0, Call 1, Call 2, Look 1, Look 2,
     RemoveStale 1, CreateNew 1, WriteBody 1, RemoveStale 2, CreateNew 2, WriteBody 2]"

definition lock_view :: "lock_state \<Rightarrow> lock_phase list \<times> bool list \<times> nat \<times> bool" where
  "lock_view s = (map (phase s) [0, 1, 2], map (\<lambda>p. p \<in> dead s) [0, 1, 2], clock s, overtaken s)"

lemma one_holder_run:
  "map_option lock_view (lock_run plain_locks one_holder lock_init) =
     Some ([Outside, Holding, Trying 0], [False, False, False], 0, False)"
  by code_simp

lemma double_reap_run:
  "map_option lock_view (lock_run plain_locks double_reap lock_init) =
     Some ([Holding, Holding, Holding], [True, False, False], 1, True)"
  by code_simp

lemma run_view_reachable:
  assumes "map_option lock_view (lock_run k es lock_init) = Some (ps, ds, t, ov)" and "t < 2 ^ 128"
  obtains s where "lock_reachable k s" "lock_view s = (ps, ds, t, ov)"
proof -
  from assms(1) obtain s where s: "lock_run k es lock_init = Some s" "lock_view s = (ps, ds, t, ov)"
    by auto
  have "clock s = t" using s(2) by (simp add: lock_view_def)
  with assms(2) have "lock_reachable k s"
    using run_reachable [OF s(1) lock_reachable.start] by simp
  with s(2) that show thesis by blast
qed

text \<open>After a double removal two live callers hold the lock.\<close>

lemma stale_reaping_breaks_exclusion:
  "\<exists>s. lock_reachable plain_locks s \<and> in_section plain_locks s 1 \<and> in_section plain_locks s 2"
proof -
  obtain s where "lock_reachable plain_locks s"
    "lock_view s = ([Holding, Holding, Holding], [True, False, False], 1, True)"
    using run_view_reachable [OF double_reap_run] by auto
  then show ?thesis
    by (intro exI [of _ s])
      (simp add: lock_view_def in_section_def live_def plain_locks_def)
qed

section \<open>A team of two\<close>

definition demo_common :: member_common where
  "demo_common = \<lparr>cwd = None, common_worktree = None, subscriptions_of = [], backend = Tmux,
     common_color = None, is_active = True\<rparr>"

definition demo_team :: "string \<Rightarrow> string \<Rightarrow> team_spec" where
  "demo_team a b =
     \<lparr>spec_version = 1, spec_name = ''team'', spec_description = None, spec_created_at = 0,
      lead_agent_id = None, team_allowed_paths = None,
      spec_members = [SubagentMember a ''sisyphus'' None demo_common,
                      SubagentMember b ''sisyphus'' None demo_common]\<rparr>"

definition demo_create :: create_env where
  "demo_create = \<lparr>new_run_id = ''r'', new_token = ''k'', created_at = 0, run_dirs = [],
     state_write_ok = True, base_dirs_ok = True\<rparr>"

definition demo_write :: write_env where
  "demo_write = \<lparr>state_lock = LockGranted, state_write = True, state_lock_path = ''l''\<rparr>"

definition demo_finish :: finish_env where
  "demo_finish = \<lparr>delete_env1 = demo_write, delete_env2 = demo_write, delete_remove_ok = True,
     activate_env = demo_write\<rparr>"

definition spawn_two :: "spawn_event list" where
  "spawn_two = [CheckFailure 0, CheckFailure 1, FetchMember 0, FetchMember 1, SpawnOk 1 ''s1'',
     SpawnOk 0 ''s0'', RecordSession 1 demo_write, RecordSession 0 demo_write, CheckFailure 0,
     CheckFailure 1, FetchMember 0, FetchMember 1]"

lemma spawn_run_reachable:
  "spawn_run spec run es ss = Some ss' \<Longrightarrow> spawning spec run n s ss \<Longrightarrow>
     list_all (\<lambda>e. event_worker e < n) es \<Longrightarrow> spawning spec run n s ss'"
proof (induction es arbitrary: ss)
  case (Cons e es)
  from Cons.prems(1) obtain m where "spawn_step spec run e ss = Some m" "spawn_run spec run es m = Some ss'"
    by (auto split: option.splits)
  with Cons show ?case by (auto intro: spawning.step)
qed simp

definition member_view :: "team_runtime_state \<Rightarrow> (string \<times> string option \<times> member_status) list" where
  "member_view st = map (\<lambda>m. (rm_name m, rm_session_id m, rm_status m)) (run_members st)"

lemma demo_prepared:
  obtains st s where
    "prepare_team demo_create (demo_team ''a'' ''b'') ''lead'' empty_store =
       (Inr (Prepared ((demo_team ''a'' ''b'')\<lparr>lead_agent_id := Some ''a''\<rparr>) st s), s)"
    "run_bounds st = default_bounds" "team_run_id st = ''r''"
proof -
  have "validate_member_name ''a'' = Inr ()" "validate_member_name ''b'' = Inr ()"
    "validate_team_name ''team'' = Inr ()" "assert_eligible ''sisyphus'' = Inr ()"
    by code_simp+
  then show thesis
    by (intro that [of "initial_state ''r'' ''k'' 0 ((demo_team ''a'' ''b'')\<lparr>lead_agent_id := Some ''a''\<rparr>) ''lead'' ProjectSource"])
      (simp_all add: prepare_team_def normalize_spec_def demo_team_def team_max_members_def demo_create_def
        find_existing_run_def list_active_runs_def create_runtime_def persist_def initial_state_def Let_def)
qed

text \<open>
  Two members of the same name pass all checks; the second one stays pending for good,
  although both were spawned and both sessions were recorded.
\<close>

lemma duplicate_names_pass:
  "normalize_spec (demo_team ''a'' ''a'') = Inr ((demo_team ''a'' ''a'')\<lparr>lead_agent_id := Some ''a''\<rparr>)"
proof -
  have "validate_member_name ''a'' = Inr ()" by code_simp
  then show ?thesis by (simp add: normalize_spec_def demo_team_def team_max_members_def)
qed

lemma duplicate_name_left_pending:
  assumes "fmlookup (run_files s0) ''r'' =
    Some (StateFile (initial_state ''r'' ''k'' 0 (demo_team ''a'' ''a'') ''lead'' ProjectSource))"
  shows "\<exists>ss st. spawn_run (demo_team ''a'' ''a'') ''r'' spawn_two (spawn_init s0) = Some ss \<and>
    joined 2 ss \<and> failure ss = None \<and> skipped ss = [] \<and> load_runtime (sp_store ss) ''r'' = Inr st \<and>
    member_view st = [(''a'', Some ''s0'', MemberRunning), (''a'', None, MemberPending)]"
  using assms
  by (simp add: spawn_two_def spawn_init_def demo_team_def Let_def joined_def less_2_cases_iff
      record_step_def transition_def demo_write_def load_runtime_def expected_version_def persist_def
      initial_state_def initial_member_def record_session_def goto_phase_def member_view_def)

section \<open>A message to one member\<close>

definition demo_codec :: json_codec where
  "demo_codec = \<lparr>render = msg_body, parse = (\<lambda>_. None)\<rparr>"

definition demo_message :: team_message where
  "demo_message = shutdown_message ''m1'' ''w'' ''v'' 7"

definition demo_delivery :: delivery_env where
  "demo_delivery = \<lparr>inbox_lock = (\<lambda>_. LockGranted), inbox_write = (\<lambda>_. True), inbox_lock_path = (\<lambda>r. r)\<rparr>"

definition demo_run :: team_store where
  "demo_run = empty_store\<lparr>run_files := fmupd ''r''
     (StateFile (initial_state ''r'' ''k'' 0 (demo_team ''w'' ''v'') ''lead'' ProjectSource)) fmempty\<rparr>"

lemma demo_sent:
  "\<exists>s. send_message demo_codec demo_delivery demo_message ''r'' (lead_context [] ''k'') demo_run =
     (Inr \<lparr>sent_id = ''m1'', delivered_to = [''v'']\<rparr>, s)"
proof -
  have "load_runtime demo_run ''r'' =
      Inr (initial_state ''r'' ''k'' 0 (demo_team ''w'' ''v'') ''lead'' ProjectSource)"
    by (simp add: load_runtime_ok demo_run_def initial_state_def)
  then have post: "may_post demo_run ''r'' ''k''" by (simp add: may_post_def initial_state_def)
  have to': "recipients_of demo_message (lead_context [] ''k'') = [''v'']"
    by (simp add: recipients_of_def demo_message_def shutdown_message_def)
  have "well_addressed demo_message (lead_context [] ''k'')"
    using demo_names unfolding well_addressed_def to'
    by (simp add: demo_message_def shutdown_message_def team_message_max_bytes_def)
  with post to' have adm: "admit demo_run demo_message ''r'' (lead_context [] ''k'') = Inr [''v'']"
    by (simp add: admit_iff lead_context_def)
  have "inbox_of demo_run ''r'' ''v'' = empty_mailbox" by (simp add: inbox_of_def demo_run_def empty_store_def)
  then obtain box where "deliver demo_delivery demo_message (render demo_codec demo_message @ nl)
      (lead_context [] ''k'') ''v'' (inbox_of demo_run ''r'' ''v'') = Inr box"
    by (simp add: deliver_def demo_delivery_def empty_mailbox_def unread_size_bytes_def Let_def
        sorted_list_of_fset.rep_eq lead_context_def team_recipient_unread_max_bytes_def
        demo_codec_def demo_message_def shutdown_message_def nl_def)
  with adm show ?thesis
    by (simp add: send_message_def) (simp add: demo_message_def shutdown_message_def)
qed

end
