(* ===== verification/Team_Properties.thy ===== *)
theory Team_Properties
  imports Swarm_Channels Team_Scenario
begin

text \<open>
  The properties of the channel index and of the team mode: the task board, its lock
  files, the mailbox and the creation of a team.
\<close>

section \<open>Channel subscriptions\<close>

text \<open>
  C18: Under every sequence of subscribe, unsubscribe and remove-session operations the
  two nested maps of the channel index stay mirror images of each other without empty
  entries, they hold exactly the subscriptions of the abstract relation, and
  \<open>members\<close> lists the sessions subscribed to a channel in sorted order.
\<close>

theorem channel_index_refines_relation:
  "index_ok (fold index_step ops new_index) \<and>
   subscriptions (fold index_step ops new_index) = fold relation_step ops {} \<and>
   members (fold index_step ops new_index) sw ch =
     sorted_list_of_set {se. (se, sw, ch) \<in> fold relation_step ops {}}"
proof -
  have "subscriptions new_index = {}" by (simp add: subscriptions_def new_index_def)
  with channels.run_abs [of ops]
  have "subscriptions (fold index_step ops new_index) = fold relation_step ops {}" by simp
  with channels.run_inv [of ops] members_sorted show ?thesis by simp
qed

section \<open>The task board\<close>



text \<open>
  C20: A claim succeeds only on a pending task all of whose blockers are completed at that
  moment; it makes the member the owner, and until somebody updates the status of that
  task it stays as it is, whatever other calls are made, and every other claim of it fails.
\<close>

theorem claimed_task_is_held:
  assumes "claim_task env i member (board_after ops0 empty_board) = (Inr t, b)"
    and "list_all (\<lambda>p. \<not> updates_task i p) ops"
  shows "task_status t = Claimed \<and> task_owner t = Some member \<and>
    (\<exists>t0. read_task (board_after ops0 empty_board) i = Inr t0 \<and> task_status t0 = Pending \<and>
       blocked_by t = blocked_by t0) \<and>
    (\<forall>d \<in> set (blocked_by t).
       \<exists>u. read_task (board_after ops0 empty_board) d = Inr u \<and> task_status u = Completed) \<and>
    read_task (board_after ops b) i = Inr t \<and>
    \<not> is_ok (fst (claim_task env' i other (board_after ops b)))"
proof -
  have "board_ok (snd (board_step (ClaimTask env i member) (board_after ops0 empty_board)))"
    by (intro board_step_ok board_after_ok empty_board_ok)
  with assms(1) have ok: "board_ok b" by simp
  from assms(1) show ?thesis
  proof (cases rule: claim_task_cases)
    case (claimed t0)
    then have t: "t = claimed_task env member t0" by simp
    then have st: "task_status t = Claimed" "task_owner t = Some member" "blocked_by t = blocked_by t0"
      by (simp_all add: claimed_task_def)
    have "read_task b i = Inr t" using claimed t by simp
    with ok st assms(2) have held: "read_task (board_after ops b) i = Inr t"
      by (intro board_after_holds) simp_all
    from claim_refused [OF held, of env' other] st obtain e where
      "claim_task env' i other (board_after ops b) = (Inl e, board_after ops b)"
      by auto
    then have "\<not> is_ok (fst (claim_task env' i other (board_after ops b)))"
      by (simp add: is_ok_def)
    with claimed st held show ?thesis by simp
  qed simp
qed

theorem claimed_task_is_held_witness:
  "\<exists>t b. claim_task demo_env ''1'' ''w'' (board_after two_tasks empty_board) = (Inr t, b) \<and>
     task_owner t = Some ''w'' \<and>
     \<not> is_ok (fst (claim_task demo_env ''1'' ''v'' (board_after [ClaimTask demo_env ''2'' ''v''] b)))"
proof -
  obtain t b where c: "claim_task demo_env ''1'' ''w'' (board_after two_tasks empty_board) = (Inr t, b)"
    by (simp add: board_eval)
  have "list_all (\<lambda>p. \<not> updates_task ''1'' p) [ClaimTask demo_env ''2'' ''v'']" by simp
  from claimed_task_is_held [OF c this, of demo_env "''v''"] c show ?thesis by blast
qed

text \<open>
  C21: \<open>transitive_blockers\<close> always returns, also on blockers that form a cycle. Its result
  has exactly the tasks reached from the given one over one or more blocked-by edges,
  without the task itself; it fails exactly when it meets a task whose file cannot be
  read, with the error of that file.
\<close>

theorem transitive_blockers_exact:
  "case transitive_blockers b i of
     Inr ds \<Rightarrow> set ds = (blocked_rel b)\<^sup>+ `` {i} - {i} \<and>
       (blocked_rel b)\<^sup>* `` {i} \<subseteq> {j. \<exists>t. read_task b j = Inr t}
   | Inl e \<Rightarrow> \<exists>j. (i, j) \<in> (blocked_rel b)\<^sup>* \<and> read_task b j = Inl e"
proof -
  have "case transitive_blockers b i of
      Inr ds \<Rightarrow> set ds = (blocked_rel b)\<^sup>+ `` {i} - {i} \<and> (\<forall>j \<in> (blocked_rel b)\<^sup>* `` {i}. readable b j)
    | Inl e \<Rightarrow> \<exists>j \<in> (blocked_rel b)\<^sup>* `` {i}. read_task b j = Inl e"
    unfolding transitive_blockers_def by (rule blockers_loop_exact) auto
  then show ?thesis by (auto simp: readable_def split: sum.splits)
qed

section \<open>Lock files\<close>

text \<open>
  C22: In every interleaving of any number of callers of \<open>with_lock\<close>, with processes dying
  at any step, at most one live caller is inside the section, and the lock file on disk is
  its own - as long as no process has died, or no stale verdict was acted on after the
  judged lock had been replaced.
\<close>

theorem lock_mutual_exclusion:
  assumes "config_ok k" and "lock_reachable k s"
    and "dead s = {} \<or> \<not> overtaken s"
    and "in_section k s c" and "in_section k s d"
  shows "c = d \<and> (\<exists>content. lock_file s = Some (c, content))"
proof -
  have inv: "lock_inv k s" using assms(1,2) by (simp add: reachable_lock_inv)
  with assms(3) have no: "\<not> overtaken s" by (auto simp: lock_inv_def)
  from section_owner [OF inv no assms(4)] section_owner [OF inv no assms(5)] show ?thesis by auto
qed

theorem lock_mutual_exclusion_witness:
  "\<exists>s. lock_reachable plain_locks s \<and> in_section plain_locks s 1 \<and>
     phase s 2 = Trying 0 \<and> (\<exists>content. lock_file s = Some (1, content))"
proof -
  obtain s where s: "lock_reachable plain_locks s"
    "lock_view s = ([Outside, Holding, Trying 0], [False, False, False], 0, False)"
    using run_view_reachable [OF one_holder_run] by auto
  then have no: "\<not> overtaken s" and sec: "in_section plain_locks s 1"
    by (simp_all add: lock_view_def in_section_def live_def plain_locks_def)
  from lock_mutual_exclusion [OF plain_locks_ok s(1) disjI2 [OF no] sec sec] s sec show ?thesis
    by (auto simp: lock_view_def)
qed

section \<open>The mailbox\<close>

text \<open>
  C23: Sending reaches a prefix of the recipients: each of them gets exactly one new file
  with the rendered message, under an id that was free in its inbox and within the
  backpressure bound; nothing else of the store changes. Anything is delivered only when
  the sender may post to the run (its token, and no run being deleted) and message, names
  and broadcast right pass the checks. An accepted message reached all recipients; a
  refused one stopped before the recipient that refused.
\<close>

theorem send_message_contract:
  assumes "send_message j env msg run ctx s = (res, s')"
  shows "run_files s' = run_files s \<and> boards s' = boards s \<and>
    (\<exists>k \<le> length (recipients_of msg ctx).
      (\<forall>r. if r \<in> set (take k (recipients_of msg ctx))
           then stored (message_id msg) (render j msg @ nl) (recipient_unread_max_bytes ctx)
                  (inbox_of s run r) (inbox_of s' run r)
           else inbox_of s' run r = inbox_of s run r) \<and>
      (\<forall>run' r. run' \<noteq> run \<longrightarrow> inbox_of s' run' r = inbox_of s run' r) \<and>
      (k > 0 \<longrightarrow> may_post s run (presented_token ctx) \<and> well_addressed msg ctx) \<and>
      (case res of
         Inr d \<Rightarrow> may_post s run (presented_token ctx) \<and> well_addressed msg ctx \<and>
           k = length (recipients_of msg ctx) \<and> sent_id d = message_id msg \<and>
           delivered_to d = recipients_of msg ctx
       | Inl e \<Rightarrow> k < length (recipients_of msg ctx) \<or>
           k = 0 \<and> \<not> (may_post s run (presented_token ctx) \<and> well_addressed msg ctx)))"
  using assms
proof (cases rule: send_message_cases)
  case (refused e)
  then have "\<not> (may_post s run (presented_token ctx) \<and> well_addressed msg ctx)"
    using admit_iff [of s msg run ctx "recipients_of msg ctx"] by auto
  with refused show ?thesis by (intro conjI exI [of _ 0]) simp_all
next
  case (tried r)
  from deliver_all_prefix [OF tried(3) recipients_distinct] obtain k where k:
    "k \<le> length (recipients_of msg ctx)"
    "\<And>q. q \<in> set (take k (recipients_of msg ctx)) \<Longrightarrow>
       deliver env msg (render j msg @ nl) ctx q (inbox_of s run q) = Inr (inbox_of s' run q)"
    "\<And>run' q. run' \<noteq> run \<or> q \<notin> set (take k (recipients_of msg ctx)) \<Longrightarrow> inbox_of s' run' q = inbox_of s run' q"
    "run_files s' = run_files s" "boards s' = boards s"
    "case r of Inr ds \<Rightarrow> k = length (recipients_of msg ctx) \<and> ds = [] @ recipients_of msg ctx
     | Inl e \<Rightarrow> k < length (recipients_of msg ctx) \<and>
         deliver env msg (render j msg @ nl) ctx (recipients_of msg ctx ! k)
           (inbox_of s run (recipients_of msg ctx ! k)) = Inl e"
    by blast
  have "stored (message_id msg) (render j msg @ nl) (recipient_unread_max_bytes ctx)
      (inbox_of s run q) (inbox_of s' run q)" if "q \<in> set (take k (recipients_of msg ctx))" for q
    using deliver_stored [OF k(2) [OF that]] .
  moreover have "case res of
         Inr d \<Rightarrow> may_post s run (presented_token ctx) \<and> well_addressed msg ctx \<and>
           k = length (recipients_of msg ctx) \<and> sent_id d = message_id msg \<and>
           delivered_to d = recipients_of msg ctx
       | Inl e \<Rightarrow> k < length (recipients_of msg ctx) \<or>
           k = 0 \<and> \<not> (may_post s run (presented_token ctx) \<and> well_addressed msg ctx)"
    using k(6) tried by (cases r) simp_all
  ultimately show ?thesis
    using k(1,3,4,5) tried(1,2) by (intro conjI exI [of _ k]) simp_all
qed

theorem send_message_contract_witness:
  "\<exists>s. send_message demo_codec demo_delivery demo_message ''r'' (lead_context [] ''k'') demo_run =
       (Inr \<lparr>sent_id = ''m1'', delivered_to = [''v'']\<rparr>, s) \<and>
     well_addressed demo_message (lead_context [] ''k'') \<and> run_files s = run_files demo_run"
proof -
  obtain s where s: "send_message demo_codec demo_delivery demo_message ''r'' (lead_context [] ''k'') demo_run =
       (Inr \<lparr>sent_id = ''m1'', delivered_to = [''v'']\<rparr>, s)"
    using demo_sent by blast
  from send_message_contract [OF s] s show ?thesis by auto
qed

section \<open>Creating a team\<close>

text \<open>
  C24: Whenever the spawning of a new team whose members have distinct names ends without
  failure, in every interleaving of
  its at most four threads, the spawner was called exactly once for every member, in the
  order of the specification; the run is active and each member is running with the
  session its spawn returned, except those whose record was lost to a failing state
  transition. A team has between one and eight members, none of them read-only.
\<close>

theorem team_creation_complete:
  assumes "prepare_team env spec lead s = (Inr (Prepared spec' st0 s0), s1)"
    and "spawning spec' (team_run_id st0) (worker_count st0 spec') s0 ss"
    and "joined (worker_count st0 spec') ss"
    and "finish_team fenv (team_run_id st0) ss = (Inr st, s')"
    and "distinct (map member_name (spec_members spec'))"
  shows "launches ss = [0..<length (spec_members spec')] \<and>
    load_runtime s' (team_run_id st0) = Inr st \<and> run_status st = RunActive \<and>
    (\<forall>i < length (spec_members spec').
       run_members st ! i = member_now (recorded ss i) (initial_member spec' (spec_members spec' ! i)) \<and>
       (recorded ss i \<noteq> None \<or> i \<in> set (skipped ss))) \<and>
    1 \<le> length (spec_members spec') \<and> length (spec_members spec') \<le> 8 \<and>
    worker_count st0 spec' \<le> 4 \<and>
    (\<forall>m \<in> set (spec_members spec'). agent_type m \<notin> read_only_agents)"
proof -
  note prep = prepare_team_fresh [OF assms(1)]
  note norm = normalize_spec_ok [OF prep(1)]
  let ?n = "worker_count st0 spec'"
  have bounds: "run_bounds st0 = default_bounds" and run: "team_run_id st0 = new_run_id env"
    and version: "run_version st0 = 1" and ms: "run_members st0 = map (initial_member spec') (spec_members spec')"
    by (simp_all add: prep(4) initial_state_def)
  have names: "map rm_name (run_members st0) = map member_name (spec_members spec')"
    by (simp add: prep(4) initial_names)
  have "load_runtime s0 (team_run_id st0) = Inr st0"
    by (simp add: prep(5) run load_runtime_ok version)
  then have tracks: "run_tracks st0 ss"
    using spawning_tracks [OF assms(2)] assms(5) names by simp
  have ok: "failure ss = None" using assms(4) by (auto simp: finish_team_def split: option.splits)
  note pool = joined_complete [OF spawning_pool [OF assms(2)] assms(3) worker_count_bounds(1) [OF bounds] ok]
  from assms(4) ok have "transition (activate_env fenv) (team_run_id st0) (with_status RunActive) (sp_store ss) = (Inr st, s')"
    by (simp add: finish_team_def)
  then have st: "st = st0\<lparr>run_status := RunActive, run_members := members_now (recorded ss) (run_members st0)\<rparr>"
    and st': "s' = (sp_store ss)\<lparr>run_files := fmupd (team_run_id st0) (StateFile st) (run_files (sp_store ss))\<rparr>"
    using tracks by (cases rule: transition_cases; simp add: run_tracks_def with_status_def)+
  have loaded: "load_runtime s' (team_run_id st0) = Inr st"
    by (simp add: st' load_runtime_ok) (simp add: st version)
  have members: "run_members st ! i = member_now (recorded ss i) (initial_member spec' (spec_members spec' ! i))"
    if "i < length (spec_members spec')" for i
    using that by (simp add: st ms members_now_def)
  show ?thesis
    using pool members loaded norm(3,4) worker_count_bounds(2) [OF bounds, of spec'] prep(2)
    by (simp add: st check_eligible_iff team_max_members_def team_max_parallel_def)
qed

theorem team_creation_complete_witness:
  "\<exists>st0 s0 ss st s'. run_tracks st0 ss \<and>
     finish_team demo_finish ''r'' ss = (Inr st, s') \<and> launches ss = [0, 1] \<and> run_status st = RunActive"
proof -
  let ?spec = "(demo_team ''a'' ''b'')\<lparr>lead_agent_id := Some ''a''\<rparr>"
  obtain st0 s0 where prep: "prepare_team demo_create (demo_team ''a'' ''b'') ''lead'' empty_store =
      (Inr (Prepared ?spec st0 s0), s0)"
    and b: "run_bounds st0 = default_bounds" and r: "team_run_id st0 = ''r''"
    using demo_prepared by blast
  have n: "worker_count st0 ?spec = 2"
    by (simp add: worker_count_def b default_bounds_def team_max_parallel_def demo_team_def)
  obtain ss where run: "spawn_run ?spec ''r'' spawn_two (spawn_init s0) = Some ss"
    and fin: "joined 2 ss" "failure ss = None"
    by (simp add: spawn_two_def spawn_init_def demo_team_def Let_def joined_def less_2_cases_iff)
  have sp: "spawning ?spec (team_run_id st0) (worker_count st0 ?spec) s0 ss"
    using spawn_run_reachable [OF run, of 2 s0] by (simp add: n r spawning.start spawn_two_def)
  have d: "distinct (map member_name (spec_members ?spec))" by (simp add: demo_team_def)
  note p = prepare_team_fresh [OF prep]
  have "load_runtime s0 (team_run_id st0) = Inr st0"
    using p(4,5) by (simp add: load_runtime_ok r demo_create_def) (simp add: initial_state_def)
  moreover have names: "map rm_name (run_members st0) = map member_name (spec_members ?spec)"
    by (simp only: p(4) initial_names)
  ultimately have tracks: "run_tracks st0 ss" using spawning_tracks [OF sp] d by simp
  then obtain st s' where f: "finish_team demo_finish (team_run_id st0) ss = (Inr st, s')"
    using fin(2)
    by (simp add: run_tracks_def finish_team_def demo_finish_def demo_write_def transition_def persist_def Let_def)
  from team_creation_complete [OF prep sp _ f d] fin(1) n
  have "launches ss = [0..<length (spec_members ?spec)]" and "run_status st = RunActive" by simp_all
  moreover have "[0..<length (spec_members ?spec)] = [0, 1]" by (simp add: demo_team_def upt_rec)
  ultimately show ?thesis using tracks f r by auto
qed

end
