(* ===== verification/Risk_Tokens.thy ===== *)
theory Risk_Tokens
  imports Rust_Str
begin

text \<open>
  The shell tokenizer of the command-risk classifier
  (\<open>next-code-command-risk/src/tokenize.rs\<close>): words, operators and redirect targets of a
  command line, and its segments. All characters the scanner acts on are ASCII, so it goes
  over bytes. Besides the code this theory shows how a command line is scanned piece by
  piece.
\<close>

section \<open>Tokens\<close>

record token =
  text_of :: string
  receives_pipe :: bool
  is_truncating_redirect_target :: bool
  is_operator :: bool

definition word_token :: "string \<Rightarrow> token" where
  "word_token s =
     \<lparr>text_of = s, receives_pipe = False, is_truncating_redirect_target = False, is_operator = False\<rparr>"

definition operator_token :: "string \<Rightarrow> token" where
  "operator_token s = (word_token s)\<lparr>is_operator := True\<rparr>"

text \<open>The part after the last slash.\<close>

definition basename :: "token \<Rightarrow> string" where
  "basename t = rev (takeWhile (\<lambda>c. c \<noteq> CHR ''/'') (rev (text_of t)))"

definition is_flag :: "token \<Rightarrow> bool" where
  "is_flag t \<longleftrightarrow> starts_with (text_of t) ''-'' \<and> length (text_of t) > 1"

definition is_recursive_flag :: "token \<Rightarrow> bool" where
  "is_recursive_flag t \<longleftrightarrow>
     is_flag t \<and>
     (if starts_with (text_of t) ''--'' then text_of t = ''--recursive''
      else contains (text_of t) ''r'' \<or> contains (text_of t) ''R'')"

section \<open>Scanning\<close>

definition squote :: char where "squote = CHR 0x27"
definition dquote :: char where "dquote = CHR 0x22"
definition bslash :: char where "bslash = CHR 0x5C"

lemmas special_chars = squote_def dquote_def bslash_def

text \<open>
  The text up to the closing quote and what follows it; without a closing quote the text
  goes to the end. In double quotes a backslash escapes a quote, a backslash, a dollar
  sign and a backquote.
\<close>

fun single_quoted :: "string \<Rightarrow> string \<times> string option" where
  "single_quoted [] = ([], None)"
| "single_quoted (c # cs) =
     (if c = squote then ([], Some cs) else (let (q, rest) = single_quoted cs in (c # q, rest)))"

fun double_quoted :: "string \<Rightarrow> string \<times> string option" where
  "double_quoted [] = ([], None)"
| "double_quoted [c] = (if c = dquote then ([], Some []) else ([c], None))"
| "double_quoted (c # d # cs) =
     (if c = dquote then ([], Some (d # cs))
      else if c = bslash \<and> (d = dquote \<or> d = bslash \<or> d = CHR ''$'' \<or> d = CHR ''`'')
      then (let (q, rest) = double_quoted cs in (d # q, rest))
      else (let (q, rest) = double_quoted (d # cs) in (c # q, rest)))"

record lexer =
  lx_tokens :: "token list"
  lx_current :: string
  has_content :: bool
  pending_redirect :: bool

definition lexer_start :: lexer where
  "lexer_start = \<lparr>lx_tokens = [], lx_current = [], has_content = False, pending_redirect = False\<rparr>"

definition flush :: "lexer \<Rightarrow> lexer" where
  "flush l =
     (if has_content l
      then \<lparr>lx_tokens = lx_tokens l @ [(word_token (lx_current l))\<lparr>is_truncating_redirect_target := pending_redirect l\<rparr>],
            lx_current = [], has_content = False, pending_redirect = False\<rparr>
      else l)"

definition add_text :: "string \<Rightarrow> lexer \<Rightarrow> lexer" where
  "add_text s l = l\<lparr>lx_current := lx_current l @ s, has_content := True\<rparr>"

definition add_operator :: "string \<Rightarrow> lexer \<Rightarrow> lexer" where
  "add_operator s l = (let l' = flush l in l'\<lparr>lx_tokens := lx_tokens l' @ [operator_token s]\<rparr>)"

definition await_redirect :: "lexer \<Rightarrow> lexer" where
  "await_redirect l = (flush l)\<lparr>pending_redirect := True\<rparr>"

lemma single_quoted_length: "length (unwrap_or (snd (single_quoted cs)) []) \<le> length cs"
  by (induction cs) (auto simp: Let_def split: prod.splits)

lemma double_quoted_length: "length (unwrap_or (snd (double_quoted cs)) []) \<le> length cs"
proof (induction cs rule: double_quoted.induct)
  case (3 c d cs)
  then show ?case by (auto simp: Let_def split: prod.splits)
qed (auto split: if_splits)

function lex :: "string \<Rightarrow> lexer \<Rightarrow> lexer" where
  "lex [] l = flush l"
| "lex (c # cs) l =
     (if c = squote then
        (let q = single_quoted cs in lex (unwrap_or (snd q) []) (add_text (fst q) l))
      else if c = dquote then
        (let q = double_quoted cs in lex (unwrap_or (snd q) []) (add_text (fst q) l))
      else if c = bslash then
        (case cs of [] \<Rightarrow> lex [] l | d # ds \<Rightarrow> lex ds (add_text [d] l))
      else if c = CHR '' '' \<or> c = CHR 0x09 then lex cs (flush l)
      else if c = CHR 0x0A \<or> c = CHR '';'' then lex cs (add_operator [c] l)
      else if c = CHR ''&'' \<or> c = CHR ''|'' then
        (if cs \<noteq> [] \<and> hd cs = c then lex (tl cs) (add_operator [c, c] l)
         else lex cs (add_operator [c] l))
      else if c = CHR ''('' \<or> c = CHR '')'' then lex cs (add_operator [c] l)
      else if c = CHR ''>'' then
        (if cs \<noteq> [] \<and> hd cs = CHR ''>'' then lex (tl cs) (flush l)
         else if cs \<noteq> [] \<and> hd cs = CHR ''|'' then lex (tl cs) (await_redirect l)
         else lex cs (await_redirect l))
      else if c = CHR ''<'' then lex cs (flush l)
      else lex cs (add_text [c] l))"
  by pat_completeness auto
termination
  by (relation "measure (\<lambda>(cs, l). length cs)")
    (use single_quoted_length double_quoted_length in \<open>auto simp: less_Suc_eq_le\<close>)

declare lex.simps(2) [simp del]

definition tokenize :: "string \<Rightarrow> token list" where
  "tokenize command = lx_tokens (lex command lexer_start)"

section \<open>Segments\<close>

definition segment_separators :: "string list" where
  "segment_separators = [''&&'', ''||'', '';'', ''|'', nl, ''('', '')'']"

definition is_separator :: "token \<Rightarrow> bool" where
  "is_separator t \<longleftrightarrow> is_operator t \<and> text_of t \<in> set segment_separators"

fun segments_of :: "token list \<Rightarrow> token list \<Rightarrow> bool \<Rightarrow> token list list" where
  "segments_of [] current piped = (if current \<noteq> [] then [current] else [])"
| "segments_of (t # ts) current piped =
     (if is_separator t
      then (if current \<noteq> [] then [current] else []) @ segments_of ts [] (text_of t = ''|'')
      else segments_of ts (current @ [t\<lparr>receives_pipe := piped\<rparr>]) piped)"

definition split_segments :: "string \<Rightarrow> token list list" where
  "split_segments command = segments_of (tokenize command) [] False"

section \<open>Lengths\<close>

text \<open>The texts of the tokens are no longer than the command line.\<close>

definition text_size :: "token list \<Rightarrow> nat" where
  "text_size ts = (\<Sum>t \<leftarrow> ts. length (text_of t))"

definition lexer_size :: "lexer \<Rightarrow> nat" where
  "lexer_size l = text_size (lx_tokens l) + (if has_content l then length (lx_current l) else 0)"

definition lexer_ok :: "lexer \<Rightarrow> bool" where
  "lexer_ok l \<longleftrightarrow> (\<not> has_content l \<longrightarrow> lx_current l = [])"

lemma text_size_simps [simp]:
  "text_size [] = 0" "text_size (t # ts) = length (text_of t) + text_size ts"
  "text_size (xs @ ys) = text_size xs + text_size ys"
  by (simp_all add: text_size_def)

lemma token_texts [simp]:
  "text_of (word_token s) = s" "text_of (operator_token s) = s"
  "is_operator (word_token s) = False" "is_operator (operator_token s) = True"
  "is_truncating_redirect_target (word_token s) = False" "receives_pipe (word_token s) = False"
  by (simp_all add: word_token_def operator_token_def)

lemma lexer_sizes [simp]:
  "lexer_ok l \<Longrightarrow> lexer_size (flush l) = lexer_size l"
  "lexer_ok l \<Longrightarrow> lexer_size (add_text s l) = lexer_size l + length s"
  "lexer_ok l \<Longrightarrow> lexer_size (add_operator s l) = lexer_size l + length s"
  "lexer_ok l \<Longrightarrow> lexer_size (await_redirect l) = lexer_size l"
  by (auto simp: lexer_size_def flush_def add_text_def add_operator_def await_redirect_def Let_def lexer_ok_def)

lemma lexer_oks [simp]:
  "lexer_ok l \<Longrightarrow> lexer_ok (flush l)" "lexer_ok (add_text s l)"
  "lexer_ok l \<Longrightarrow> lexer_ok (add_operator s l)" "lexer_ok l \<Longrightarrow> lexer_ok (await_redirect l)"
  by (auto simp: lexer_ok_def flush_def add_text_def add_operator_def await_redirect_def Let_def)

lemma single_quoted_size: "length (fst (single_quoted cs)) + length (unwrap_or (snd (single_quoted cs)) []) \<le> length cs"
  by (induction cs) (auto simp: Let_def split: prod.splits)

lemma double_quoted_size: "length (fst (double_quoted cs)) + length (unwrap_or (snd (double_quoted cs)) []) \<le> length cs"
proof (induction cs rule: double_quoted.induct)
  case (3 c d cs)
  then show ?case by (auto simp: Let_def split: prod.splits)
qed (auto split: if_splits)

lemma size_if:
  "(b \<Longrightarrow> text_size (lx_tokens x) \<le> n) \<Longrightarrow> (\<not> b \<Longrightarrow> text_size (lx_tokens y) \<le> n) \<Longrightarrow>
   text_size (lx_tokens (if b then x else y)) \<le> n"
  by simp

lemma lex_size: "lexer_ok l \<Longrightarrow> text_size (lx_tokens (lex cs l)) \<le> lexer_size l + length cs"
proof (induction "length cs" arbitrary: cs l rule: less_induct)
  case less
  have flushed: "text_size (lx_tokens (flush l)) \<le> lexer_size l"
    by (simp add: flush_def lexer_size_def)
  show ?case
  proof (cases cs)
    case Nil
    with flushed show ?thesis by simp
  next
    case (Cons c ds)
    have tail: "text_size (lx_tokens (lex es k)) \<le> Suc (lexer_size l + length ds)"
      if "length es \<le> length ds" "lexer_ok k" "lexer_size k + length es \<le> Suc (lexer_size l + length ds)" for es k
      using less.hyps [of es k] that Cons by simp
    note facts = tail less.prems Cons lex.simps(2) Let_def
    consider "c = squote" | "c = dquote" "c \<noteq> squote" | "c = bslash" "c \<noteq> squote" "c \<noteq> dquote"
      | "c \<noteq> squote" "c \<noteq> dquote" "c \<noteq> bslash"
      by blast
    then show ?thesis
    proof cases
      case 1
      then show ?thesis using single_quoted_size [of ds] by (simp add: facts)
    next
      case 2
      then show ?thesis using double_quoted_size [of ds] by (simp add: facts)
    next
      case 3
      then show ?thesis using flushed tail by (cases ds) (simp_all add: facts)
    next
      case 4
      note bound = tail [OF _ lexer_oks(1) [OF less.prems]] tail [OF _ lexer_oks(2)]
        tail [OF _ lexer_oks(3) [OF less.prems]] tail [OF _ lexer_oks(4) [OF less.prems]]
      have whole: "text_size (lx_tokens (lex ds (flush l))) \<le> Suc (lexer_size l + length ds)"
        "text_size (lx_tokens (lex ds (add_operator [c] l))) \<le> Suc (lexer_size l + length ds)"
        "text_size (lx_tokens (lex ds (await_redirect l))) \<le> Suc (lexer_size l + length ds)"
        "text_size (lx_tokens (lex ds (add_text [c] l))) \<le> Suc (lexer_size l + length ds)"
        by (rule bound; simp add: less.prems)+
      have rest: "text_size (lx_tokens (lex (tl ds) (flush l))) \<le> Suc (lexer_size l + length ds)"
        "text_size (lx_tokens (lex (tl ds) (await_redirect l))) \<le> Suc (lexer_size l + length ds)"
        by (rule bound; simp add: less.prems)+
      have doubled: "text_size (lx_tokens (lex (tl ds) (add_operator [c, c] l))) \<le> Suc (lexer_size l + length ds)"
        if "ds \<noteq> []"
        using that by (intro bound) (cases ds; simp add: less.prems)+
      show ?thesis
        unfolding Cons lex.simps(2)
        by (simp only: 4 if_False length_Cons add_Suc_right) (intro size_if whole rest doubled; erule conjunct1)
    qed
  qed
qed

lemma tokenize_size: "text_size (tokenize c) \<le> length c"
  using lex_size [of lexer_start c]
  by (simp add: tokenize_def lexer_size_def lexer_ok_def lexer_start_def)

lemma segments_size:
  "seg \<in> set (segments_of ts current piped) \<Longrightarrow> text_size seg \<le> text_size current + text_size ts"
proof (induction ts current piped rule: segments_of.induct)
  case (2 t ts current piped)
  then show ?case by (fastforce split: if_splits)
qed (simp split: if_splits)

lemma split_segments_size: "seg \<in> set (split_segments c) \<Longrightarrow> text_size seg \<le> length c"
  using segments_size [of seg "tokenize c" "[]" False] tokenize_size [of c] by (simp add: split_segments_def)

lemma text_size_member: "t \<in> set ts \<Longrightarrow> length (text_of t) \<le> text_size ts"
  by (induction ts) auto

end
