(* ===== verification/Risk_Paths.thy ===== *)
theory Risk_Paths
  imports Rust_Str
begin

text \<open>
  Path classification of the command-risk classifier
  (\<open>next-code-command-risk/src/paths.rs\<close>). A path is its text; what the standard library
  does with a Unix path (\<open>Path::components\<close>, \<open>push\<close>, \<open>parent\<close>, \<open>starts_with\<close>) is
  written out here, \<open>parent\<close> up to repeated separators, which no caller looks at. Then
  the protected paths are described by a reference that reads a path from the right.
\<close>

section \<open>Levels, findings, context\<close>

datatype risk_level = Safe | Low | Medium | High | Critical

text \<open>The derived order of the enum.\<close>

primrec rank :: "risk_level \<Rightarrow> nat" where
  "rank Safe = 0" | "rank Low = 1" | "rank Medium = 2" | "rank High = 3" | "rank Critical = 4"

instantiation risk_level :: linorder
begin

definition less_eq_risk_level :: "risk_level \<Rightarrow> risk_level \<Rightarrow> bool" where
  "less_eq_risk_level a b \<longleftrightarrow> rank a \<le> rank b"

definition less_risk_level :: "risk_level \<Rightarrow> risk_level \<Rightarrow> bool" where
  "less_risk_level a b \<longleftrightarrow> rank a < rank b"

instance
proof
  fix a b :: risk_level
  show "a \<le> b \<Longrightarrow> b \<le> a \<Longrightarrow> a = b"
    by (cases a; cases b) (simp_all add: less_eq_risk_level_def)
qed (auto simp: less_eq_risk_level_def less_risk_level_def)

end

lemma Critical_top [simp]: "l \<le> Critical"
  by (cases l) (simp_all add: less_eq_risk_level_def)

lemma Safe_bot [simp]: "Safe \<le> l"
  by (simp add: less_eq_risk_level_def)

definition runs_immediately :: "risk_level \<Rightarrow> bool" where
  "runs_immediately l \<longleftrightarrow> l = Safe \<or> l = Low"

definition is_absolute_deny :: "risk_level \<Rightarrow> bool" where
  "is_absolute_deny l \<longleftrightarrow> l = Critical"

record risk_finding =
  finding_level :: risk_level
  justification :: string
  target :: "string option"

record risk_context =
  working_dir :: "string option"
  home_dir :: "string option"

section \<open>Unix paths\<close>

datatype path_component = RootDir | CurDir | ParentDir | Normal string

text \<open>The pieces between the slashes, and the components they are.\<close>

fun pieces_acc :: "string \<Rightarrow> string \<Rightarrow> string list" where
  "pieces_acc acc [] = [rev acc]"
| "pieces_acc acc (c # cs) =
     (if c = CHR ''/'' then rev acc # pieces_acc [] cs else pieces_acc (c # acc) cs)"

definition pieces :: "string \<Rightarrow> string list" where
  "pieces s = pieces_acc [] s"

definition component_of :: "string \<Rightarrow> path_component list" where
  "component_of s =
     (if s = [] \<or> s = ''.'' then [] else if s = ''..'' then [ParentDir] else [Normal s])"

definition is_absolute :: "string \<Rightarrow> bool" where
  "is_absolute p \<longleftrightarrow> starts_with p ''/''"

definition components :: "string \<Rightarrow> path_component list" where
  "components p =
     (if is_absolute p then [RootDir] else if hd (pieces p) = ''.'' then [CurDir] else []) @
     concat (map component_of (pieces p))"

definition path_push :: "string \<Rightarrow> string \<Rightarrow> string" where
  "path_push p q =
     (if is_absolute q then q
      else if p = [] \<or> last p = CHR ''/'' then p @ q else p @ ''/'' @ q)"

primrec component_text :: "path_component \<Rightarrow> string" where
  "component_text RootDir = ''/''"
| "component_text CurDir = ''.''"
| "component_text ParentDir = ''..''"
| "component_text (Normal s) = s"

definition render :: "path_component list \<Rightarrow> string" where
  "render cs = foldl (\<lambda>p c. path_push p (component_text c)) [] cs"

definition path_eq :: "string \<Rightarrow> string \<Rightarrow> bool" where
  "path_eq p q \<longleftrightarrow> components p = components q"

definition path_starts_with :: "string \<Rightarrow> string \<Rightarrow> bool" where
  "path_starts_with p q \<longleftrightarrow> take (length (components q)) (components p) = components q"

definition parent :: "string \<Rightarrow> string option" where
  "parent p =
     (if components p = [] \<or> last (components p) = RootDir then None
      else Some (render (butlast (components p))))"

definition file_name :: "string \<Rightarrow> string option" where
  "file_name p =
     (if components p = [] then None
      else (case last (components p) of Normal s \<Rightarrow> Some s | _ \<Rightarrow> None))"

section \<open>Protected paths\<close>

definition protected_credential_subpaths :: "string list" where
  "protected_credential_subpaths = [''.ssh'', ''.gnupg'', ''.aws'', ''.kube'', ''.docker'']"

definition protected_home_subpaths :: "string list" where
  "protected_home_subpaths =
     [''.config'', ''.next-code'', ''.claude'', ''.local'', ''.local/share'', ''Documents'', ''Desktop'']"

definition protected_system_paths :: "string list" where
  "protected_system_paths =
     [''/'', ''/bin'', ''/boot'', ''/dev'', ''/etc'', ''/lib'', ''/lib64'', ''/opt'', ''/proc'',
      ''/root'', ''/sbin'', ''/srv'', ''/sys'', ''/usr'', ''/var'', ''/Applications'', ''/System'',
      ''/Library'', ''/Users'', ''/home'']"

definition system_paths_protected_recursively :: "string list" where
  "system_paths_protected_recursively =
     [''/bin'', ''/boot'', ''/dev'', ''/etc'', ''/lib'', ''/lib64'', ''/proc'', ''/sbin'', ''/sys'',
      ''/usr'', ''/var/lib'', ''/System'', ''/Library'']"

section \<open>Expansion\<close>

text \<open>\<open>str::replace\<close>: every occurrence, from the left, without overlap.\<close>

function replace_all :: "string \<Rightarrow> string \<Rightarrow> string \<Rightarrow> string" where
  "replace_all pat new [] = []"
| "replace_all pat new (c # cs) =
     (case strip_prefix pat (c # cs) of
        Some rest \<Rightarrow> (if pat = [] then c # cs else new @ replace_all pat new rest)
      | None \<Rightarrow> c # replace_all pat new cs)"
  by pat_completeness auto
termination
  by (relation "measure (\<lambda>(p, n, s). length s)") (auto simp: strip_prefix_iff Cons_eq_append_conv)

definition normalize_step :: "string \<Rightarrow> path_component \<Rightarrow> string" where
  "normalize_step out c =
     (case c of
        ParentDir \<Rightarrow> unwrap_or (parent out) out
      | CurDir \<Rightarrow> out
      | _ \<Rightarrow> path_push out (component_text c))"

definition normalize :: "string \<Rightarrow> string" where
  "normalize p = (let out = foldl normalize_step [] (components p) in if out = [] then ''/'' else out)"

definition expand_home :: "string \<Rightarrow> risk_context \<Rightarrow> string" where
  "expand_home raw ctx =
     (case home_dir ctx of
        None \<Rightarrow> raw
      | Some home \<Rightarrow>
          (let txt = replace_all ''$HOME'' home (replace_all ''${HOME}'' home raw)
           in if txt = ''~'' then home
              else (case strip_prefix ''~/'' txt of Some rest \<Rightarrow> home @ ''/'' @ rest | None \<Rightarrow> txt)))"

definition expand :: "string \<Rightarrow> risk_context \<Rightarrow> string" where
  "expand raw ctx =
     (let path = expand_home raw ctx
      in if is_absolute path then normalize path
         else (case working_dir ctx of Some cwd \<Rightarrow> normalize (path_push cwd path) | None \<Rightarrow> path))"

section \<open>Classification\<close>

definition is_catastrophic_target :: "string \<Rightarrow> risk_context \<Rightarrow> bool" where
  "is_catastrophic_target p ctx \<longleftrightarrow>
     (let path = normalize p
      in list_ex (path_eq path) protected_system_paths \<or>
         list_ex (path_starts_with path) system_paths_protected_recursively \<or>
         (case home_dir ctx of
            None \<Rightarrow> False
          | Some h \<Rightarrow>
              (let home = normalize h
               in path_eq path home \<or>
                  list_ex (\<lambda>sub. path_starts_with path (path_push home sub)) protected_credential_subpaths \<or>
                  list_ex (\<lambda>sub. path_eq path (path_push home sub)) protected_home_subpaths)))"

definition is_temp_path :: "string \<Rightarrow> bool" where
  "is_temp_path p \<longleftrightarrow> list_ex (path_starts_with p) [''/tmp'', ''/var/tmp'', ''/private/tmp'']"

definition inside_cwd :: "string \<Rightarrow> risk_context \<Rightarrow> bool" where
  "inside_cwd p ctx \<longleftrightarrow>
     (case working_dir ctx of None \<Rightarrow> False | Some cwd \<Rightarrow> path_starts_with p (normalize cwd))"

definition has_glob :: "string \<Rightarrow> bool" where
  "has_glob s \<longleftrightarrow> contains s ''*'' \<or> contains s ''?''"

definition contents_of_protected :: "string \<Rightarrow> risk_context \<Rightarrow> bool" where
  "contents_of_protected expanded ctx \<longleftrightarrow>
     (case parent expanded of
        None \<Rightarrow> False
      | Some dir \<Rightarrow> is_catastrophic_target dir ctx \<and> file_name expanded = Some ''*'')"

definition bounded_glob :: "string \<Rightarrow> risk_context \<Rightarrow> bool" where
  "bounded_glob expanded ctx \<longleftrightarrow>
     (case parent expanded of
        None \<Rightarrow> False
      | Some dir \<Rightarrow> \<not> has_glob dir \<and> (inside_cwd dir ctx \<or> is_temp_path dir))"

definition is_device_node :: "string \<Rightarrow> bool" where
  "is_device_node p \<longleftrightarrow>
     path_starts_with p ''/dev'' \<and> \<not> path_starts_with p ''/dev/null'' \<and>
     \<not> path_starts_with p ''/dev/stdout'' \<and> \<not> path_starts_with p ''/dev/stderr''"

abbreviation finding :: "risk_level \<Rightarrow> string \<Rightarrow> string \<Rightarrow> risk_finding" where
  "finding l why t \<equiv> \<lparr>finding_level = l, justification = why, target = Some t\<rparr>"

definition classify_glob :: "string \<Rightarrow> string \<Rightarrow> risk_context \<Rightarrow> risk_finding" where
  "classify_glob expanded raw ctx =
     (if contents_of_protected expanded ctx
      then finding Critical ''would destroy the entire contents of a protected directory'' raw
      else if bounded_glob expanded ctx
      then finding Low ''glob is bounded to the working or temporary directory'' raw
      else finding Medium
        (''target contains a glob, so the exact set of affected files '' @
         ''is not known before execution'') raw)"

definition classify_target :: "string \<Rightarrow> string \<Rightarrow> bool \<Rightarrow> risk_context \<Rightarrow> risk_finding option" where
  "classify_target expanded raw recursive ctx =
     (if has_glob raw then Some (classify_glob expanded raw ctx)
      else if is_catastrophic_target expanded ctx
      then Some (finding Critical
        ''targets a protected system or home path that must never be destroyed'' expanded)
      else if contains raw ''$'' \<or> contains raw ''`''
      then Some (finding Medium
        (''target is computed at runtime (variable or command '' @
         ''substitution), so its value cannot be checked in advance'') raw)
      else if is_device_node expanded
      then Some (finding Critical
        ''writes directly to a device node, which can destroy a filesystem or disk'' expanded)
      else if inside_cwd expanded ctx
      then (if recursive
            then Some (finding Low ''recursive delete inside the working directory'' expanded)
            else None)
      else if is_temp_path expanded then None
      else Some (finding Low
        ''destructive operation targets a concrete path outside the working directory'' expanded))"

end
