(* ===== verification/Risk_Assess.thy ===== *)
theory Risk_Assess
  imports Risk_Tokens Risk_Paths
begin

text \<open>
  The assessment of a command line (\<open>next-code-command-risk/src/lib.rs\<close>): the program of
  each segment under its shell words and wrappers, its targets, the findings; and the gate
  that decides on them (\<open>src/gate.rs\<close>).
\<close>

section \<open>Programs\<close>

definition destructive_commands :: "string list" where
  "destructive_commands =
     [''rm'', ''rmdir'', ''shred'', ''unlink'', ''truncate'', ''dd'', ''mkfs'', ''fdisk'',
      ''parted'', ''wipefs'', ''srm'']"

definition wrapper_commands :: "string list" where
  "wrapper_commands =
     [''sudo'', ''doas'', ''env'', ''nice'', ''ionice'', ''time'', ''timeout'', ''nohup'',
      ''xargs'', ''command'', ''builtin'', ''exec'', ''setsid'', ''stdbuf'', ''chroot'',
      ''su'', ''watch'', ''eval'']"

definition shell_control_prefixes :: "string list" where
  "shell_control_prefixes =
     [''then'', ''do'', ''else'', ''elif'', ''if'', ''while'', ''until'', ''case'', ''in'', ''select'']"

definition wrapper_flag_takes_value :: "string \<Rightarrow> string \<Rightarrow> bool" where
  "wrapper_flag_takes_value wrapper flag \<longleftrightarrow>
     (if wrapper = ''sudo'' \<or> wrapper = ''doas''
      then flag \<in> set [''-u'', ''--user'', ''-g'', ''--group'', ''-C'']
      else if wrapper = ''nice'' then flag \<in> set [''-n'', ''--adjustment'']
      else if wrapper = ''ionice''
      then flag \<in> set [''-c'', ''--class'', ''-n'', ''--classdata'', ''-p'', ''--pid'']
      else if wrapper = ''timeout'' then flag \<in> set [''-s'', ''--signal'', ''-k'', ''--kill-after'']
      else if wrapper = ''xargs''
      then flag \<in> set [''-n'', ''--max-args'', ''-P'', ''--max-procs'', ''-s'', ''--max-chars'']
      else if wrapper = ''chroot'' then flag \<in> set [''--userspec'', ''--groups'']
      else False)"

definition shell_commands :: "string list" where
  "shell_commands = [''sh'', ''bash'', ''zsh'', ''dash'', ''ksh'', ''fish'']"

definition conditionally_destructive :: "(string \<times> string list) list" where
  "conditionally_destructive =
     [(''find'', [''-delete'', ''-exec'']), (''git'', [''clean'']), (''chmod'', [''-R'']),
      (''chown'', [''-R''])]"

definition is_safe_redirect_sink :: "string \<Rightarrow> bool" where
  "is_safe_redirect_sink raw \<longleftrightarrow>
     raw \<in> set [''/dev/null'', ''/dev/stdout'', ''/dev/stderr'', ''NUL'']"

section \<open>Unwrapping\<close>

fun strip_control :: "token list \<Rightarrow> token list" where
  "strip_control (t # u # ts) =
     (if text_of t \<in> set shell_control_prefixes then strip_control (u # ts) else t # u # ts)"
| "strip_control ts = ts"

definition is_number_word :: "string \<Rightarrow> bool" where
  "is_number_word s \<longleftrightarrow> list_all (\<lambda>c. is_ascii_digit c \<or> c = CHR ''.'') s"

text \<open>The options and operands of a wrapper in front of the program it runs.\<close>

fun skip_operands :: "string \<Rightarrow> token list \<Rightarrow> token list" where
  "skip_operands wrapper [] = []"
| "skip_operands wrapper (t # ts) =
     (if is_operator t \<or> contains (text_of t) ''='' then skip_operands wrapper ts
      else if is_flag t
      then (if wrapper_flag_takes_value wrapper (text_of t)
            then (case ts of [] \<Rightarrow> [] | _ # us \<Rightarrow> skip_operands wrapper us)
            else skip_operands wrapper ts)
      else if is_number_word (text_of t) then skip_operands wrapper ts
      else t # ts)"

lemma skip_operands_suffix: "\<exists>skipped. ts = skipped @ skip_operands w ts"
proof (induction w ts rule: skip_operands.induct)
  case (2 w t ts)
  consider "is_operator t \<or> contains (text_of t) ''=''"
    | "\<not> (is_operator t \<or> contains (text_of t) ''='')" "is_flag t" "wrapper_flag_takes_value w (text_of t)"
    | "\<not> (is_operator t \<or> contains (text_of t) ''='')" "is_flag t" "\<not> wrapper_flag_takes_value w (text_of t)"
    | "\<not> (is_operator t \<or> contains (text_of t) ''='')" "\<not> is_flag t"
    by blast
  then show ?case
  proof cases
    case 1
    from 2(1) [OF 1] obtain pre where "ts = pre @ skip_operands w ts" ..
    with 1 have "t # ts = (t # pre) @ skip_operands w (t # ts)" by simp
    then show ?thesis ..
  next
    case 2
    show ?thesis
    proof (cases ts)
      case Nil
      with 2 show ?thesis by simp
    next
      case (Cons u us)
      with "2.IH"(2) [OF 2] obtain pre where "us = pre @ skip_operands w us" by blast
      with 2 Cons have "t # ts = (t # u # pre) @ skip_operands w (t # ts)" by simp
      then show ?thesis ..
    qed
  next
    case 3
    with "2.IH"(3) obtain pre where "ts = pre @ skip_operands w ts" by blast
    with 3 have "t # ts = (t # pre) @ skip_operands w (t # ts)" by simp
    then show ?thesis ..
  next
    case 4
    show ?thesis
    proof (cases "is_number_word (text_of t)")
      case True
      with 4 "2.IH"(4) obtain pre where "ts = pre @ skip_operands w ts" by blast
      with 4 True have "t # ts = (t # pre) @ skip_operands w (t # ts)" by simp
      then show ?thesis ..
    next
      case False
      with 4 have "t # ts = [] @ skip_operands w (t # ts)" by simp
      then show ?thesis ..
    qed
  qed
qed simp

lemma skip_operands_length: "length (skip_operands w ts) \<le> length ts"
  using skip_operands_suffix [of ts w] by (metis length_append le_add2)

function unwrap :: "token list \<Rightarrow> string option \<Rightarrow> token list \<times> string option" where
  "unwrap [] wrapped_by = ([], wrapped_by)"
| "unwrap (t # ts) wrapped_by =
     (if basename t \<in> set wrapper_commands
      then unwrap (skip_operands (basename t) ts) (Some (basename t))
      else (t # ts, wrapped_by))"
  by pat_completeness auto
termination
  by (relation "measure (\<lambda>(ts, w). length ts)") (auto simp: skip_operands_length less_Suc_eq_le)

section \<open>Findings of one command\<close>

definition hidden_payload :: "string \<Rightarrow> risk_finding" where
  "hidden_payload wrapper =
     \<lparr>finding_level = Medium,
      justification = ''`'' @ wrapper @ ''` runs another command that could not be identified statically'',
      target = None\<rparr>"

definition piped_targets :: "string \<Rightarrow> risk_finding" where
  "piped_targets program =
     \<lparr>finding_level = Medium,
      justification = ''`'' @ program @ ''` deletes paths supplied by a pipe, so the set '' @
        ''of affected files cannot be checked before it runs'',
      target = None\<rparr>"

definition unknown_target :: "string \<Rightarrow> risk_finding" where
  "unknown_target program =
     \<lparr>finding_level = Medium,
      justification = ''`'' @ program @ ''` is destructive but its target could not be '' @
        ''determined statically, so its blast radius is unknown'',
      target = None\<rparr>"

definition is_triggered :: "string \<Rightarrow> token list \<Rightarrow> bool" where
  "is_triggered program tokens \<longleftrightarrow>
     program \<in> set destructive_commands \<or>
     (case map_of conditionally_destructive program of
        None \<Rightarrow> False
      | Some flags \<Rightarrow> list_ex (\<lambda>t. text_of t \<in> set flags) tokens)"

text \<open>The value of a \<open>dd\<close>-style operand.\<close>

definition operand :: "string \<Rightarrow> string" where
  "operand s =
     (case find_str s ''='' of
        None \<Rightarrow> s
      | Some i \<Rightarrow> (if take i s \<in> set [''of'', ''if'', ''seek'', ''conv''] then drop (i + 1) s else s))"

definition redirect_targets :: "token list \<Rightarrow> token list" where
  "redirect_targets tokens = filter is_truncating_redirect_target tokens"

definition targets_of :: "bool \<Rightarrow> token list \<Rightarrow> token list" where
  "targets_of triggered tokens =
     (if triggered then filter (\<lambda>t. \<not> is_flag t \<and> \<not> is_operator t) (tl tokens) else []) @
     filter (\<lambda>t. \<not> is_safe_redirect_sink (text_of t)) (redirect_targets tokens)"

definition target_finding :: "bool \<Rightarrow> risk_context \<Rightarrow> token \<Rightarrow> risk_finding option" where
  "target_finding recursive ctx t =
     (let raw = operand (text_of t) in classify_target (expand raw ctx) raw recursive ctx)"

definition assess_program :: "risk_context \<Rightarrow> token list \<Rightarrow> risk_finding list" where
  "assess_program ctx tokens =
     (let program = basename (hd tokens);
          triggered = is_triggered program tokens;
          targets = targets_of triggered tokens;
          piped = (if triggered \<and> receives_pipe (hd tokens) then [piped_targets program] else [])
      in if \<not> triggered \<and> redirect_targets tokens = [] then []
         else if triggered \<and> targets = [] then piped @ [unknown_target program]
         else piped @
           List.map_filter (target_finding (triggered \<and> list_ex is_recursive_flag tokens) ctx) targets)"

section \<open>Findings of a segment\<close>

lemma strip_control_size: "text_size (strip_control ts) \<le> text_size ts"
proof (induction ts rule: strip_control.induct)
  case (1 t u ts)
  then show ?case by (cases "text_of t \<in> set shell_control_prefixes") simp_all
qed simp_all

lemma skip_operands_size: "text_size (skip_operands w ts) \<le> text_size ts"
  using skip_operands_suffix [of ts w] by (metis text_size_simps(3) le_add2)

lemma unwrap_size: "text_size (fst (unwrap ts w)) \<le> text_size ts"
proof (induction ts w rule: unwrap.induct)
  case (2 t ts w)
  then show ?case using skip_operands_size [of "basename t" ts] by auto
qed simp

lemma shell_word_size: "basename t \<in> set shell_commands \<Longrightarrow> text_of t \<noteq> []"
  by (auto simp: basename_def shell_commands_def)

text \<open>A shell's words are assessed as commands in turn.\<close>

function assess_segment :: "risk_context \<Rightarrow> token list \<Rightarrow> risk_finding list" where
  "assess_segment ctx tokens =
     (case unwrap (strip_control tokens) None of
        ([], wrapped_by) \<Rightarrow> (case wrapped_by of None \<Rightarrow> [] | Some w \<Rightarrow> [hidden_payload w])
      | (t # ts, _) \<Rightarrow>
          (if basename t \<in> set shell_commands
           then concat (map (\<lambda>u. concat (map (assess_segment ctx) (split_segments (text_of u))))
                  (filter (\<lambda>u. \<not> is_flag u) ts))
           else assess_program ctx (t # ts)))"
  by pat_completeness auto
termination
proof (relation "measure (\<lambda>(ctx, ts). text_size ts)", goal_cases)
  case (2 ctx tokens rest w t ts u seg)
  have "text_size (t # ts) \<le> text_size tokens"
    using unwrap_size [of "strip_control tokens" None] strip_control_size [of tokens] 2(1,2)
    by (metis fst_conv order_trans)
  moreover have "text_of t \<noteq> []" using 2 shell_word_size by blast
  moreover have "text_size seg \<le> length (text_of u)" using 2 split_segments_size by blast
  moreover have "length (text_of u) \<le> text_size ts" using 2 by (intro text_size_member) simp
  ultimately show ?case by (cases "text_of t") auto
qed simp

declare assess_segment.simps [simp del]

section \<open>The assessment\<close>

record risk_assessment =
  assessed_level :: risk_level
  findings :: "risk_finding list"

definition from_findings :: "risk_finding list \<Rightarrow> risk_assessment" where
  "from_findings fs = \<lparr>assessed_level = fold max (map finding_level fs) Safe, findings = fs\<rparr>"

definition command_findings :: "string \<Rightarrow> risk_context \<Rightarrow> risk_finding list" where
  "command_findings command ctx = concat (map (assess_segment ctx) (split_segments command))"

definition safe_assessment :: risk_assessment where
  "safe_assessment = \<lparr>assessed_level = Safe, findings = []\<rparr>"

definition assess :: "string \<Rightarrow> risk_context \<Rightarrow> risk_assessment" where
  "assess command ctx =
     (let fs = command_findings command ctx
      in if fs = [] then safe_assessment else from_findings fs)"

definition explanation :: "risk_assessment \<Rightarrow> string" where
  "explanation a =
     concat (map (\<lambda>f. ''- '' @ justification f @
       (case target f of None \<Rightarrow> [] | Some t \<Rightarrow> '' (target: '' @ t @ '')'') @ nl) (findings a))"

definition description :: "risk_finding \<Rightarrow> string" where
  "description f =
     (case target f of
        Some t \<Rightarrow> justification f @ '' (target: '' @ t @ '')''
      | None \<Rightarrow> justification f)"

text \<open>The context of a process, whose home directory is the variable \<open>HOME\<close>.\<close>

definition dirs_home :: "string option \<Rightarrow> string option" where
  "dirs_home home_var = (case home_var of None \<Rightarrow> None | Some h \<Rightarrow> (if h \<noteq> [] then Some h else None))"

definition from_env :: "string option \<Rightarrow> string option \<Rightarrow> risk_context" where
  "from_env home_var cwd = \<lparr>working_dir = cwd, home_dir = dirs_home home_var\<rparr>"

section \<open>The gate\<close>

datatype gate_outcome = Allow | Reflect string | Deny string

definition min_justification_len :: nat where
  "min_justification_len = 25"

definition empty_affirmations :: "string list" where
  "empty_affirmations =
     [''yes'', ''ok'', ''okay'', ''sure'', ''confirmed'', ''proceed'', ''do it'', ''continue'',
      ''y'', ''approved'', ''go ahead'']"

text \<open>
  \<open>str::to_lowercase\<close> of the text is compared with ASCII words only, and the only
  characters outside ASCII whose lower case is in ASCII is the Kelvin sign.
\<close>

fun lower_ascii :: "string \<Rightarrow> string" where
  "lower_ascii [] = []"
| "lower_ascii (c # cs) =
     (case strip_prefix [CHR 0xE2, CHR 0x84, CHR 0xAA] (c # cs) of
        Some _ \<Rightarrow> CHR ''k'' # lower_ascii (drop 2 cs)
      | None \<Rightarrow> to_lower c # lower_ascii cs)"

definition trim_end_marks :: "string \<Rightarrow> string" where
  "trim_end_marks s =
     rev (dropWhile (\<lambda>c. c = CHR ''.'' \<or> c = CHR ''!'' \<or> c = CHR ''?'') (rev s))"

definition is_substantive :: "string option \<Rightarrow> bool" where
  "is_substantive text =
     (case text of
        None \<Rightarrow> False
      | Some s \<Rightarrow>
          length (trim s) \<ge> min_justification_len \<and>
          trim (trim_end_marks (lower_ascii (trim s))) \<notin> set empty_affirmations)"

definition reflection_prompt :: "risk_assessment \<Rightarrow> string" where
  "reflection_prompt a =
     ''This command was not run. It is irreversible:'' @ nl @ nl @ explanation a @ nl @
     ''Before it can proceed, stop and check it against the user'' @ [squote] @ ''s actual request:'' @ nl @
     ''- Which specific thing the user asked for requires deleting this?'' @ nl @
     ''- Did the user name this path, or did you infer it?'' @ nl @
     ''- If you inferred it, is a narrower target enough?'' @ nl @
     ''- If this is wrong, nothing here can be recovered.'' @ nl @ nl @
     ''If it is genuinely what the user asked for, re-issue the same call '' @
     ''with a `justification` field explaining which request it serves. If '' @
     ''you are not sure, ask the user instead: that costs one message, and '' @
     ''being wrong costs their data.''"

definition deny_reason :: "risk_assessment \<Rightarrow> string" where
  "deny_reason a =
     ''This command is blocked and cannot be confirmed.'' @ nl @ nl @ explanation a @ nl @
     ''If the user genuinely wants this, they must run it themselves outside the agent.''"

definition gate :: "risk_assessment \<Rightarrow> string option \<Rightarrow> gate_outcome" where
  "gate a text =
     (case assessed_level a of
        Safe \<Rightarrow> Allow
      | Low \<Rightarrow> Allow
      | Medium \<Rightarrow> (if is_substantive text then Allow else Reflect (reflection_prompt a))
      | High \<Rightarrow> (if is_substantive text then Allow else Reflect (reflection_prompt a))
      | Critical \<Rightarrow> Deny (deny_reason a))"

end
