(* ===== verification/Risk_Paths_Facts.thy ===== *)
theory Risk_Paths_Facts
  imports Risk_Paths "HOL-Library.Sublist"
begin

text \<open>
  What normalization computes: the absolute path of the names a reference reads off the
  text from the right, a \<open>..\<close> cancelling the next name to its left. The protected paths
  are then sets of lists of names.
\<close>

section \<open>Pieces\<close>

lemma pieces_acc_append:
  "pieces_acc acc (a @ CHR ''/'' # b) = pieces_acc acc a @ pieces_acc [] b"
  by (induction acc a rule: pieces_acc.induct) auto

lemma pieces_acc_name: "CHR ''/'' \<notin> set s \<Longrightarrow> pieces_acc acc s = [rev acc @ s]"
  by (induction acc s rule: pieces_acc.induct) auto

lemma pieces_append: "pieces (a @ CHR ''/'' # b) = pieces a @ pieces b"
  by (simp add: pieces_def pieces_acc_append)

lemma pieces_name: "CHR ''/'' \<notin> set s \<Longrightarrow> pieces s = [s]"
  by (simp add: pieces_def pieces_acc_name)

lemma pieces_acc_no_slash: "s \<in> set (pieces_acc acc cs) \<Longrightarrow> CHR ''/'' \<notin> set acc \<Longrightarrow> CHR ''/'' \<notin> set s"
  by (induction acc cs rule: pieces_acc.induct) (auto split: if_splits)

lemma pieces_no_slash: "s \<in> set (pieces cs) \<Longrightarrow> CHR ''/'' \<notin> set s"
  by (auto simp: pieces_def dest: pieces_acc_no_slash)

section \<open>Absolute paths of names\<close>

definition path_name :: "string \<Rightarrow> bool" where
  "path_name s \<longleftrightarrow> s \<noteq> [] \<and> s \<noteq> ''.'' \<and> s \<noteq> ''..'' \<and> CHR ''/'' \<notin> set s"

definition absolute_text :: "string list \<Rightarrow> string" where
  "absolute_text ns = ''/'' @ join ''/'' ns"

lemma join_snoc: "join sep (xs @ [y]) = (if xs = [] then y else join sep xs @ sep @ y)"
  by (induction sep xs rule: join.induct) (auto simp: neq_Nil_conv)

lemma join_append: "xs \<noteq> [] \<Longrightarrow> ys \<noteq> [] \<Longrightarrow> join sep (xs @ ys) = join sep xs @ sep @ join sep ys"
  by (induction sep xs rule: join.induct) (auto simp: neq_Nil_conv)

lemma pieces_join: "\<forall>n \<in> set ns. path_name n \<Longrightarrow> ns \<noteq> [] \<Longrightarrow> pieces (join ''/'' ns) = ns"
proof (induction "''/''" ns rule: join.induct)
  case (3 x y xs)
  then have "pieces (x @ CHR ''/'' # join ''/'' (y # xs)) = pieces x @ (y # xs)"
    by (simp only: pieces_append) simp
  with 3 show ?case by (simp add: pieces_name path_name_def)
qed (auto simp: pieces_name path_name_def)

lemma component_of_name [simp]: "path_name n \<Longrightarrow> component_of n = [Normal n]"
  by (simp add: component_of_def path_name_def)

lemma absolute_is_absolute [simp]: "is_absolute (absolute_text ns)"
  by (simp add: is_absolute_def absolute_text_def starts_with_def)

lemma components_of_names:
  "\<forall>n \<in> set ns. path_name n \<Longrightarrow> concat (map component_of ns) = map Normal ns"
  by (induction ns) auto

lemma pieces_absolute_text:
  assumes "\<forall>n \<in> set ns. path_name n"
  shows "pieces (absolute_text ns) = [] # (if ns = [] then [[]] else ns)"
proof -
  have "pieces (absolute_text ns) = pieces ([] @ CHR ''/'' # join ''/'' ns)"
    by (simp add: absolute_text_def)
  also have "\<dots> = [] # pieces (join ''/'' ns)"
    unfolding pieces_append by (simp add: pieces_def)
  finally show ?thesis
    using assms by (auto simp: pieces_join) (simp add: pieces_def)
qed

lemma components_absolute_text [simp]:
  "\<forall>n \<in> set ns. path_name n \<Longrightarrow> components (absolute_text ns) = RootDir # map Normal ns"
  by (auto simp: components_def pieces_absolute_text components_of_names) (simp_all add: component_of_def)

lemma absolute_text_inj:
  "\<forall>n \<in> set ms. path_name n \<Longrightarrow> \<forall>n \<in> set ns. path_name n \<Longrightarrow>
   path_eq (absolute_text ms) (absolute_text ns) \<longleftrightarrow> ms = ns"
  by (simp add: path_eq_def) (metis inj_map_eq_map inj_def path_component.inject)

lemma absolute_text_starts_with:
  assumes "\<forall>n \<in> set ms. path_name n" "\<forall>n \<in> set ns. path_name n"
  shows "path_starts_with (absolute_text ms) (absolute_text ns) \<longleftrightarrow> prefix ns ms"
proof -
  have "path_starts_with (absolute_text ms) (absolute_text ns) \<longleftrightarrow> take (length ns) ms = ns"
    using assms by (simp add: path_starts_with_def take_map) (metis inj_map_eq_map inj_def path_component.inject)
  then show ?thesis by (metis append_take_drop_id append_eq_conv_conj prefix_def)
qed

lemma last_absolute_text:
  assumes "\<forall>n \<in> set ns. path_name n" "ns \<noteq> []"
  shows "last (absolute_text ns) \<noteq> CHR ''/''" and "join ''/'' ns \<noteq> []"
proof -
  obtain ms n where ns: "ns = ms @ [n]" using assms(2) by (metis rev_exhaust)
  with assms have n: "n \<noteq> []" "CHR ''/'' \<notin> set n" by (simp_all add: path_name_def)
  then have "last n \<noteq> CHR ''/''" by (metis last_in_set)
  moreover obtain pre where "join ''/'' ns = pre @ n"
    by (cases "ms = []") (auto simp: ns join_snoc intro: that)
  ultimately show "last (absolute_text ns) \<noteq> CHR ''/''" and "join ''/'' ns \<noteq> []"
    using n(1) by (simp_all add: absolute_text_def)
qed

lemma join_not_absolute:
  assumes "\<forall>n \<in> set ns. path_name n" "ns \<noteq> []"
  shows "\<not> is_absolute (join ''/'' ns)"
proof -
  obtain n ms where ns: "ns = n # ms" using assms(2) by (cases ns) auto
  with assms obtain c cs where n: "n = c # cs" "c \<noteq> CHR ''/''"
    by (cases n) (auto simp: path_name_def)
  have "join ''/'' ns = c # (cs @ (if ms = [] then [] else ''/'' @ join ''/'' ms))"
    by (cases ms) (simp_all add: ns n)
  then show ?thesis using n by (simp add: is_absolute_def starts_with_def)
qed

lemma path_push_absolute_text:
  assumes "\<forall>n \<in> set ns. path_name n" "\<forall>n \<in> set ms. path_name n" "ms \<noteq> []"
  shows "path_push (absolute_text ns) (join ''/'' ms) = absolute_text (ns @ ms)"
proof (cases "ns = []")
  case True
  then show ?thesis using join_not_absolute [OF assms(2,3)] by (simp add: path_push_def absolute_text_def)
next
  case False
  then show ?thesis
    using join_not_absolute [OF assms(2,3)] last_absolute_text [OF assms(1)] assms(3)
    by (simp add: path_push_def) (simp add: absolute_text_def join_append)
qed

lemma path_push_name:
  "\<forall>n \<in> set ns. path_name n \<Longrightarrow> path_name n \<Longrightarrow> path_push (absolute_text ns) n = absolute_text (ns @ [n])"
  using path_push_absolute_text [of ns "[n]"] by simp

lemma render_absolute: "\<forall>n \<in> set ns. path_name n \<Longrightarrow> render (RootDir # map Normal ns) = absolute_text ns"
proof (induction ns rule: rev_induct)
  case Nil
  show ?case by (simp add: render_def path_push_def absolute_text_def is_absolute_def starts_with_def)
next
  case (snoc n ns)
  then have "render (RootDir # map Normal ns) = absolute_text ns" by simp
  with snoc.prems show ?case by (simp add: render_def path_push_name)
qed

lemma parent_absolute_text:
  assumes "\<forall>n \<in> set ns. path_name n"
  shows "parent (absolute_text ns) = (if ns = [] then None else Some (absolute_text (butlast ns)))"
proof -
  have "\<forall>n \<in> set (butlast ns). path_name n" using assms by (meson in_set_butlastD)
  then show ?thesis
    using assms by (auto simp: parent_def last_map render_absolute map_butlast [symmetric])
qed

section \<open>Reading from the right\<close>

fun climb :: "nat \<Rightarrow> string list \<Rightarrow> string list" where
  "climb k [] = []"
| "climb k (s # ss) =
     (if s = [] \<or> s = ''.'' then climb k ss
      else if s = ''..'' then climb (Suc k) ss
      else (case k of 0 \<Rightarrow> s # climb 0 ss | Suc j \<Rightarrow> climb j ss))"

definition resolve :: "string \<Rightarrow> string list" where
  "resolve p = rev (climb 0 (rev (pieces p)))"

lemma climb_drop: "climb k ss = drop k (climb 0 ss)"
proof (induction ss arbitrary: k)
  case (Cons s ss)
  show ?case
    using Cons [of k] Cons [of "Suc k"] Cons [of 1] Cons [of "k - 1"]
    by (auto simp: drop_Suc drop_tl split: nat.split)
qed simp

lemma climb_names: "s \<in> set (climb k ss) \<Longrightarrow> s \<in> set ss \<and> s \<noteq> [] \<and> s \<noteq> ''.'' \<and> s \<noteq> ''..''"
  by (induction k ss rule: climb.induct) (auto split: if_splits nat.splits)

lemma resolve_names: "\<forall>n \<in> set (resolve p). path_name n"
proof
  fix n
  assume "n \<in> set (resolve p)"
  then have n: "n \<in> set (pieces p)" "n \<noteq> []" "n \<noteq> ''.''" "n \<noteq> ''..''"
    using climb_names [of n 0 "rev (pieces p)"] by (auto simp: resolve_def)
  from n(2-) pieces_no_slash [OF n(1)] show "path_name n" by (simp add: path_name_def)
qed

lemma normalize_pieces:
  assumes "\<forall>s \<in> set ps. CHR ''/'' \<notin> set s"
  shows "foldl normalize_step (absolute_text []) (concat (map component_of ps)) =
    absolute_text (rev (climb 0 (rev ps)))"
  using assms
proof (induction ps rule: rev_induct)
  case (snoc s ps)
  let ?ns = "rev (climb 0 (rev ps))"
  have names: "\<forall>n \<in> set ?ns. path_name n"
    using climb_names [of _ 0 "rev ps"] snoc.prems by (auto simp: path_name_def)
  have "foldl normalize_step (absolute_text []) (concat (map component_of (ps @ [s]))) =
      foldl normalize_step (absolute_text ?ns) (component_of s)"
    using snoc by simp
  also have "\<dots> = absolute_text (rev (climb 0 (rev (ps @ [s]))))"
  proof (cases "path_name s")
    case True
    then show ?thesis
      using names by (simp add: normalize_step_def path_push_name) (simp add: path_name_def)
  next
    case False
    with snoc.prems consider "s = [] \<or> s = ''.''" | "s = ''..''"
      by (auto simp: path_name_def)
    then show ?thesis
    proof cases
      case 2
      have up: "climb 0 (rev (ps @ [s])) = tl (climb 0 (rev ps))"
        using climb_drop [of 1 "rev ps"] 2 by (simp add: drop_Suc)
      have "normalize_step (absolute_text ?ns) ParentDir = absolute_text (butlast ?ns)"
        using names by (simp add: normalize_step_def parent_absolute_text)
      then show ?thesis unfolding up using 2 by (simp add: component_of_def butlast_rev)
    qed (auto simp: component_of_def)
  qed
  finally show ?case .
qed simp

lemma normalize_resolve:
  assumes "is_absolute p"
  shows "normalize p = absolute_text (resolve p)"
proof -
  have "normalize_step [] RootDir = absolute_text []"
    by (simp add: normalize_step_def path_push_def is_absolute_def absolute_text_def starts_with_def)
  then have "foldl normalize_step [] (components p) = absolute_text (resolve p)"
    using assms normalize_pieces [of "pieces p"] pieces_no_slash
    by (simp add: components_def resolve_def)
  then show ?thesis by (simp add: normalize_def absolute_text_def)
qed

lemma resolve_absolute_text: "\<forall>n \<in> set ns. path_name n \<Longrightarrow> resolve (absolute_text ns) = ns"
proof -
  assume names: "\<forall>n \<in> set ns. path_name n"
  have "climb 0 (ss @ [[]]) = ss" if "\<forall>n \<in> set ss. path_name n" for ss
    using that by (induction ss) (auto simp: path_name_def)
  from this [of "rev ns"] names show ?thesis
    by (auto simp: resolve_def pieces_absolute_text)
qed

lemma normalize_idem: "is_absolute p \<Longrightarrow> normalize (normalize p) = normalize p"
  by (simp add: normalize_resolve resolve_absolute_text resolve_names)

section \<open>The protected paths as names\<close>

definition protected_roots :: "string list" where
  "protected_roots =
     [''bin'', ''boot'', ''dev'', ''etc'', ''lib'', ''lib64'', ''opt'', ''proc'', ''root'', ''sbin'',
      ''srv'', ''sys'', ''usr'', ''var'', ''Applications'', ''System'', ''Library'', ''Users'', ''home'']"

definition protected_trees :: "string list list" where
  "protected_trees =
     [[''bin''], [''boot''], [''dev''], [''etc''], [''lib''], [''lib64''], [''proc''], [''sbin''],
      [''sys''], [''usr''], [''var'', ''lib''], [''System''], [''Library'']]"

definition home_directories :: "string list list" where
  "home_directories =
     [[''.config''], [''.next-code''], [''.claude''], [''.local''], [''.local'', ''share''],
      [''Documents''], [''Desktop'']]"

definition protected_names :: "string list \<Rightarrow> string list option \<Rightarrow> bool" where
  "protected_names ns home \<longleftrightarrow>
     ns = [] \<or> (\<exists>n \<in> set protected_roots. ns = [n]) \<or> (\<exists>q \<in> set protected_trees. prefix q ns) \<or>
     (case home of
        None \<Rightarrow> False
      | Some hs \<Rightarrow>
          ns = hs \<or> (\<exists>s \<in> set protected_credential_subpaths. prefix (hs @ [s]) ns) \<or>
          (\<exists>d \<in> set home_directories. ns = hs @ d))"

lemma system_paths_text:
  "protected_system_paths = map absolute_text ([] # map (\<lambda>n. [n]) protected_roots)"
  "system_paths_protected_recursively = map absolute_text protected_trees"
  "protected_home_subpaths = map (join ''/'') home_directories"
  by (simp_all add: protected_system_paths_def protected_roots_def absolute_text_def
      system_paths_protected_recursively_def protected_trees_def protected_home_subpaths_def
      home_directories_def)

lemma protected_are_names:
  "\<forall>n \<in> set protected_roots. path_name n" "\<forall>q \<in> set protected_trees. \<forall>n \<in> set q. path_name n"
  "\<forall>n \<in> set protected_credential_subpaths. path_name n"
  "\<forall>d \<in> set home_directories. d \<noteq> [] \<and> (\<forall>n \<in> set d. path_name n)"
  by (simp_all add: protected_roots_def protected_trees_def protected_credential_subpaths_def
      home_directories_def path_name_def)

lemma list_ex_cong_set: "(\<And>x. x \<in> set xs \<Longrightarrow> P x = Q x) \<Longrightarrow> list_ex P xs = (\<exists>x \<in> set xs. Q x)"
  by (auto simp: list_ex_iff)

lemma catastrophic_names:
  assumes names: "\<forall>n \<in> set ns. path_name n" and home: "\<And>h. home_dir ctx = Some h \<Longrightarrow> is_absolute h"
  shows "is_catastrophic_target (absolute_text ns) ctx \<longleftrightarrow> protected_names ns (map_option resolve (home_dir ctx))"
proof -
  have norm: "normalize (absolute_text ns) = absolute_text ns"
    using names by (simp add: normalize_resolve resolve_absolute_text)
  have roots: "list_ex (path_eq (absolute_text ns)) protected_system_paths \<longleftrightarrow>
      ns = [] \<or> (\<exists>n \<in> set protected_roots. ns = [n])"
    using names protected_are_names(1)
    by (auto simp: list_ex_iff system_paths_text absolute_text_inj)
  have trees: "list_ex (path_starts_with (absolute_text ns)) system_paths_protected_recursively \<longleftrightarrow>
      (\<exists>q \<in> set protected_trees. prefix q ns)"
    using names protected_are_names(2)
    by (auto simp: list_ex_iff system_paths_text absolute_text_starts_with)
  show ?thesis
  proof (cases "home_dir ctx")
    case None
    then show ?thesis by (simp add: is_catastrophic_target_def protected_names_def norm roots trees)
  next
    case (Some h)
    let ?hs = "resolve h"
    have h: "normalize h = absolute_text ?hs" using home [OF Some] by (rule normalize_resolve)
    have credentials: "list_ex (\<lambda>sub. path_starts_with (absolute_text ns) (path_push (absolute_text ?hs) sub))
        protected_credential_subpaths \<longleftrightarrow>
        (\<exists>s \<in> set protected_credential_subpaths. prefix (?hs @ [s]) ns)"
    proof (rule list_ex_cong_set)
      fix s assume "s \<in> set protected_credential_subpaths"
      then have "path_name s" using protected_are_names(3) by blast
      then show "path_starts_with (absolute_text ns) (path_push (absolute_text ?hs) s) = prefix (?hs @ [s]) ns"
        using names by (simp add: path_push_name resolve_names absolute_text_starts_with)
    qed
    have directories: "list_ex (\<lambda>sub. path_eq (absolute_text ns) (path_push (absolute_text ?hs) sub))
        protected_home_subpaths \<longleftrightarrow> (\<exists>d \<in> set home_directories. ns = ?hs @ d)"
    proof -
      have "path_eq (absolute_text ns) (path_push (absolute_text ?hs) (join ''/'' d)) = (ns = ?hs @ d)"
        if "d \<in> set home_directories" for d
      proof -
        have "d \<noteq> []" "\<forall>n \<in> set d. path_name n" using protected_are_names(4) that by blast+
        then show ?thesis
          using names by (auto simp: path_push_absolute_text resolve_names absolute_text_inj ball_Un)
      qed
      then show ?thesis by (auto simp: list_ex_iff system_paths_text(3))
    qed
    show ?thesis
      using names
      by (simp add: is_catastrophic_target_def protected_names_def norm roots trees Some h credentials
          directories absolute_text_inj resolve_names)
  qed
qed

lemma catastrophic_resolve:
  assumes "is_absolute p" and "\<And>h. home_dir ctx = Some h \<Longrightarrow> is_absolute h"
  shows "is_catastrophic_target p ctx \<longleftrightarrow> protected_names (resolve p) (map_option resolve (home_dir ctx))"
proof -
  have "is_catastrophic_target p ctx \<longleftrightarrow> is_catastrophic_target (absolute_text (resolve p)) ctx"
    using assms(1) by (simp add: is_catastrophic_target_def normalize_idem flip: normalize_resolve)
  then show ?thesis using catastrophic_names [OF resolve_names, of ctx] assms(2) by blast
qed

end
