(* ===== verification/Risk_Facts.thy ===== *)
theory Risk_Facts
  imports Risk_Assess Risk_Paths_Facts
begin

text \<open>
  How a command line is scanned piece by piece, what a chain of commands is assessed to,
  and which commands a segment runs under its wrappers and shells.
\<close>

section \<open>Scanning a closed piece\<close>

text \<open>
  \<open>scan c l\<close> is the state of the lexer after \<open>c\<close>, when \<open>c\<close> is closed: no quote is
  open at its end and no character at its end waits for the next one.
\<close>

lemma quoted_rest_length:
  "snd (single_quoted cs) = Some rest \<Longrightarrow> length rest \<le> length cs"
  "snd (double_quoted cs) = Some rest \<Longrightarrow> length rest \<le> length cs"
  using single_quoted_length [of cs] double_quoted_length [of cs] by simp_all

function scan :: "string \<Rightarrow> lexer \<Rightarrow> lexer option" where
  "scan [] l = Some l"
| "scan (c # cs) l =
     (if c = squote then
        (case snd (single_quoted cs) of
           None \<Rightarrow> None | Some rest \<Rightarrow> scan rest (add_text (fst (single_quoted cs)) l))
      else if c = dquote then
        (case snd (double_quoted cs) of
           None \<Rightarrow> None | Some rest \<Rightarrow> scan rest (add_text (fst (double_quoted cs)) l))
      else if c = bslash then
        (case cs of [] \<Rightarrow> None | d # ds \<Rightarrow> scan ds (add_text [d] l))
      else if c = CHR '' '' \<or> c = CHR 0x09 then scan cs (flush l)
      else if c = CHR 0x0A \<or> c = CHR '';'' then scan cs (add_operator [c] l)
      else if c = CHR ''&'' \<or> c = CHR ''|'' then
        (if cs = [] then None
         else if hd cs = c then scan (tl cs) (add_operator [c, c] l)
         else scan cs (add_operator [c] l))
      else if c = CHR ''('' \<or> c = CHR '')'' then scan cs (add_operator [c] l)
      else if c = CHR ''>'' then
        (if cs = [] then None
         else if hd cs = CHR ''>'' then scan (tl cs) (flush l)
         else if hd cs = CHR ''|'' then scan (tl cs) (await_redirect l)
         else scan cs (await_redirect l))
      else if c = CHR ''<'' then scan cs (flush l)
      else scan cs (add_text [c] l))"
  by pat_completeness auto
termination
  by (relation "measure (\<lambda>(cs, l). length cs)")
    (auto simp: less_Suc_eq_le dest: quoted_rest_length)

declare scan.simps(2) [simp del]

lemma single_quoted_append:
  "single_quoted cs = (q, Some rest) \<Longrightarrow> single_quoted (cs @ e) = (q, Some (rest @ e))"
  by (induction cs arbitrary: q) (auto simp: Let_def split: if_splits prod.splits)

lemma double_quoted_append:
  "double_quoted cs = (q, Some rest) \<Longrightarrow> double_quoted (cs @ e) = (q, Some (rest @ e))"
proof (induction cs arbitrary: q rule: double_quoted.induct)
  case (2 c)
  then show ?case by (cases e) (auto split: if_splits)
next
  case (3 c d cs)
  then show ?case by (auto simp: Let_def split: if_splits prod.splits)
qed simp

lemma scan_if:
  "(if b then x else y) = Some k \<Longrightarrow> (b \<Longrightarrow> x = Some k \<Longrightarrow> u = w) \<Longrightarrow>
   (\<not> b \<Longrightarrow> y = Some k \<Longrightarrow> v = w) \<Longrightarrow> (if b then u else v) = w"
  by (cases b) simp_all

lemma cons_conds:
  "(x # xs = []) = False" "(if False then a else b) = b" "(\<not> False \<and> P) = P"
  by simp_all

lemma scan_lex: "scan c l = Some k \<Longrightarrow> lex (c @ e) l = lex e k"
proof (induction "length c" arbitrary: c l rule: less_induct)
  case less
  show ?case
  proof (cases c)
    case Nil
    with less.prems show ?thesis by simp
  next
    case (Cons d ds)
    have IH: "lex (es @ e) m = lex e k" if "scan es m = Some k" "length es \<le> length ds" for es m
      using less.hyps [of es m] that Cons by simp
    note prem = less.prems [unfolded Cons scan.simps(2)]
    consider "d = squote" | "d = dquote" "d \<noteq> squote" | "d = bslash" "d \<noteq> squote" "d \<noteq> dquote"
      | "d \<noteq> squote" "d \<noteq> dquote" "d \<noteq> bslash"
      by blast
    then show ?thesis
    proof cases
      case 1
      with prem obtain q rest where q: "single_quoted ds = (q, Some rest)" "scan rest (add_text q l) = Some k"
        by (cases "single_quoted ds") (auto split: option.splits)
      then have "lex (rest @ e) (add_text q l) = lex e k" by (intro IH) (simp_all add: quoted_rest_length)
      with 1 Cons show ?thesis by (simp add: lex.simps(2) single_quoted_append [OF q(1)])
    next
      case 2
      with prem obtain q rest where q: "double_quoted ds = (q, Some rest)" "scan rest (add_text q l) = Some k"
        by (cases "double_quoted ds") (auto split: option.splits)
      then have "lex (rest @ e) (add_text q l) = lex e k" by (intro IH) (simp_all add: quoted_rest_length)
      with 2 Cons show ?thesis by (simp add: lex.simps(2) double_quoted_append [OF q(1)])
    next
      case 3
      with prem obtain b bs where b: "ds = b # bs" "scan bs (add_text [b] l) = Some k"
        by (auto split: list.splits)
      then have "lex (bs @ e) (add_text [b] l) = lex e k" by (intro IH) simp_all
      with 3 Cons b show ?thesis by (simp add: lex.simps(2))
    next
      case 4
      note plain = prem [unfolded if_not_P [OF 4(1)] if_not_P [OF 4(2)] if_not_P [OF 4(3)]]
      show ?thesis
      proof (cases ds)
        case Nil
        show ?thesis
          unfolding Cons Nil append_Cons lex.simps(2) if_not_P [OF 4(1)] if_not_P [OF 4(2)] if_not_P [OF 4(3)]
          using plain unfolding Nil by (elim scan_if) simp_all
      next
        case (Cons b bs)
        show ?thesis
          unfolding \<open>c = d # ds\<close> Cons append_Cons lex.simps(2) [of d "b # bs @ e"]
            if_not_P [OF 4(1)] if_not_P [OF 4(2)] if_not_P [OF 4(3)] list.sel cons_conds
          using plain unfolding Cons list.sel cons_conds
          by (elim scan_if) ((rule IH [of "b # bs", unfolded append_Cons] | rule IH [of bs]), assumption, simp add: Cons)+
      qed
    qed
  qed
qed
section \<open>Chains of commands\<close>

text \<open>What the lexer does does not depend on the tokens it has.\<close>

definition prepend :: "token list \<Rightarrow> lexer \<Rightarrow> lexer" where
  "prepend ts l = l\<lparr>lx_tokens := ts @ lx_tokens l\<rparr>"

lemma prepend_steps:
  "flush (prepend ts l) = prepend ts (flush l)"
  "add_text s (prepend ts l) = prepend ts (add_text s l)"
  "add_operator s (prepend ts l) = prepend ts (add_operator s l)"
  "await_redirect (prepend ts l) = prepend ts (await_redirect l)"
  by (simp_all add: prepend_def flush_def add_text_def add_operator_def await_redirect_def Let_def)

lemma lex_prepend: "lex c (prepend ts l) = prepend ts (lex c l)"
proof (induction "length c" arbitrary: c l rule: less_induct)
  case less
  show ?case
  proof (cases c)
    case Nil
    then show ?thesis by (simp add: prepend_steps)
  next
    case (Cons d ds)
    have IH: "lex es (prepend ts m) = prepend ts (lex es m)" if "length es \<le> length ds" for es m
      using less.hyps [of es m] that Cons by simp
    have quotes: "lex (unwrap_or (snd (single_quoted ds)) []) (prepend ts m) =
        prepend ts (lex (unwrap_or (snd (single_quoted ds)) []) m)"
      "lex (unwrap_or (snd (double_quoted ds)) []) (prepend ts m) =
        prepend ts (lex (unwrap_or (snd (double_quoted ds)) []) m)" for m
      using IH single_quoted_length double_quoted_length by blast+
    have more: "lex ds (prepend ts m) = prepend ts (lex ds m)" "lex (tl ds) (prepend ts m) = prepend ts (lex (tl ds) m)" for m
      by (simp_all add: IH)
    have escaped: "(case ds of [] \<Rightarrow> lex [] (prepend ts l) | e # es \<Rightarrow> lex es (prepend ts (add_text [e] l))) =
        prepend ts (case ds of [] \<Rightarrow> lex [] l | e # es \<Rightarrow> lex es (add_text [e] l))"
      by (cases ds) (simp_all add: IH prepend_steps)
    show ?thesis
      unfolding Cons lex.simps(2) [of d ds] Let_def prepend_steps quotes more escaped if_distrib [of "prepend ts", symmetric] ..
  qed
qed

definition closed :: "string \<Rightarrow> bool" where
  "closed c \<longleftrightarrow>
     (case scan c lexer_start of None \<Rightarrow> False | Some l \<Rightarrow> has_content l \<or> \<not> pending_redirect l)"

lemma flushed_prefix:
  assumes "has_content l \<or> \<not> pending_redirect l" and "lexer_ok l"
  shows "add_operator s l = prepend (lx_tokens (flush l) @ [operator_token s]) lexer_start"
  using assms by (auto simp: add_operator_def flush_def prepend_def lexer_start_def Let_def lexer_ok_def)

lemma some_if:
  "(if b then x else y) = Some k \<Longrightarrow> (b \<Longrightarrow> x = Some k \<Longrightarrow> P) \<Longrightarrow> (\<not> b \<Longrightarrow> y = Some k \<Longrightarrow> P) \<Longrightarrow> P"
  by (cases b) simp_all

lemma scan_ok: "scan c l = Some k \<Longrightarrow> lexer_ok l \<Longrightarrow> lexer_ok k"
proof (induction "length c" arbitrary: c l rule: less_induct)
  case less
  show ?case
  proof (cases c)
    case Nil
    with less.prems show ?thesis by simp
  next
    case (Cons d ds)
    have IH: "lexer_ok k" if "scan es m = Some k" "lexer_ok m" "length es \<le> length ds" for es m
      using less.hyps [of es m] that Cons by simp
    have quotes: "lexer_ok k" if "(case q of None \<Rightarrow> None | Some rest \<Rightarrow> scan rest (add_text t l)) = Some k"
      "\<And>rest. q = Some rest \<Longrightarrow> length rest \<le> length ds" for q t
      using that by (cases q) (auto intro: IH)
    have escaped: "lexer_ok k" if "(case ds of [] \<Rightarrow> None | e # es \<Rightarrow> scan es (add_text [e] l)) = Some k"
      using that by (cases ds) (auto intro: IH)
    from less.prems(1) [unfolded Cons scan.simps(2) [of d ds]] show ?thesis
      by (elim some_if)
        ((erule quotes, simp add: quoted_rest_length | erule escaped | drule IH; simp add: less.prems | simp); fail)+
  qed
qed

lemma tokenize_chain:
  assumes "closed c" and "\<And>l. lex (sep @ d) l = lex d (add_operator s l)"
  shows "tokenize (c @ sep @ d) = tokenize c @ operator_token s # tokenize d"
proof -
  obtain l where l: "scan c lexer_start = Some l" "has_content l \<or> \<not> pending_redirect l"
    using assms(1) by (auto simp: closed_def split: option.splits)
  have "lexer_ok l" using scan_ok [OF l(1)] by (simp add: lexer_ok_def lexer_start_def)
  have "tokenize (c @ sep @ d) = lx_tokens (lex d (add_operator s l))"
    using scan_lex [OF l(1), of "sep @ d"] assms(2) by (simp add: tokenize_def)
  also have "\<dots> = lx_tokens (prepend (lx_tokens (flush l) @ [operator_token s]) (lex d lexer_start))"
    using flushed_prefix [OF l(2) \<open>lexer_ok l\<close>] by (simp add: lex_prepend)
  also have "lx_tokens (flush l) = tokenize c"
    using scan_lex [OF l(1), of "[]"] by (simp add: tokenize_def)
  finally show ?thesis by (simp add: prepend_def tokenize_def)
qed

lemma segments_append:
  "is_separator t \<Longrightarrow> segments_of (ts @ t # us) current piped =
     segments_of ts current piped @ segments_of us [] (text_of t = ''|'')"
  by (induction ts current piped rule: segments_of.induct) auto

definition sequencers :: "string list" where
  "sequencers = ['';'', nl, ''&&'', ''||'']"

lemma lex_sequencer: "s \<in> set sequencers \<Longrightarrow> lex (s @ d) l = lex d (add_operator s l)"
  by (auto simp: sequencers_def nl_def lex.simps(2) special_chars)

lemma split_segments_chain:
  assumes "closed c" "s \<in> set sequencers"
  shows "split_segments (c @ s @ d) = split_segments c @ split_segments d"
proof -
  have "is_separator (operator_token s)" "s \<noteq> ''|''"
    using assms(2) by (auto simp: is_separator_def segment_separators_def sequencers_def nl_def)
  then show ?thesis
    using tokenize_chain [OF assms(1) lex_sequencer [OF assms(2)]]
    by (simp add: split_segments_def segments_append)
qed

section \<open>Levels\<close>

lemma fold_max_append: "fold max (xs @ ys) (Safe :: risk_level) = max (fold max xs Safe) (fold max ys Safe)"
proof -
  have pull: "fold max ys l = max l (fold max ys Safe)" for l :: risk_level
  proof (induction ys arbitrary: l)
    case (Cons a ys)
    let ?m = "fold max ys Safe"
    have "fold max (a # ys) l = max (max a l) ?m" by (simp only: fold_simps Cons [of "max a l"])
    also have "\<dots> = max l (max a ?m)" by (simp only: ac_simps)
    also have "max a ?m = fold max (a # ys) Safe"
      using Cons [of "max a Safe"] by (simp only: fold_simps max_absorb1 Safe_bot)
    finally show ?case .
  qed (simp add: max_absorb1)
  show ?thesis unfolding fold_append comp_def by (rule pull)
qed

lemma assessed_level_eq: "assessed_level (assess c ctx) = fold max (map finding_level (command_findings c ctx)) Safe"
  by (simp add: assess_def safe_assessment_def from_findings_def Let_def)

lemma findings_eq [simp]: "findings (assess c ctx) = command_findings c ctx"
  by (simp add: assess_def safe_assessment_def from_findings_def Let_def)

lemma finding_le_level:
  assumes "f \<in> set (command_findings c ctx)"
  shows "finding_level f \<le> assessed_level (assess c ctx)"
proof -
  obtain xs ys where "command_findings c ctx = xs @ f # ys" using split_list [OF assms] by blast
  then have "command_findings c ctx = xs @ [f] @ ys" by simp
  then show ?thesis
    unfolding assessed_level_eq by (simp only: map_append fold_max_append) (simp add: le_max_iff_disj)
qed

lemma level_le:
  assumes "\<And>f. f \<in> set (command_findings c ctx) \<Longrightarrow> finding_level f \<le> l"
  shows "assessed_level (assess c ctx) \<le> l"
proof -
  have bound: "fold max (map finding_level fs) Safe \<le> l" if "\<forall>f \<in> set fs. finding_level f \<le> l" for fs
    using that
  proof (induction fs rule: rev_induct)
    case (snoc f fs)
    then show ?case by simp
  qed simp
  from assms show ?thesis unfolding assessed_level_eq by (intro bound) blast
qed

lemma findings_chain:
  "closed c \<Longrightarrow> s \<in> set sequencers \<Longrightarrow>
   command_findings (c @ s @ d) ctx = command_findings c ctx @ command_findings d ctx"
  by (simp add: command_findings_def split_segments_chain)

lemma level_chain:
  "closed c \<Longrightarrow> s \<in> set sequencers \<Longrightarrow>
   assessed_level (assess (c @ s @ d) ctx) = max (assessed_level (assess c ctx)) (assessed_level (assess d ctx))"
  by (simp only: assessed_level_eq findings_chain map_append fold_max_append)

lemma explanation_descriptions:
  "explanation a = concat (map (\<lambda>f. ''- '' @ description f @ nl) (findings a))"
  by (simp add: explanation_def description_def cong: option.case_cong)
    (rule arg_cong [where f = concat], simp split: option.split)

lemma gate_critical: "assessed_level a = Critical \<Longrightarrow> gate a text = Deny (deny_reason a)"
  by (simp add: gate_def)
section \<open>What a segment runs\<close>

text \<open>
  The commands the classifier finds under a segment: its program as the unwrapper sees it,
  and for a shell the commands of its words. \<open>Risk_Commands\<close> shows that they include what
  a command line starts, described without the unwrapper.
\<close>

inductive runs :: "token list \<Rightarrow> token list \<Rightarrow> bool" where
  program: "unwrap (strip_control seg) None = (p # ts, w) \<Longrightarrow> basename p \<notin> set shell_commands \<Longrightarrow>
    runs seg (p # ts)"
| shell: "unwrap (strip_control seg) None = (p # ts, w) \<Longrightarrow> basename p \<in> set shell_commands \<Longrightarrow>
    u \<in> set ts \<Longrightarrow> \<not> is_flag u \<Longrightarrow> inner \<in> set (split_segments (text_of u)) \<Longrightarrow> runs inner cmd \<Longrightarrow>
    runs seg cmd"

lemma runs_findings:
  "runs seg cmd \<Longrightarrow> f \<in> set (assess_program ctx cmd) \<Longrightarrow> f \<in> set (assess_segment ctx seg)"
proof (induction rule: runs.induct)
  case (program seg p ts w)
  then show ?case by (subst assess_segment.simps) simp
next
  case (shell seg p ts w u inner cmd)
  then have "f \<in> set (assess_segment ctx inner)" by simp
  with shell(1-5) show ?case by (subst assess_segment.simps) auto
qed

lemma runs_command_findings:
  "seg \<in> set (split_segments c) \<Longrightarrow> runs seg cmd \<Longrightarrow> f \<in> set (assess_program ctx cmd) \<Longrightarrow>
   f \<in> set (command_findings c ctx)"
  by (auto simp: command_findings_def dest: runs_findings)

lemma in_map_filter: "t \<in> set ts \<Longrightarrow> g t = Some f \<Longrightarrow> f \<in> set (List.map_filter g ts)"
  by (force simp: List.map_filter_def)

lemma target_found:
  assumes "basename p \<in> set destructive_commands" "t \<in> set ts" "\<not> is_flag t" "\<not> is_operator t"
    and "target_finding (list_ex is_recursive_flag (p # ts)) ctx t = Some f"
  shows "f \<in> set (assess_program ctx (p # ts))"
proof -
  have triggered: "is_triggered (basename p) (p # ts)" using assms(1) by (simp add: is_triggered_def)
  have t: "t \<in> set (targets_of True (p # ts))" using assms(2-4) by (simp add: targets_of_def)
  then have "targets_of True (p # ts) \<noteq> []" by auto
  with triggered in_map_filter [OF t, of "target_finding (list_ex is_recursive_flag (p # ts)) ctx", OF assms(5)]
  show ?thesis by (simp add: assess_program_def Let_def)
qed

section \<open>Quoted words\<close>

definition quote :: "string \<Rightarrow> string" where
  "quote w = squote # w @ [squote]"

lemma single_quoted_word: "squote \<notin> set w \<Longrightarrow> single_quoted (w @ squote # e) = (w, Some e)"
  by (induction w) auto

lemma lex_quote: "squote \<notin> set w \<Longrightarrow> lex (quote w @ e) l = lex e (add_text w l)"
  by (simp add: quote_def lex.simps(2) single_quoted_word)

lemma flush_word: "flush (add_text w lexer_start) = prepend [word_token w] lexer_start"
  by (simp add: flush_def add_text_def lexer_start_def prepend_def word_token_def)

lemma lex_space: "lex (CHR '' '' # e) l = lex e (flush l)"
  by (simp add: lex.simps(2) special_chars)

lemma tokenize_quoted:
  "\<forall>w \<in> set ws. squote \<notin> set w \<Longrightarrow> tokenize (join '' '' (map quote ws)) = map word_token ws"
proof (induction ws)
  case (Cons w ws)
  then have w: "squote \<notin> set w" by simp
  show ?case
  proof (cases ws)
    case Nil
    have "lex (quote w) lexer_start = prepend [word_token w] lexer_start"
      using lex_quote [OF w, of "[]" lexer_start] by (simp add: flush_word)
    with Nil show ?thesis by (simp add: tokenize_def) (simp add: prepend_def lexer_start_def)
  next
    case (Cons v vs)
    then have "join '' '' (map quote (w # ws)) = quote w @ CHR '' '' # join '' '' (map quote ws)" by simp
    then have "tokenize (join '' '' (map quote (w # ws))) =
        lx_tokens (lex (join '' '' (map quote ws)) (prepend [word_token w] lexer_start))"
      unfolding tokenize_def by (simp only: lex_quote [OF w] lex_space flush_word)
    with Cons.IH Cons.prems show ?thesis
      by (simp add: lex_prepend tokenize_def) (simp add: prepend_def)
  qed
qed (simp add: tokenize_def lexer_start_def flush_def)

lemma segments_words:
  "segments_of (map word_token ws) current False =
     (if current = [] \<and> ws = [] then [] else [current @ map word_token ws])"
proof (induction ws arbitrary: current)
  case (Cons w ws)
  have "(word_token w)\<lparr>receives_pipe := False\<rparr> = word_token w" by (simp add: word_token_def)
  with Cons show ?case by (simp add: is_separator_def)
qed simp

lemma split_quoted:
  "\<forall>w \<in> set ws. squote \<notin> set w \<Longrightarrow> ws \<noteq> [] \<Longrightarrow> split_segments (join '' '' (map quote ws)) = [map word_token ws]"
  by (simp add: split_segments_def tokenize_quoted segments_words)

lemma destructive_names:
  assumes "p \<in> set destructive_commands"
  shows "basename (word_token p) = p" "p \<notin> set shell_control_prefixes" "p \<notin> set wrapper_commands"
    "p \<notin> set shell_commands" "\<not> is_flag (word_token p)"
  using assms
  by (auto simp: destructive_commands_def basename_def shell_control_prefixes_def wrapper_commands_def
      shell_commands_def is_flag_def starts_with_def)

lemma assess_destructive:
  assumes "p \<in> set destructive_commands"
  shows "assess_segment ctx (word_token p # ts) = assess_program ctx (word_token p # ts)"
proof -
  have "strip_control (word_token p # ts) = word_token p # ts"
    using destructive_names [OF assms] by (cases ts) simp_all
  then show ?thesis
    using destructive_names [OF assms] by (subst assess_segment.simps) simp
qed

definition word_finding :: "bool \<Rightarrow> risk_context \<Rightarrow> string \<Rightarrow> risk_finding option" where
  "word_finding recursive ctx w = classify_target (expand (operand w) ctx) (operand w) recursive ctx"

definition flag_word :: "string \<Rightarrow> bool" where
  "flag_word w \<longleftrightarrow> is_flag (word_token w)"

lemma assess_words:
  assumes "p \<in> set destructive_commands"
  shows "assess_program ctx (word_token p # map word_token ws) =
    (if list_all flag_word ws then [unknown_target p]
     else List.map_filter (word_finding (list_ex (\<lambda>w. is_recursive_flag (word_token w)) ws) ctx)
       (filter (\<lambda>w. \<not> flag_word w) ws))"
proof -
  note p = destructive_names [OF assms]
  have triggered: "is_triggered p ts" for ts using assms by (simp add: is_triggered_def)
  have redirects: "redirect_targets (word_token p # map word_token ws) = []"
    by (simp add: redirect_targets_def filter_empty_conv)
  have targets: "targets_of True (word_token p # map word_token ws) = map word_token (filter (\<lambda>w. \<not> flag_word w) ws)"
    by (simp add: targets_of_def redirects filter_map comp_def flag_word_def)
  have recursive: "\<not> is_recursive_flag (word_token p)"
    "list_ex is_recursive_flag (map word_token ws) = list_ex (\<lambda>w. is_recursive_flag (word_token w)) ws"
    using p(5) by (simp_all add: is_recursive_flag_def list_ex_iff)
  have empty: "filter (\<lambda>w. \<not> flag_word w) ws = [] \<longleftrightarrow> list_all flag_word ws"
    by (simp add: filter_empty_conv list_all_iff)
  have finding: "target_finding r ctx (word_token w) = word_finding r ctx w" for r w
    by (simp add: target_finding_def word_finding_def Let_def)
  have mapped: "List.map_filter g (map word_token vs) = List.map_filter (\<lambda>w. g (word_token w)) vs"
    for g :: "token \<Rightarrow> risk_finding option" and vs
    by (induction vs) (simp_all add: List.map_filter_simps split: option.split)
  show ?thesis
    by (simp add: assess_program_def Let_def p(1) triggered redirects targets recursive empty mapped finding)
qed

end
