(* ===== verification/Risk_Commands.thy ===== *)
theory Risk_Commands
  imports Risk_Facts
begin

text \<open>
  Command lines from the side of their author, without the tokenizer and the unwrapper:
  how words are written down, what chains, control words, wrappers and shells are put
  around a command, and that the classifier comes to the command again.
\<close>

section \<open>Writing words\<close>

text \<open>
  A word in single quotes, where a quote is written as \<open>'\''\<close>, and a word without special
  characters as it is.
\<close>

fun quoted_body :: "string \<Rightarrow> string" where
  "quoted_body [] = []"
| "quoted_body (c # cs) = (if c = squote then [squote, bslash, squote, squote] else [c]) @ quoted_body cs"

definition shell_quote :: "string \<Rightarrow> string" where
  "shell_quote w = squote # quoted_body w @ [squote]"

definition special :: "char set" where
  "special = {squote, dquote, bslash, CHR '' '', CHR 0x09, CHR 0x0A, CHR '';'', CHR ''&'', CHR ''|'', CHR ''('',
     CHR '')'', CHR ''>'', CHR ''<''}"

inductive written :: "string \<Rightarrow> string \<Rightarrow> bool" where
  in_quotes: "written w (shell_quote w)"
| bare: "w \<noteq> [] \<Longrightarrow> set w \<inter> special = {} \<Longrightarrow> written w w"

lemma add_text_twice [simp]: "add_text b (add_text a l) = add_text (a @ b) l"
  by (simp add: add_text_def)

lemma scan_squote: "single_quoted cs = (q, Some rest) \<Longrightarrow> scan (squote # cs) l = scan rest (add_text q l)"
  by (simp add: scan.simps(2))

lemma scan_escaped: "scan (bslash # d # ds) l = scan ds (add_text [d] l)"
  by (simp add: scan.simps(2) special_chars)

lemma scan_quoted_body:
  "squote \<notin> set u \<Longrightarrow> scan (squote # u @ quoted_body w @ squote # e) l = scan e (add_text (u @ w) l)"
proof (induction w arbitrary: u l)
  case Nil
  then show ?case by (simp add: scan_squote [OF single_quoted_word])
next
  case (Cons c w)
  show ?case
  proof (cases "c = squote")
    case True
    have "scan (squote # u @ quoted_body (c # w) @ squote # e) l
        = scan (bslash # squote # squote # quoted_body w @ squote # e) (add_text u l)"
      using Cons.prems True by (simp add: scan_squote [OF single_quoted_word])
    also have "\<dots> = scan (squote # [] @ quoted_body w @ squote # e) (add_text (u @ [squote]) l)"
      by (simp add: scan_escaped)
    also have "\<dots> = scan e (add_text (u @ c # w) l)"
      by (subst Cons.IH) (simp_all add: True)
    finally show ?thesis .
  next
    case False
    then show ?thesis using Cons.IH [of "u @ [c]" l] Cons.prems by simp
  qed
qed

lemma scan_bare: "set w \<inter> special = {} \<Longrightarrow> w \<noteq> [] \<Longrightarrow> scan (w @ e) l = scan e (add_text w l)"
proof (induction w arbitrary: l)
  case (Cons c w)
  have "scan ((c # w) @ e) l = scan (w @ e) (add_text [c] l)"
  proof -
    have "c \<notin> special" using Cons.prems(1) by simp
    then show ?thesis by (simp add: scan.simps(2) special_def)
  qed
  then show ?case using Cons by (cases w) simp_all
qed simp

lemma scan_written: "written w r \<Longrightarrow> scan (r @ e) l = scan e (add_text w l)"
proof (induction rule: written.induct)
  case (in_quotes w)
  show ?case using scan_quoted_body [of "[]" w e l] by (simp add: shell_quote_def)
next
  case (bare w)
  then show ?case by (intro scan_bare)
qed

section \<open>A line of words\<close>

definition line_of :: "string list \<Rightarrow> string \<Rightarrow> bool" where
  "line_of ws line \<longleftrightarrow> (\<exists>rs. list_all2 written ws rs \<and> line = join '' '' rs)"

lemma line_ofI: "list_all2 written ws rs \<Longrightarrow> line = join '' '' rs \<Longrightarrow> line_of ws line"
  by (auto simp: line_of_def)

lemma flush_more: "flush (add_text w (prepend ts lexer_start)) = prepend (ts @ [word_token w]) lexer_start"
  by (simp add: flush_def add_text_def prepend_def lexer_start_def word_token_def)

lemma scan_words:
  "list_all2 written ws rs \<Longrightarrow> ws \<noteq> [] \<Longrightarrow>
     scan (join '' '' rs) (prepend ts lexer_start)
       = Some (add_text (last ws) (prepend (ts @ map word_token (butlast ws)) lexer_start))"
proof (induction ws rs arbitrary: ts rule: list_all2_induct)
  case (Cons w ws r rs)
  show ?case
  proof (cases rs)
    case Nil
    then have "ws = []" using Cons.hyps by simp
    then show ?thesis using scan_written [OF Cons.hyps(1), of "[]"] Nil by simp
  next
    case (Cons v vs)
    then have ws: "ws \<noteq> []" using Cons.hyps by auto
    have "scan (join '' '' (r # rs)) (prepend ts lexer_start)
        = scan (CHR '' '' # join '' '' rs) (add_text w (prepend ts lexer_start))"
      using scan_written [OF \<open>written w r\<close>] Cons by simp
    also have "\<dots> = scan (join '' '' rs) (prepend (ts @ [word_token w]) lexer_start)"
      by (simp add: scan.simps(2) special_chars flush_more)
    also have "\<dots> = Some (add_text (last ws) (prepend ((ts @ [word_token w]) @ map word_token (butlast ws)) lexer_start))"
      by (rule Cons.IH [OF ws])
    finally show ?thesis using ws by simp
  qed
qed simp

lemma prepend_none: "prepend [] lexer_start = lexer_start"
  by (simp add: prepend_def)

lemma scan_line:
  "line_of ws line \<Longrightarrow> ws \<noteq> [] \<Longrightarrow>
     scan line lexer_start = Some (add_text (last ws) (prepend (map word_token (butlast ws)) lexer_start))"
  unfolding line_of_def using scan_words [of ws _ "[]"] by (auto simp: prepend_none)

lemma closed_line: "line_of ws line \<Longrightarrow> ws \<noteq> [] \<Longrightarrow> closed line"
  by (simp add: closed_def scan_line) (simp add: add_text_def)

lemma split_line:
  assumes "line_of ws line" "ws \<noteq> []"
  shows "split_segments line = [map word_token ws]"
proof -
  have "tokenize line = lx_tokens (flush (add_text (last ws) (prepend (map word_token (butlast ws)) lexer_start)))"
    using scan_lex [OF scan_line [OF assms], of "[]"] by (simp add: tokenize_def)
  also have "\<dots> = map word_token (butlast ws @ [last ws])"
    by (simp only: flush_more) (simp add: prepend_def lexer_start_def)
  finally show ?thesis using assms(2) by (simp add: split_segments_def segments_words)
qed

section \<open>Chains\<close>

text \<open>
  A command line that has a command with the given words: alone, behind control words, or
  before or behind another command in a chain. In front of an operator the line is closed:
  no quote is open there and nothing waits for the next character.
\<close>

inductive says :: "string \<Rightarrow> string list \<Rightarrow> bool" where
  alone: "line_of (ctl @ ws) line \<Longrightarrow> set ctl \<subseteq> set shell_control_prefixes \<Longrightarrow> ws \<noteq> [] \<Longrightarrow> says line ws"
| behind: "says line ws \<Longrightarrow> closed d \<Longrightarrow> s \<in> set sequencers \<Longrightarrow> says (d @ s @ line) ws"
| before: "says line ws \<Longrightarrow> closed line \<Longrightarrow> s \<in> set sequencers \<Longrightarrow> says (line @ s @ d) ws"

lemma says_segment:
  "says line ws \<Longrightarrow> \<exists>ctl. set ctl \<subseteq> set shell_control_prefixes \<and>
     map word_token (ctl @ ws) \<in> set (split_segments line)"
proof (induction rule: says.induct)
  case (alone ctl ws line)
  then have "split_segments line = [map word_token (ctl @ ws)]" by (intro split_line) simp_all
  with alone(2) show ?case by auto
qed (simp_all add: split_segments_chain, blast+)

section \<open>Wrappers and shells\<close>

text \<open>
  The options between a wrapper and the program: assignments, flags, those with a value in
  the next word, and numbers.
\<close>

inductive wrapper_options :: "string \<Rightarrow> string list \<Rightarrow> bool" for w where
  no_option: "wrapper_options w []"
| assignment: "wrapper_options w os \<Longrightarrow> contains x ''='' \<Longrightarrow> wrapper_options w (x # os)"
| flag: "wrapper_options w os \<Longrightarrow> flag_word x \<Longrightarrow> \<not> wrapper_flag_takes_value w x \<Longrightarrow> wrapper_options w (x # os)"
| valued_flag: "wrapper_options w os \<Longrightarrow> flag_word x \<Longrightarrow> \<not> contains x ''='' \<Longrightarrow> wrapper_flag_takes_value w x \<Longrightarrow>
    wrapper_options w (x # v # os)"
| number: "wrapper_options w os \<Longrightarrow> \<not> flag_word x \<Longrightarrow> is_number_word x \<Longrightarrow> wrapper_options w (x # os)"

definition plain_word :: "string \<Rightarrow> bool" where
  "plain_word x \<longleftrightarrow> \<not> contains x ''='' \<and> \<not> flag_word x \<and> \<not> is_number_word x"

definition base_name :: "string \<Rightarrow> string" where
  "base_name x = rev (takeWhile (\<lambda>c. c \<noteq> CHR ''/'') (rev x))"

text \<open>
  The words \<open>ws\<close> start the program \<open>p\<close> with the arguments \<open>args\<close>: directly, under a wrapper
  with its options, or as a command in a word of a shell.
\<close>

inductive starts_program :: "string list \<Rightarrow> string \<Rightarrow> string list \<Rightarrow> bool" where
  direct: "base_name p \<in> set destructive_commands \<Longrightarrow> starts_program (p # args) p args"
| wrapped: "starts_program (x # ws) p args \<Longrightarrow> base_name w \<in> set wrapper_commands \<Longrightarrow>
    wrapper_options (base_name w) os \<Longrightarrow> plain_word x \<Longrightarrow> starts_program (w # os @ x # ws) p args"
| in_shell: "starts_program ws p args \<Longrightarrow> says line ws \<Longrightarrow> base_name sh \<in> set shell_commands \<Longrightarrow>
    line \<in> set us \<Longrightarrow> \<not> flag_word line \<Longrightarrow> starts_program (sh # us) p args"

lemma base_name_token [simp]: "basename (word_token x) = base_name x"
  by (simp add: basename_def base_name_def)

lemma skip_options:
  "wrapper_options w os \<Longrightarrow> plain_word x \<Longrightarrow>
     skip_operands w (map word_token (os @ x # ws)) = map word_token (x # ws)"
proof (induction rule: wrapper_options.induct)
  case no_option
  then show ?case by (simp add: plain_word_def flag_word_def)
qed (auto simp: flag_word_def)

lemma command_names:
  "base_name p \<in> set destructive_commands \<Longrightarrow> p \<notin> set shell_control_prefixes"
  "base_name p \<in> set wrapper_commands \<Longrightarrow> p \<notin> set shell_control_prefixes"
  "base_name p \<in> set shell_commands \<Longrightarrow> p \<notin> set shell_control_prefixes"
  "base_name p \<in> set destructive_commands \<Longrightarrow> base_name p \<notin> set wrapper_commands"
  "base_name p \<in> set destructive_commands \<Longrightarrow> base_name p \<notin> set shell_commands"
  "base_name p \<in> set shell_commands \<Longrightarrow> base_name p \<notin> set wrapper_commands"
proof -
  have "list_all (\<lambda>p. base_name p \<notin> set (destructive_commands @ wrapper_commands @ shell_commands))
      shell_control_prefixes" by code_simp
  then show "base_name p \<in> set destructive_commands \<Longrightarrow> p \<notin> set shell_control_prefixes"
    "base_name p \<in> set wrapper_commands \<Longrightarrow> p \<notin> set shell_control_prefixes"
    "base_name p \<in> set shell_commands \<Longrightarrow> p \<notin> set shell_control_prefixes" by (auto simp: list_all_iff)
  show "base_name p \<in> set destructive_commands \<Longrightarrow> base_name p \<notin> set wrapper_commands"
    "base_name p \<in> set destructive_commands \<Longrightarrow> base_name p \<notin> set shell_commands"
    "base_name p \<in> set shell_commands \<Longrightarrow> base_name p \<notin> set wrapper_commands"
    by (auto simp: destructive_commands_def wrapper_commands_def shell_commands_def)
qed

lemma strip_controls:
  "set ctl \<subseteq> set shell_control_prefixes \<Longrightarrow> x \<notin> set shell_control_prefixes \<Longrightarrow>
     strip_control (map word_token (ctl @ x # ws)) = map word_token (x # ws)"
proof (induction ctl)
  case Nil
  then show ?case by (cases ws) simp_all
next
  case (Cons c ctl)
  then show ?case by (cases ctl) simp_all
qed

text \<open>
  The unwrapper comes to the program, or to the shell that has the command in a word.
\<close>

definition hides :: "string list \<Rightarrow> string \<Rightarrow> string list \<Rightarrow> bool" where
  "hides us p args \<longleftrightarrow> (\<exists>line \<in> set us. \<not> flag_word line \<and>
     (\<exists>seg \<in> set (split_segments line). runs seg (word_token p # map word_token args)))"

definition unwraps_to :: "string list \<Rightarrow> string \<Rightarrow> string list \<Rightarrow> bool" where
  "unwraps_to ws p args \<longleftrightarrow>
     base_name p \<in> set destructive_commands \<and> (\<exists>x xs. ws = x # xs \<and> x \<notin> set shell_control_prefixes) \<and>
     (\<forall>w0. \<exists>q us w. unwrap (map word_token ws) w0 = (word_token q # map word_token us, w) \<and>
        (q = p \<and> us = args \<or> base_name q \<in> set shell_commands \<and> hides us p args))"

lemma said_runs:
  assumes "says line ws" "unwraps_to ws p args"
  shows "\<exists>seg \<in> set (split_segments line). runs seg (word_token p # map word_token args)"
proof -
  obtain x xs where ws: "ws = x # xs" "x \<notin> set shell_control_prefixes"
    using assms(2) by (auto simp: unwraps_to_def)
  obtain ctl where ctl: "set ctl \<subseteq> set shell_control_prefixes" "map word_token (ctl @ ws) \<in> set (split_segments line)"
    using says_segment [OF assms(1)] by blast
  have strip: "strip_control (map word_token (ctl @ ws)) = map word_token ws"
    using strip_controls [OF ctl(1) ws(2)] by (simp only: ws(1))
  obtain q vs w where u: "unwrap (map word_token ws) None = (word_token q # map word_token vs, w)"
    and q: "q = p \<and> vs = args \<or> base_name q \<in> set shell_commands \<and> hides vs p args"
    using assms(2) unfolding unwraps_to_def by blast
  note u' = u [folded strip]
  have "runs (map word_token (ctl @ ws)) (word_token p # map word_token args)"
    using q
  proof
    assume "q = p \<and> vs = args"
    then show ?thesis using u' assms(2) command_names(5) by (auto intro: runs.program simp: unwraps_to_def)
  next
    assume "base_name q \<in> set shell_commands \<and> hides vs p args"
    then obtain l seg where l: "l \<in> set vs" "\<not> flag_word l" "seg \<in> set (split_segments l)"
      "runs seg (word_token p # map word_token args)" "base_name q \<in> set shell_commands"
      unfolding hides_def by blast
    then show ?thesis by (intro runs.shell [OF u', of "word_token l" seg]) (simp_all add: flag_word_def)
  qed
  then show ?thesis using ctl(2) by blast
qed

lemma starts_unwraps: "starts_program ws p args \<Longrightarrow> unwraps_to ws p args"
proof (induction rule: starts_program.induct)
  case (direct p args)
  then show ?case by (auto simp: unwraps_to_def command_names)
next
  case (wrapped x ws p args w os)
  have "unwrap (map word_token (w # os @ x # ws)) w0 = unwrap (map word_token (x # ws)) (Some (base_name w))" for w0
    using wrapped.hyps(2) skip_options [OF wrapped.hyps(3,4), of ws] by simp
  with wrapped.IH command_names(2) [OF wrapped.hyps(2)] show ?case
    unfolding unwraps_to_def by (simp only:) blast
next
  case (in_shell ws p args line sh us)
  then have "hides us p args" using said_runs unfolding hides_def by blast
  then show ?case
    using in_shell.hyps(3) in_shell.IH by (auto simp: unwraps_to_def command_names)
qed

end
