(* ===== verification/Risk_Properties.thy ===== *)
theory Risk_Properties
  imports Risk_Commands
begin

text \<open>
  The properties of the command-risk classifier, and the command lines it does not see
  through.
\<close>

definition demo_context :: risk_context where
  "demo_context = \<lparr>working_dir = Some ''/home/u/proj'', home_dir = Some ''/home/u''\<rparr>"

section \<open>Protected targets\<close>

text \<open>
  C25: a command line is denied, whatever the justification says, when it has a command that
  destroys a literal target resolving to a protected path: a destructive program with the
  target among its arguments, started directly, under wrappers of the list with their
  options as the table knows them, or in a word of a shell of the list, in any nesting; on
  each level behind control words and anywhere in a chain of closed commands, its words
  written bare or quoted. (What is not of this form may escape, see below.)
\<close>

theorem catastrophic_target_denied:
  assumes "says command ws" and "starts_program ws p args"
    and "t \<in> set args" "\<not> flag_word t" "\<not> has_glob (operand t)"
    and "is_catastrophic_target (expand (operand t) ctx) ctx"
  shows "is_absolute_deny (assessed_level (assess command ctx)) \<and>
    gate (assess command ctx) text = Deny (deny_reason (assess command ctx))"
proof -
  have u: "unwraps_to ws p args" by (rule starts_unwraps [OF assms(2)])
  then have p: "basename (word_token p) \<in> set destructive_commands" by (simp add: unwraps_to_def)
  obtain seg where seg: "seg \<in> set (split_segments command)" "runs seg (word_token p # map word_token args)"
    using said_runs [OF assms(1) u] by blast
  let ?f = "finding Critical ''targets a protected system or home path that must never be destroyed''
    (expand (operand t) ctx)"
  have "target_finding (list_ex is_recursive_flag (word_token p # map word_token args)) ctx (word_token t) = Some ?f"
    using assms(5,6) by (simp add: target_finding_def classify_target_def Let_def)
  then have "?f \<in> set (assess_program ctx (word_token p # map word_token args))"
    using assms(3,4) p by (intro target_found) (simp_all add: flag_word_def)
  then have "?f \<in> set (command_findings command ctx)" by (rule runs_command_findings [OF seg])
  from finding_le_level [OF this] have critical: "assessed_level (assess command ctx) = Critical"
    by (simp add: antisym)
  then show ?thesis using gate_critical [OF critical] by (simp add: is_absolute_deny_def)
qed

definition demo_inner :: string where "demo_inner = ''if rm -r ~/.ssh''"

definition demo_words :: "string list" where "demo_words = [''sudo'', ''-u'', ''root'', ''bash'', ''-c'', demo_inner]"

definition demo_command :: string where
  "demo_command = ''cd /tmp'' @ ''&&'' @ join '' '' [''sudo'', ''-u'', ''root'', ''bash'', ''-c'', shell_quote demo_inner]"

lemma bare_words:
  "list_all (\<lambda>w. w \<noteq> [] \<and> list_all (\<lambda>c. c \<notin> special) w) ws \<Longrightarrow> list_all2 written ws ws"
  by (induction ws) (auto simp: list_all_iff intro: written.bare)

lemma demo_says: "says demo_inner [''rm'', ''-r'', ''~/.ssh'']" "says demo_command demo_words"
proof -
  have "list_all2 written ([''if''] @ [''rm'', ''-r'', ''~/.ssh'']) ([''if''] @ [''rm'', ''-r'', ''~/.ssh''])"
    by (rule bare_words) (simp add: special_def special_chars)
  then have "line_of ([''if''] @ [''rm'', ''-r'', ''~/.ssh'']) demo_inner"
    by (rule line_ofI) (simp add: demo_inner_def)
  then show "says demo_inner [''rm'', ''-r'', ''~/.ssh'']"
    by (rule says.alone) (simp_all add: shell_control_prefixes_def)
  have "list_all2 written [''sudo'', ''-u'', ''root'', ''bash'', ''-c''] [''sudo'', ''-u'', ''root'', ''bash'', ''-c'']"
    by (rule bare_words) (simp add: special_def special_chars)
  then have "list_all2 written ([''sudo'', ''-u'', ''root'', ''bash'', ''-c''] @ [demo_inner])
      ([''sudo'', ''-u'', ''root'', ''bash'', ''-c''] @ [shell_quote demo_inner])"
    by (rule list_all2_appendI) (simp add: written.in_quotes)
  from line_ofI [OF this refl]
  have "line_of ([] @ demo_words) (join '' '' [''sudo'', ''-u'', ''root'', ''bash'', ''-c'', shell_quote demo_inner])"
    by (simp add: demo_words_def)
  then have "says (join '' '' [''sudo'', ''-u'', ''root'', ''bash'', ''-c'', shell_quote demo_inner]) demo_words"
    by (rule says.alone) (simp_all add: demo_words_def)
  moreover have "closed ''cd /tmp''" "''&&'' \<in> set sequencers" by code_simp+
  ultimately show "says demo_command demo_words" unfolding demo_command_def by (rule says.behind)
qed

lemma demo_starts: "starts_program demo_words ''rm'' [''-r'', ''~/.ssh'']"
proof -
  have "starts_program [''rm'', ''-r'', ''~/.ssh''] ''rm'' [''-r'', ''~/.ssh'']"
    by (intro starts_program.direct) (simp add: base_name_def destructive_commands_def)
  moreover have "base_name ''bash'' \<in> set shell_commands" "\<not> flag_word demo_inner" by code_simp+
  ultimately have sh: "starts_program [''bash'', ''-c'', demo_inner] ''rm'' [''-r'', ''~/.ssh'']"
    using starts_program.in_shell [OF _ demo_says(1), of "''rm''" "[''-r'', ''~/.ssh'']" "''bash''" "[''-c'', demo_inner]"]
    by (metis list.set_intros)
  have "flag_word ''-u'' \<and> \<not> contains ''-u'' ''='' \<and> wrapper_flag_takes_value (base_name ''sudo'') ''-u''" by code_simp
  then have "wrapper_options (base_name ''sudo'') [''-u'', ''root'']"
    by (intro wrapper_options.valued_flag wrapper_options.no_option) simp_all
  moreover have "base_name ''sudo'' \<in> set wrapper_commands" "plain_word ''bash''" by code_simp+
  ultimately show ?thesis
    using starts_program.wrapped [OF sh, of "''sudo''" "[''-u'', ''root'']"] by (simp add: demo_words_def)
qed

lemma demo_target:
  "\<not> flag_word ''~/.ssh''" "\<not> has_glob (operand ''~/.ssh'')"
  "is_catastrophic_target (expand (operand ''~/.ssh'') demo_context) demo_context"
  by code_simp+

theorem catastrophic_target_denied_witness:
  "gate (assess demo_command demo_context) (Some ''the user asked for a clean home directory'') =
     Deny (deny_reason (assess demo_command demo_context))"
  using catastrophic_target_denied [OF demo_says(2) demo_starts _ demo_target] by simp

text \<open>
  C26: the protected set. For an absolute path the check decides whether the names left
  after resolving the path from the right, each \<open>..\<close> cancelling the name before it, are
  the root, a protected top-level directory, inside a protected tree, the home directory,
  inside a credential store, or a protected directory of the home.
\<close>

theorem protected_paths_reference:
  assumes "is_absolute p" and "home_dir ctx = Some h" and "is_absolute h"
  shows "is_catastrophic_target p ctx \<longleftrightarrow> protected_names (resolve p) (Some (resolve h))"
  using catastrophic_resolve [OF assms(1), of ctx] assms(2,3) by simp

theorem protected_paths_reference_witness:
  "is_catastrophic_target ''/home/u/proj/../.aws/x'' demo_context \<longleftrightarrow>
     protected_names (resolve ''/home/u/proj/../.aws/x'') (Some (resolve ''/home/u''))"
  by (rule protected_paths_reference) (simp_all add: demo_context_def is_absolute_def starts_with_def)

section \<open>Chains and words\<close>

text \<open>
  Commands joined by a semicolon, a newline, \<open>&&\<close> or \<open>||\<close> are assessed one by
  one: when no quote is open and no operator pending at the end of the first, the findings
  of the chain are those of the two commands in order, and its level is the higher one; no
  chaining lowers the level of a command.
\<close>

theorem chained_commands_assessed_separately:
  assumes "closed c" and "s \<in> set sequencers"
  shows "findings (assess (c @ s @ d) ctx) = findings (assess c ctx) @ findings (assess d ctx) \<and>
    assessed_level (assess (c @ s @ d) ctx) =
      max (assessed_level (assess c ctx)) (assessed_level (assess d ctx))"
  using findings_chain [OF assms] level_chain [OF assms] by simp_all

lemma demo_closed: "closed ''echo ok''" "''&&'' \<in> set sequencers"
  by code_simp+

theorem chained_commands_assessed_separately_witness:
  "assessed_level (assess (''echo ok'' @ ''&&'' @ '' rm -rf ~'') demo_context) =
     max (assessed_level (assess ''echo ok'' demo_context)) (assessed_level (assess '' rm -rf ~'' demo_context))"
  using chained_commands_assessed_separately [OF demo_closed] by blast

text \<open>
  C27: quoting hides nothing. A command line of a destructive program and any words, all in
  single quotes, has one finding per word that is not a flag and is notable as a target, in
  order, and an unknown target when all words are flags.
\<close>

theorem quoted_words_assessed:
  assumes "p \<in> set destructive_commands" and "\<forall>w \<in> set ws. squote \<notin> set w"
  shows "findings (assess (join '' '' (map quote (p # ws))) ctx) =
    (if list_all flag_word ws then [unknown_target p]
     else List.map_filter (word_finding (list_ex (\<lambda>w. is_recursive_flag (word_token w)) ws) ctx)
       (filter (\<lambda>w. \<not> flag_word w) ws))"
proof -
  have "squote \<notin> set p"
    using assms(1) by (auto simp: destructive_commands_def squote_def)
  with assms(2) have "split_segments (join '' '' (map quote (p # ws))) = [map word_token (p # ws)]"
    by (intro split_quoted) simp_all
  then have "command_findings (join '' '' (map quote (p # ws))) ctx =
      assess_program ctx (word_token p # map word_token ws)"
    unfolding command_findings_def by (simp only: list.map concat.simps append_Nil2 assess_destructive [OF assms(1)])
  then show ?thesis unfolding findings_eq by (simp only: assess_words [OF assms(1)])
qed

theorem quoted_words_assessed_witness:
  "findings (assess (join '' '' (map quote [''rm'', ''a b''])) demo_context) =
     List.map_filter (word_finding False demo_context) [''a b'']"
  using quoted_words_assessed [of "''rm''" "[''a b'']" demo_context]
  by (simp add: destructive_commands_def squote_def flag_word_def is_flag_def starts_with_def is_recursive_flag_def)

section \<open>What escapes the classifier\<close>

text \<open>
  Command lines that destroy the home directory and are assessed as safe, so that they run
  at once: a command after \<open>&\<close>, after an assignment, in braces, after \<open>!\<close>, after a
  duration with a unit, after an option of a wrapper with a value the table does not have.
\<close>

lemma escaping_commands:
  "\<forall>c \<in> set [''true & rm -rf ~'', ''A=1 rm -rf ~'', ''{ rm -rf ~; }'', ''! rm -rf ~'',
      ''timeout 5s rm -rf ~'', ''env -u A rm -rf ~'', ''>x rm -rf ~'', ''mkfs.ext4 /dev/sda''].
     runs_immediately (assessed_level (assess c demo_context))"
  by code_simp

text \<open>The payload of \<open>eval\<close> is one word, which is taken for the name of a program.\<close>

lemma eval_payload_escapes: "command_findings (''eval '' @ quote ''rm -rf ~'') demo_context = []"
  by code_simp

text \<open>A bracket or brace pattern is a concrete name to the classifier.\<close>

lemma bracket_glob_escapes:
  "assessed_level (assess ''rm -rf ~/.ss[h]'' demo_context) = Low"
  "assessed_level (assess ''rm -rf ~/{.ssh,x}'' demo_context) = Low"
  by code_simp+

text \<open>In a home that is the working directory a name pattern is bounded, whatever it matches.\<close>

lemma home_glob_escapes:
  "assessed_level (assess ''rm -rf .s*'' \<lparr>working_dir = Some ''/home/u'', home_dir = Some ''/home/u''\<rparr>) = Low"
  by code_simp

text \<open>The directory above a home outside \<open>/home\<close> is not protected.\<close>

lemma home_parent_unprotected:
  "assessed_level (assess ''rm -rf /data/users'' \<lparr>working_dir = None, home_dir = Some ''/data/users/u''\<rparr>) = Low"
  by code_simp

end
