(* ===== verification/Compaction_Core.thy ===== *)
theory Compaction_Core
  imports Rust_Str
begin

text \<open>
  The pure part of context compaction (\<open>next-code-compaction-core/src/lib.rs\<close>) on the
  messages of a conversation (\<open>next-code-message-types/src/lib.rs\<close>): where a transcript
  may be cut, character accounting, prompts and summaries, and the shortening of
  oversized payloads. The JSON input of a tool call is its serialized text; the test for
  an alphanumeric character outside ASCII is a parameter. The embedding vectors of the
  semantic mode are not modelled.
\<close>

section \<open>Messages\<close>

datatype role = User | Assistant

record cache_control =
  cache_kind :: string
  cache_ttl :: "string option"

datatype content_block =
  Text string "cache_control option"
  | Reasoning string
  | ReasoningTrace string
  | AnthropicThinking string string
  | OpenAIReasoning string "string list" "string option" "string option"
  | ToolUse string string string "string option"
  | ToolResult string string "bool option"
  | Image string string
  | OpenAICompaction string

record message =
  msg_role :: role
  content :: "content_block list"
  timestamp :: "int option"
  tool_duration_ms :: "u64 option"

section \<open>Constants\<close>

definition default_token_budget :: nat where "default_token_budget = 200000"
definition recent_turns_to_keep :: nat where "recent_turns_to_keep = 10"
definition min_turns_to_keep :: nat where "min_turns_to_keep = 2"
definition emergency_tool_result_max_chars :: nat where "emergency_tool_result_max_chars = 4000"
definition emergency_image_max_chars :: nat where "emergency_image_max_chars = 1024"
definition chars_per_token :: nat where "chars_per_token = 4"
definition image_token_cost :: nat where "image_token_cost = 1600"
definition system_overhead_tokens :: nat where "system_overhead_tokens = 18000"
definition embed_max_chars_per_msg :: nat where "embed_max_chars_per_msg = 512"

definition summary_prompt :: string where
  "summary_prompt =
     ''Summarize our conversation so you can continue this work later.'' @ nl @ nl @
     ''Write in natural language with these sections:'' @ nl @
     ''- **Context:** What we'' @ [CHR 0x27] @ ''re working on and why (1-2 sentences)'' @ nl @
     ''- **What we did:** Key actions taken, files changed, problems solved'' @ nl @
     ''- **Current state:** What works, what'' @ [CHR 0x27] @ ''s broken, what'' @ [CHR 0x27] @ ''s next'' @ nl @
     ''- **User preferences:** Specific requirements or decisions they made'' @ nl @ nl @
     ''Be concise but preserve important details. You can search the full conversation later '' @
     ''if you need exact error messages or code snippets.''"

record summary =
  summary_text :: string
  openai_encrypted_content :: "string option"
  covers_up_to_turn :: nat
  original_turn_count :: nat

section \<open>Cutting text at character boundaries\<close>

definition is_char_boundary :: "string \<Rightarrow> nat \<Rightarrow> bool" where
  "is_char_boundary s i \<longleftrightarrow> i = 0 \<or> i = length s \<or> (i < length s \<and> \<not> is_cont (s ! i))"

fun boundary_down :: "string \<Rightarrow> nat \<Rightarrow> nat" where
  "boundary_down s i =
     (case i of 0 \<Rightarrow> 0 | Suc j \<Rightarrow> (if is_char_boundary s i then i else boundary_down s j))"

declare boundary_down.simps [simp del]

definition truncate_str_boundary :: "string \<Rightarrow> nat \<Rightarrow> string" where
  "truncate_str_boundary value max_bytes =
     (if length value \<le> max_bytes then value
      else take (boundary_down value (min max_bytes (length value))) value)"

function boundary_up :: "string \<Rightarrow> nat \<Rightarrow> nat" where
  "boundary_up s i = (if i < length s \<and> \<not> is_char_boundary s i then boundary_up s (i + 1) else i)"
  by pat_completeness auto
termination
  by (relation "measure (\<lambda>(s, i). length s - i)") auto

declare boundary_up.simps [simp del]

definition tail_str_boundary :: "string \<Rightarrow> nat \<Rightarrow> string" where
  "tail_str_boundary value max_bytes =
     (if length value \<le> max_bytes then value
      else drop (boundary_up value (length value - max_bytes)) value)"

section \<open>Tool calls and the safe cutoff\<close>

text \<open>
  The sets of the ids called and of the ids of results without a call so far, after one
  more block.
\<close>

fun track_block :: "content_block \<Rightarrow> string set \<times> string set \<Rightarrow> string set \<times> string set" where
  "track_block (ToolUse i _ _ _) (available, missing) = (insert i available, missing - {i})"
| "track_block (ToolResult i _ _) (available, missing) =
     (if i \<notin> available then (available, insert i missing) else (available, missing))"
| "track_block _ am = am"

definition track_message :: "message \<Rightarrow> string set \<times> string set \<Rightarrow> string set \<times> string set" where
  "track_message m am = fold track_block (content m) am"

text \<open>The walk back over \<open>messages[..cutoff]\<close>, given from its end.\<close>

fun walk_back :: "message list \<Rightarrow> string set \<times> string set \<Rightarrow> nat" where
  "walk_back [] am = 0"
| "walk_back (m # earlier) am =
     (let am' = track_message m am
      in if snd am' = {} then length earlier else walk_back earlier am')"

definition safe_compaction_cutoff :: "message list \<Rightarrow> nat \<Rightarrow> nat" where
  "safe_compaction_cutoff messages initial_cutoff =
     (let cutoff = min initial_cutoff (length messages);
          am = fold track_message (drop cutoff messages) ({}, {})
      in if snd am = {} then cutoff else walk_back (rev (take cutoff messages)) am)"

section \<open>Sizes\<close>

fun block_char_count :: "content_block \<Rightarrow> nat" where
  "block_char_count (Text t _) = length t"
| "block_char_count (Reasoning t) = length t"
| "block_char_count (ReasoningTrace t) = length t"
| "block_char_count (AnthropicThinking t s) = length t + length s"
| "block_char_count (OpenAIReasoning i s e st) =
     length i + sum_list (map length s) + length (unwrap_or e []) + length (unwrap_or st [])"
| "block_char_count (ToolUse _ _ inp _) = length inp + 50"
| "block_char_count (ToolResult _ c _) = length c + 20"
| "block_char_count (Image _ _) = image_token_cost * chars_per_token"
| "block_char_count (OpenAICompaction e) = length e"

definition content_char_count :: "content_block list \<Rightarrow> nat" where
  "content_char_count bs = sum_list (map block_char_count bs)"

definition message_char_count :: "message \<Rightarrow> nat" where
  "message_char_count m = content_char_count (content m)"

definition summary_payload_char_count :: "summary \<Rightarrow> nat" where
  "summary_payload_char_count s =
     (case openai_encrypted_content s of Some e \<Rightarrow> length e | None \<Rightarrow> length (summary_text s))"

definition estimate_compaction_tokens_from_chars :: "nat \<Rightarrow> nat \<Rightarrow> nat" where
  "estimate_compaction_tokens_from_chars total_chars token_budget =
     total_chars div chars_per_token +
     (if token_budget \<ge> default_token_budget div 2 then system_overhead_tokens else 0)"

definition estimate_compaction_tokens :: "summary option \<Rightarrow> nat \<Rightarrow> nat \<Rightarrow> nat" where
  "estimate_compaction_tokens s active_message_chars token_budget =
     estimate_compaction_tokens_from_chars
       ((case s of None \<Rightarrow> 0 | Some x \<Rightarrow> summary_payload_char_count x) + active_message_chars) token_budget"

definition saturating_add :: "u64 \<Rightarrow> u64 \<Rightarrow> u64" where
  "saturating_add a b = (if a + b < a then - 1 else a + b)"

text \<open>
  The lower case of the provider name is looked at for two ASCII words, which no character
  outside ASCII has a part in.
\<close>

definition effective_context_tokens_from_usage :: "string \<Rightarrow> u64 \<Rightarrow> u64 option \<Rightarrow> u64 option \<Rightarrow> u64" where
  "effective_context_tokens_from_usage provider_name input_tokens cache_read_tokens cache_creation_tokens =
     (if input_tokens = 0 then 0
      else
        let cache_read = unwrap_or cache_read_tokens 0;
            cache_creation = unwrap_or cache_creation_tokens 0;
            name = to_ascii_lowercase provider_name;
            split_accounting = (contains name ''anthropic'' \<or> contains name ''claude'' \<or>
              cache_creation > 0 \<or> cache_read > input_tokens)
        in if split_accounting then saturating_add (saturating_add input_tokens cache_read) cache_creation
           else input_tokens)"

section \<open>Texts\<close>

definition compacted_summary_text_block :: "string \<Rightarrow> string" where
  "compacted_summary_text_block s =
     ''## Previous Conversation Summary'' @ nl @ nl @ s @ nl @ nl @ ''---'' @ nl @ nl"

fun block_conversation_text :: "content_block \<Rightarrow> string" where
  "block_conversation_text (Text t _) = t @ nl"
| "block_conversation_text (ToolUse _ name inp _) = ''[Tool: '' @ name @ '' - '' @ inp @ '']'' @ nl"
| "block_conversation_text (ToolResult _ c _) =
     ''[Result: '' @
     (if length c > 500 then truncate_str_boundary c 500 @ ''... (truncated)'' else c) @ '']'' @ nl"
| "block_conversation_text (Image _ _) = ''[Image]'' @ nl"
| "block_conversation_text (OpenAICompaction _) = ''[OpenAI native compaction]'' @ nl"
| "block_conversation_text _ = []"

definition message_conversation_text :: "message \<Rightarrow> string" where
  "message_conversation_text m =
     ''**'' @ (case msg_role m of User \<Rightarrow> ''User'' | Assistant \<Rightarrow> ''Assistant'') @ '':**'' @ nl @
     concat (map block_conversation_text (content m)) @ nl"

definition build_compaction_conversation_text :: "message list \<Rightarrow> summary option \<Rightarrow> string" where
  "build_compaction_conversation_text messages existing =
     (case existing of
        None \<Rightarrow> []
      | Some s \<Rightarrow> ''## Previous Summary'' @ nl @ nl @ summary_text s @ nl @ nl @ ''## New Conversation'' @ nl @ nl) @
     concat (map message_conversation_text messages)"

definition build_compaction_prompt :: "message list \<Rightarrow> summary option \<Rightarrow> nat \<Rightarrow> string" where
  "build_compaction_prompt messages existing max_prompt_chars =
     (let txt = build_compaction_conversation_text messages existing;
          overhead = length summary_prompt + 50
      in (if length txt + overhead > max_prompt_chars \<and> max_prompt_chars > overhead
          then truncate_str_boundary txt (max_prompt_chars - overhead) @ nl @ nl @
            ''... [earlier conversation truncated to fit context window]'' @ nl
          else txt) @ nl @ nl @ ''---'' @ nl @ nl @ summary_prompt)"

definition push_semantic_excerpt :: "string \<Rightarrow> string \<Rightarrow> nat \<Rightarrow> string" where
  "push_semantic_excerpt tgt source max_chars =
     (if source = [] then tgt else (if tgt = [] then [] else tgt @ '' '') @ take_chars max_chars source)"

fun goal_excerpt :: "string \<Rightarrow> content_block \<Rightarrow> string" where
  "goal_excerpt txt (Text t _) = push_semantic_excerpt txt t 200"
| "goal_excerpt txt (ToolResult _ c _) = push_semantic_excerpt txt c 100"
| "goal_excerpt txt _ = txt"

definition semantic_goal_text :: "message list \<Rightarrow> string" where
  "semantic_goal_text messages = foldl goal_excerpt [] (concat (map content messages))"

fun text_excerpt :: "string \<Rightarrow> content_block \<Rightarrow> string" where
  "text_excerpt txt (Text t _) = push_semantic_excerpt txt t embed_max_chars_per_msg"
| "text_excerpt txt _ = txt"

definition semantic_message_text :: "message \<Rightarrow> string" where
  "semantic_message_text m = foldl text_excerpt [] (content m)"

subsection \<open>The summary of a hard compaction\<close>

definition looks_like_file_reference :: "string \<Rightarrow> bool" where
  "looks_like_file_reference word \<longleftrightarrow>
     (contains word ''/'' \<or> contains word ''.'') \<and> length word > 3 \<and> length word < 120 \<and>
     \<not> starts_with word ''http'' \<and>
     (contains word ''.rs'' \<or> contains word ''.ts'' \<or> contains word ''.py'' \<or>
      contains word ''.toml'' \<or> contains word ''.json'' \<or> starts_with word ''src/'' \<or>
      starts_with word ''./'')"

definition keeps_char :: "(string \<Rightarrow> bool) \<Rightarrow> string \<Rightarrow> bool" where
  "keeps_char alnum g \<longleftrightarrow>
     (case g of
        [c] \<Rightarrow> is_ascii_alphanumeric c \<or> c \<in> set ''/._-''
      | _ \<Rightarrow> alnum g)"

definition clean_file_reference :: "(string \<Rightarrow> bool) \<Rightarrow> string \<Rightarrow> string" where
  "clean_file_reference alnum word =
     concat (rev (dropWhile (\<lambda>g. \<not> keeps_char alnum g)
       (rev (dropWhile (\<lambda>g. \<not> keeps_char alnum g) (chars word)))))"

definition extract_file_mentions :: "(string \<Rightarrow> bool) \<Rightarrow> string \<Rightarrow> string list" where
  "extract_file_mentions alnum txt =
     filter (\<lambda>s. s \<noteq> []) (map (clean_file_reference alnum) (filter looks_like_file_reference (split_whitespace txt)))"

fun block_tool_names :: "content_block \<Rightarrow> string list" where
  "block_tool_names (ToolUse _ name _ _) = [name]"
| "block_tool_names _ = []"

fun block_file_mentions :: "(string \<Rightarrow> bool) \<Rightarrow> content_block \<Rightarrow> string list" where
  "block_file_mentions alnum (Text t _) = extract_file_mentions alnum t"
| "block_file_mentions alnum _ = []"

definition build_emergency_summary_text ::
  "(string \<Rightarrow> bool) \<Rightarrow> string option \<Rightarrow> nat \<Rightarrow> nat \<Rightarrow> nat \<Rightarrow> message list \<Rightarrow> string" where
  "build_emergency_summary_text alnum existing dropped_count pre_tokens token_budget dropped_messages =
     (let blocks = concat (map content dropped_messages);
          tools = sort (remdups (concat (map block_tool_names blocks)));
          files = take 30 (remdups_adj (sort (concat (map (block_file_mentions alnum) blocks))))
      in join (nl @ nl)
        ((case existing of Some e \<Rightarrow> (if e \<noteq> [] then [e] else []) | None \<Rightarrow> []) @
         [''**[Emergency compaction]**: '' @ show_nat dropped_count @
          '' messages were dropped to recover from context overflow. The conversation had ~'' @
          show_nat (pre_tokens div 1000) @ ''k tokens which exceeded the '' @
          show_nat (token_budget div 1000) @ ''k limit.''] @
         (if tools \<noteq> [] then [''Tools used: '' @ join '', '' tools] else []) @
         (if files \<noteq> [] then [''Files referenced: '' @ join '', '' files] else [])))"

section \<open>Shortening payloads\<close>

definition emergency_truncated_tool_result :: "string \<Rightarrow> nat \<Rightarrow> string" where
  "emergency_truncated_tool_result c max_chars =
     (let hd_part = truncate_str_boundary c (max_chars div 2);
          tl_part = tail_str_boundary c (max_chars div 4)
      in hd_part @ nl @ nl @ ''... ['' @ show_nat (length c - (length hd_part + length tl_part)) @
         '' chars truncated for context recovery] ...'' @ nl @ nl @ tl_part)"

text \<open>A block after the truncation, and whether it was truncated.\<close>

fun truncate_tool_result :: "nat \<Rightarrow> content_block \<Rightarrow> content_block \<times> bool" where
  "truncate_tool_result max_chars (ToolResult i c e) =
     (if length c > max_chars then (ToolResult i (emergency_truncated_tool_result c max_chars) e, True)
      else (ToolResult i c e, False))"
| "truncate_tool_result max_chars b = (b, False)"

definition omitted_image :: "string \<Rightarrow> string \<Rightarrow> content_block" where
  "omitted_image media_type data =
     Text (''[Image omitted during emergency context recovery: media_type='' @ media_type @
       '', original_base64_chars='' @ show_nat (length data) @
       ''. Rely on adjacent browser/tool text, screenshots saved to disk, or re-open/re-screenshot '' @
       ''if visual details are needed.]'') None"

fun truncate_payload :: "nat \<Rightarrow> nat \<Rightarrow> content_block \<Rightarrow> content_block \<times> bool" where
  "truncate_payload max_tool max_image (ToolResult i c e) = truncate_tool_result max_tool (ToolResult i c e)"
| "truncate_payload max_tool max_image (Image media_type data) =
     (if length data > max_image then (omitted_image media_type data, True) else (Image media_type data, False))"
| "truncate_payload max_tool max_image b = (b, False)"

definition map_blocks ::
  "(content_block \<Rightarrow> content_block \<times> bool) \<Rightarrow> message list \<Rightarrow> message list \<times> nat" where
  "map_blocks f messages =
     (map (\<lambda>m. m\<lparr>content := map (fst \<circ> f) (content m)\<rparr>) messages,
      length (filter (snd \<circ> f) (concat (map content messages))))"

definition emergency_truncate_tool_results :: "message list \<Rightarrow> nat \<Rightarrow> message list \<times> nat" where
  "emergency_truncate_tool_results messages max_chars = map_blocks (truncate_tool_result max_chars) messages"

definition emergency_truncate_large_payloads :: "message list \<Rightarrow> nat \<Rightarrow> nat \<Rightarrow> message list \<times> nat" where
  "emergency_truncate_large_payloads messages max_tool_result_chars max_image_chars =
     map_blocks (truncate_payload max_tool_result_chars max_image_chars) messages"

subsection \<open>Request size\<close>

text \<open>The status code as a number of its own, not part of a longer one.\<close>

fun independent_code :: "char option \<Rightarrow> string \<Rightarrow> string \<Rightarrow> bool" where
  "independent_code prev [] code = False"
| "independent_code prev (c # cs) code =
     (case strip_prefix code (c # cs) of
        Some rest \<Rightarrow>
          (case prev of None \<Rightarrow> True | Some p \<Rightarrow> \<not> is_ascii_digit p) \<and>
          (case rest of [] \<Rightarrow> True | d # _ \<Rightarrow> \<not> is_ascii_digit d) \<or>
          independent_code (Some c) cs code
      | None \<Rightarrow> independent_code (Some c) cs code)"

definition is_request_payload_too_large_error :: "string \<Rightarrow> bool" where
  "is_request_payload_too_large_error error \<longleftrightarrow>
     (let lower = to_ascii_lowercase error
      in contains lower ''request_too_large'' \<or> contains lower ''request too large'' \<or>
         contains lower ''payload too large'' \<or> contains lower ''request entity too large'' \<or>
         contains lower ''request exceeds the maximum size'' \<or>
         contains lower ''exceeds the maximum size'' \<or> independent_code None lower ''413'')"

fun image_payload :: "content_block \<Rightarrow> nat" where
  "image_payload (Image _ d) = length d"
| "image_payload _ = 0"

fun is_image :: "content_block \<Rightarrow> bool" where
  "is_image (Image _ _) = True"
| "is_image _ = False"

definition stripped_image :: "string \<Rightarrow> string \<Rightarrow> content_block" where
  "stripped_image media_type data =
     Text (''[Image omitted during request-size recovery: media_type='' @ media_type @
       '', original_base64_chars='' @ show_nat (length data) @
       ''. The request body exceeded the provider size limit; older images were dropped. '' @
       ''Rely on adjacent browser/tool text, screenshots saved to disk, or re-open/re-screenshot '' @
       ''if visual details are needed.]'') None"

text \<open>Images are replaced in transcript order while the total is over the target.\<close>

fun strip_blocks :: "nat \<Rightarrow> content_block list \<Rightarrow> nat \<Rightarrow> content_block list \<times> nat \<times> nat" where
  "strip_blocks target_total [] left = ([], left, 0)"
| "strip_blocks target_total (b # bs) left =
     (case b of
        Image media_type data \<Rightarrow>
          (if left > target_total
           then (case strip_blocks target_total bs (left - length data) of
                   (bs', left', n) \<Rightarrow> (stripped_image media_type data # bs', left', n + 1))
           else (b # bs, left, 0))
      | _ \<Rightarrow> (case strip_blocks target_total bs left of (bs', left', n) \<Rightarrow> (b # bs', left', n)))"

fun strip_contents :: "nat \<Rightarrow> content_block list list \<Rightarrow> nat \<Rightarrow> content_block list list \<times> nat" where
  "strip_contents target_total [] left = ([], 0)"
| "strip_contents target_total (c # cs) left =
     (case strip_blocks target_total c left of
        (c', left', n) \<Rightarrow>
          (case strip_contents target_total cs left' of (cs', k) \<Rightarrow> (c' # cs', n + k)))"

definition strip_large_images_in_contents :: "content_block list list \<Rightarrow> nat \<Rightarrow> content_block list list \<times> nat" where
  "strip_large_images_in_contents contents target_total =
     (let left = sum_list (map image_payload (concat contents))
      in if left \<le> target_total then (contents, 0) else strip_contents target_total contents left)"

definition emergency_strip_large_images :: "message list \<Rightarrow> nat \<Rightarrow> message list \<times> nat" where
  "emergency_strip_large_images messages target_total =
     (case strip_large_images_in_contents (map content messages) target_total of
        (contents, n) \<Rightarrow> (map2 (\<lambda>m c. m\<lparr>content := c\<rparr>) messages contents, n))"

end
