(* ===== verification/Compaction_Manager.thy ===== *)
theory Compaction_Manager
  imports Compaction_Core F64
begin

text \<open>
  The compaction manager (\<open>next-code-base/src/compaction.rs\<close>). It keeps no messages; the
  caller passes the transcript. A background summary is a task that runs, has finished
  with a result or has failed. The embedding model of the semantic mode and what the code
  computes on its vectors are parameters (\<open>strategy\<close>); an operation that may panic
  returns an option. Logging, the embedding cache and the time spent waiting are left out.
\<close>

section \<open>Single precision\<close>

text \<open>The \<open>f32\<close> nearest to \<open>n / d\<close>, as a value of the type of \<open>F64\<close>.\<close>

definition f32_of_ratio :: "int \<Rightarrow> int \<Rightarrow> f64" where
  "f32_of_ratio n d =
     (if n = 0 then Fin 0 0
      else
        let e0 = bitlen n - bitlen d - 24;
            (a0, b0) = scaled n d e0;
            e1 = (if b0 * 2 ^ 24 \<le> a0 then e0 + 1 else e0);
            e = max e1 (-149);
            (a, b) = scaled n d e;
            m = round_half_even a b
        in if 104 < e \<or> (e = 104 \<and> 2 ^ 24 \<le> m) then Inf else Fin m e)"

fun f32_div :: "f64 \<Rightarrow> f64 \<Rightarrow> f64" where
  "f32_div (Fin m1 e1) (Fin m2 e2) =
     (if m2 = 0 then (if m1 = 0 then NaN else Inf)
      else let e = e1 - e2
           in if 0 \<le> e then f32_of_ratio (m1 * 2 ^ nat e) m2
              else f32_of_ratio m1 (m2 * 2 ^ nat (- e)))"
| "f32_div NaN _ = NaN"
| "f32_div _ NaN = NaN"
| "f32_div (Fin _ _) Inf = Fin 0 0"
| "f32_div Inf (Fin _ _) = Inf"
| "f32_div Inf Inf = NaN"

definition compaction_threshold :: f64 where "compaction_threshold = f32_of_ratio 80 100"
definition critical_threshold :: f64 where "critical_threshold = f32_of_ratio 95 100"
definition manual_compact_min_threshold :: f64 where "manual_compact_min_threshold = f32_of_ratio 10 100"

section \<open>Sums in double precision\<close>

text \<open>The double nearest to \<open>n * 2 ^ e\<close>, sums, and differences cut off at zero.\<close>

definition f64_scaled :: "int \<Rightarrow> int \<Rightarrow> f64" where
  "f64_scaled n e = (if 0 \<le> e then f64_of_ratio (n * 2 ^ nat e) 1 else f64_of_ratio n (2 ^ nat (- e)))"

fun f64_add :: "f64 \<Rightarrow> f64 \<Rightarrow> f64" where
  "f64_add (Fin m1 e1) (Fin m2 e2) =
     (let e = min e1 e2 in f64_scaled (m1 * 2 ^ nat (e1 - e) + m2 * 2 ^ nat (e2 - e)) e)"
| "f64_add NaN _ = NaN"
| "f64_add _ NaN = NaN"
| "f64_add _ _ = Inf"

fun f64_diff_or_zero :: "f64 \<Rightarrow> f64 \<Rightarrow> f64" where
  "f64_diff_or_zero (Fin m1 e1) (Fin m2 e2) =
     (let e = min e1 e2; n = m1 * 2 ^ nat (e1 - e) - m2 * 2 ^ nat (e2 - e)
      in if n \<le> 0 then Fin 0 0 else f64_scaled n e)"
| "f64_diff_or_zero Inf (Fin _ _) = Inf"
| "f64_diff_or_zero _ _ = Fin 0 0"

section \<open>State\<close>

datatype compaction_mode = Reactive | Proactive | Semantic

definition mode_label :: "compaction_mode \<Rightarrow> string" where
  "mode_label m = (case m of Reactive \<Rightarrow> ''reactive'' | Proactive \<Rightarrow> ''proactive'' | Semantic \<Rightarrow> ''semantic'')"

text \<open>
  The smoothing factor is between 0 and 1, as its documentation says. The mode is a field
  of the manager, and the two similarity thresholds are part of the comparisons that the
  semantic mode takes as parameters.
\<close>

record compaction_config =
  lookahead_turns :: nat
  ewma_alpha :: f64
  proactive_floor :: f64
  min_samples :: nat
  stall_window :: nat
  min_turns_between_compactions :: nat
  goal_window_turns :: nat

record compaction_result =
  result_text :: string
  result_encrypted :: "string option"
  result_covers :: nat
  duration_ms :: nat
  summarized_messages :: nat

datatype summary_task = Running | Finished compaction_result | Failed

record compaction_event =
  event_trigger :: string
  event_pre_tokens :: "nat option"
  event_post_tokens :: "nat option"
  event_tokens_saved :: "nat option"
  event_duration_ms :: "nat option"
  messages_dropped :: "nat option"
  messages_compacted :: "nat option"
  event_summary_chars :: "nat option"
  event_active_messages :: "nat option"

record manager =
  compacted_count :: nat
  active_summary :: "summary option"
  cached_chars :: nat
  dirty :: bool
  pending_task :: "summary_task option"
  pending_trigger :: "string option"
  pending_cutoff :: nat
  total_turns :: nat
  suppressed :: bool
  token_budget :: nat
  observed_input_tokens :: "nat option"
  last_compaction :: "compaction_event option"
  mode :: compaction_mode
  config :: compaction_config
  token_history :: "nat list"
  turns_since_last_compact :: nat

definition new_manager :: "compaction_mode \<Rightarrow> compaction_config \<Rightarrow> manager" where
  "new_manager md cfg =
     \<lparr>compacted_count = 0, active_summary = None, cached_chars = 0, dirty = False,
      pending_task = None, pending_trigger = None, pending_cutoff = 0, total_turns = 0,
      suppressed = False, token_budget = default_token_budget, observed_input_tokens = None,
      last_compaction = None, mode = md, config = cfg, token_history = [],
      turns_since_last_compact = 0\<rparr>"

definition set_budget :: "nat \<Rightarrow> manager \<Rightarrow> manager" where
  "set_budget b m = m\<lparr>token_budget := b\<rparr>"

definition set_mode :: "compaction_mode \<Rightarrow> manager \<Rightarrow> manager" where
  "set_mode md m = m\<lparr>mode := md\<rparr>"

definition update_observed_input_tokens :: "nat \<Rightarrow> manager \<Rightarrow> manager" where
  "update_observed_input_tokens n m = m\<lparr>observed_input_tokens := Some n\<rparr>"

text \<open>The cached size of the active messages.\<close>

definition invalidate :: "manager \<Rightarrow> manager" where
  "invalidate m = m\<lparr>dirty := True\<rparr>"

definition set_exact :: "nat \<Rightarrow> manager \<Rightarrow> manager" where
  "set_exact n m = m\<lparr>cached_chars := n, dirty := False\<rparr>"

definition append_exact :: "nat \<Rightarrow> manager \<Rightarrow> manager" where
  "append_exact n m = m\<lparr>cached_chars := cached_chars m + n, dirty := False\<rparr>"

definition reset_pending :: "bool \<Rightarrow> manager \<Rightarrow> manager" where
  "reset_pending maybe_active m = m\<lparr>cached_chars := 0, dirty := maybe_active\<rparr>"

section \<open>Messages added and restored\<close>

definition notify_message_added :: "manager \<Rightarrow> manager" where
  "notify_message_added m = invalidate (m\<lparr>total_turns := total_turns m + 1, suppressed := False\<rparr>)"

definition notify_message_added_blocks :: "content_block list \<Rightarrow> manager \<Rightarrow> manager" where
  "notify_message_added_blocks bs m =
     append_exact (content_char_count bs) (m\<lparr>total_turns := total_turns m + 1, suppressed := False\<rparr>)"

definition seed_restored_messages :: "nat \<Rightarrow> manager \<Rightarrow> manager" where
  "seed_restored_messages n m = reset_pending (n > 0) (m\<lparr>total_turns := n, suppressed := n > 0\<rparr>)"

definition seed_restored_messages_with :: "message list \<Rightarrow> manager \<Rightarrow> manager" where
  "seed_restored_messages_with msgs m =
     set_exact (sum_list (map message_char_count msgs))
       (m\<lparr>total_turns := length msgs, suppressed := msgs \<noteq> []\<rparr>)"

record stored_compaction_state =
  stored_summary_text :: string
  stored_encrypted :: "string option"
  stored_covers :: nat
  stored_original :: nat
  stored_count :: nat

definition restore_persisted_state :: "stored_compaction_state \<Rightarrow> nat \<Rightarrow> manager \<Rightarrow> manager" where
  "restore_persisted_state st total_messages m =
     (let count = min (stored_count st) total_messages
      in reset_pending (total_messages > count)
        (m\<lparr>pending_task := None, pending_trigger := None, pending_cutoff := 0,
           observed_input_tokens := None, last_compaction := None, token_history := [],
           turns_since_last_compact := 0, total_turns := total_messages, compacted_count := count,
           active_summary := Some \<lparr>summary_text = stored_summary_text st,
             openai_encrypted_content = stored_encrypted st, covers_up_to_turn = stored_covers st,
             original_turn_count = stored_original st\<rparr>,
           suppressed := total_messages > 0\<rparr>))"

definition active_messages :: "manager \<Rightarrow> message list \<Rightarrow> message list" where
  "active_messages m msgs = drop (min (compacted_count m) (length msgs)) msgs"

definition restore_persisted_state_with :: "stored_compaction_state \<Rightarrow> message list \<Rightarrow> manager \<Rightarrow> manager" where
  "restore_persisted_state_with st msgs m =
     (let m' = restore_persisted_state st (length msgs) m
      in set_exact (sum_list (map message_char_count (active_messages m' msgs))) m')"

definition persisted_state :: "manager \<Rightarrow> stored_compaction_state option" where
  "persisted_state m =
     map_option (\<lambda>s. \<lparr>stored_summary_text = summary_text s, stored_encrypted = openai_encrypted_content s,
       stored_covers = covers_up_to_turn s, stored_original = original_turn_count s,
       stored_count = compacted_count m\<rparr>) (active_summary m)"

section \<open>Oversized native compaction\<close>

definition openai_provider_max_chars :: nat where "openai_provider_max_chars = 10485760"
definition openai_safe_max_chars :: nat where "openai_safe_max_chars = 9500000"

definition openai_encrypted_content_is_sendable :: "string \<Rightarrow> bool" where
  "openai_encrypted_content_is_sendable e \<longleftrightarrow> length e \<le> openai_safe_max_chars"

definition openai_encrypted_content_fallback_summary :: "nat \<Rightarrow> string" where
  "openai_encrypted_content_fallback_summary n =
     ''OpenAI native compaction state was discarded because its encrypted payload was '' @ show_nat n @
     '' chars, above next-code'' @ [CHR 0x27] @ ''s safe replay limit of '' @ show_nat openai_safe_max_chars @
     '' chars (provider hard limit: '' @ show_nat openai_provider_max_chars @
     '' chars). Earlier compacted details may be unavailable; use the recent visible messages '' @
     ''and session search/tools if exact prior details are needed.''"

definition discard_oversized :: "manager \<Rightarrow> manager \<times> bool" where
  "discard_oversized m =
     (case active_summary m of
        None \<Rightarrow> (m, False)
      | Some s \<Rightarrow>
          (case openai_encrypted_content s of
             None \<Rightarrow> (m, False)
           | Some e \<Rightarrow>
               (if openai_encrypted_content_is_sendable e then (m, False)
                else
                  let fallback = openai_encrypted_content_fallback_summary (length e);
                      txt = (if trim (summary_text s) = [] then fallback
                             else if \<not> contains (summary_text s) ''OpenAI native compaction state was discarded''
                             then summary_text s @ nl @ nl @ fallback
                             else summary_text s)
                  in (m\<lparr>active_summary := Some (s\<lparr>openai_encrypted_content := None, summary_text := txt\<rparr>),
                        observed_input_tokens := None\<rparr>, True))))"

section \<open>Token estimates\<close>

definition active_messages_count :: "manager \<Rightarrow> nat" where
  "active_messages_count m = total_turns m - compacted_count m"

definition clamp_compacted_count :: "manager \<Rightarrow> message list \<Rightarrow> manager \<times> bool" where
  "clamp_compacted_count m msgs =
     (if msgs = [] \<or> compacted_count m \<le> length msgs then (m, False)
      else (set_exact 0 (m\<lparr>compacted_count := length msgs\<rparr>), True))"

definition active_message_chars_with :: "manager \<Rightarrow> message list \<Rightarrow> nat" where
  "active_message_chars_with m msgs =
     (if dirty m \<or> active_messages_count m \<noteq> length (active_messages m msgs)
      then sum_list (map message_char_count (active_messages m msgs))
      else cached_chars m)"

definition token_estimate_with :: "manager \<Rightarrow> message list \<Rightarrow> nat" where
  "token_estimate_with m msgs =
     estimate_compaction_tokens (active_summary m) (active_message_chars_with m msgs) (token_budget m)"

definition effective_token_count_with :: "manager \<Rightarrow> message list \<Rightarrow> nat" where
  "effective_token_count_with m msgs = max (token_estimate_with m msgs) (unwrap_or (observed_input_tokens m) 0)"

definition context_usage_with :: "manager \<Rightarrow> message list \<Rightarrow> f64" where
  "context_usage_with m msgs =
     f32_div (f32_of_ratio (int (effective_token_count_with m msgs)) 1) (f32_of_ratio (int (token_budget m)) 1)"

definition summary_chars :: "manager \<Rightarrow> nat" where
  "summary_chars m = (case active_summary m of None \<Rightarrow> 0 | Some s \<Rightarrow> summary_payload_char_count s)"

definition token_history_window :: nat where "token_history_window = 20"

definition push_token_snapshot :: "nat \<Rightarrow> manager \<Rightarrow> manager" where
  "push_token_snapshot tokens m =
     (let h = token_history m @ [tokens]
      in m\<lparr>token_history := (if length h > token_history_window then tl h else h),
           turns_since_last_compact := turns_since_last_compact m + 1\<rparr>)"

section \<open>When to compact\<close>

text \<open>
  What the semantic mode learns from the embedding model: whether the embedding history
  shows a shift of topic, an embedding of a text, and whether two embeddings are similar
  enough to keep a message.
\<close>

record 'e strategy =
  topic_shift :: bool
  embed :: "string \<Rightarrow> 'e option"
  similar :: "'e \<Rightarrow> 'e \<Rightarrow> bool"

definition growth_stalled :: "nat list \<Rightarrow> nat \<Rightarrow> bool option" where
  "growth_stalled history window =
     (if length history \<ge> window
      then (let recent = take window (rev history)
            in if recent = [] then None else Some (hd recent \<le> last recent))
      else Some False)"

definition anti_signals_block :: "manager \<Rightarrow> message list \<Rightarrow> bool option" where
  "anti_signals_block m msgs =
     (if pending_task m \<noteq> None then Some True
      else if f64_less (context_usage_with m msgs) (proactive_floor (config m)) then Some True
      else if length (token_history m) < min_samples (config m) then Some True
      else (case growth_stalled (token_history m) (stall_window (config m)) of
              None \<Rightarrow> None
            | Some True \<Rightarrow> Some True
            | Some False \<Rightarrow> Some (turns_since_last_compact m < min_turns_between_compactions (config m))))"

text \<open>The moving average of the growth per turn.\<close>

fun ewma_delta :: "f64 \<Rightarrow> f64 \<Rightarrow> nat \<Rightarrow> nat list \<Rightarrow> f64" where
  "ewma_delta alpha acc prev [] = acc"
| "ewma_delta alpha acc prev (x # xs) =
     (let delta = f64_diff_or_zero (f64_of_ratio (int x) 1) (f64_of_ratio (int prev) 1)
      in ewma_delta alpha
        (f64_add (f64_mul alpha delta) (f64_mul (f64_diff_or_zero (Fin 1 0) alpha) acc)) x xs)"

definition growth_exceeds_threshold :: "compaction_config \<Rightarrow> nat list \<Rightarrow> nat \<Rightarrow> bool" where
  "growth_exceeds_threshold cfg snapshots budget =
     (case snapshots of
        s0 # s1 # rest \<Rightarrow>
          (let threshold = f64_mul compaction_threshold (f64_of_ratio (int budget) 1);
               first = f64_diff_or_zero (f64_of_ratio (int s1) 1) (f64_of_ratio (int s0) 1);
               delta = ewma_delta (ewma_alpha cfg) first s1 rest;
               current = f64_of_ratio (int (last snapshots)) 1;
               projected = f64_add current (f64_mul delta (f64_of_ratio (int (lookahead_turns cfg)) 1))
           in f64_le threshold projected)
      | _ \<Rightarrow> False)"

definition should_compact_proactively :: "manager \<Rightarrow> message list \<Rightarrow> bool option" where
  "should_compact_proactively m msgs =
     map_option (\<lambda>blocked. \<not> blocked \<and>
       growth_exceeds_threshold (config m) (token_history m) (token_budget m)) (anti_signals_block m msgs)"

definition should_compact_semantic :: "'e strategy \<Rightarrow> manager \<Rightarrow> message list \<Rightarrow> bool option" where
  "should_compact_semantic st m msgs =
     (case anti_signals_block m msgs of
        None \<Rightarrow> None
      | Some True \<Rightarrow> Some False
      | Some False \<Rightarrow> (if topic_shift st then Some True else should_compact_proactively m msgs))"

definition should_compact_with :: "'e strategy \<Rightarrow> manager \<Rightarrow> message list \<Rightarrow> bool option" where
  "should_compact_with st m msgs =
     (if suppressed m then Some False
      else
        let enough = length (active_messages m msgs) > recent_turns_to_keep
        in case mode m of
             Reactive \<Rightarrow> Some (pending_task m = None \<and>
               f64_le compaction_threshold (context_usage_with m msgs) \<and> enough)
           | Proactive \<Rightarrow> (if enough then should_compact_proactively m msgs else Some False)
           | Semantic \<Rightarrow> (if enough then should_compact_semantic st m msgs else Some False))"

definition is_relevant :: "'e strategy \<Rightarrow> 'e \<Rightarrow> message \<Rightarrow> bool" where
  "is_relevant st goal msg =
     (let txt = semantic_message_text msg
      in txt \<noteq> [] \<and> (case embed st txt of None \<Rightarrow> False | Some e \<Rightarrow> similar st goal e))"

fun first_index :: "('a \<Rightarrow> bool) \<Rightarrow> 'a list \<Rightarrow> nat option" where
  "first_index P [] = None"
| "first_index P (x # xs) = (if P x then Some 0 else map_option Suc (first_index P xs))"

definition semantic_cutoff :: "'e strategy \<Rightarrow> nat \<Rightarrow> message list \<Rightarrow> nat" where
  "semantic_cutoff st goal_window active =
     (let standard = length active - recent_turns_to_keep;
          goal_turns = min goal_window (length active);
          goal_text = semantic_goal_text (drop (length active - goal_turns) active)
      in if standard = 0 then 0
         else if goal_text = [] then standard
         else (case embed st goal_text of
                 None \<Rightarrow> standard
               | Some goal \<Rightarrow>
                   (case first_index (is_relevant st goal) (take standard active) of
                      None \<Rightarrow> standard
                    | Some i \<Rightarrow> (if i < 2 then standard else i))))"

definition start_cutoff :: "'e strategy \<Rightarrow> manager \<Rightarrow> message list \<Rightarrow> nat" where
  "start_cutoff st m active =
     safe_compaction_cutoff active
       (case mode m of
          Semantic \<Rightarrow> semantic_cutoff st (goal_window_turns (config m)) active
        | _ \<Rightarrow> length active - recent_turns_to_keep)"

definition maybe_start_compaction_with :: "'e strategy \<Rightarrow> manager \<Rightarrow> message list \<Rightarrow> manager option" where
  "maybe_start_compaction_with st m msgs =
     (case should_compact_with st m msgs of
        None \<Rightarrow> None
      | Some False \<Rightarrow> Some m
      | Some True \<Rightarrow>
          (let cutoff = start_cutoff st m (active_messages m msgs)
           in if cutoff = 0 then Some m
              else Some (m\<lparr>pending_cutoff := cutoff, pending_trigger := Some (mode_label (mode m)),
                           pending_task := Some Running\<rparr>)))"

datatype force_error = InProgress | NotEnough nat | UsageTooLow f64 | NothingOld | SplitsPairs

definition force_compact_with :: "manager \<Rightarrow> message list \<Rightarrow> force_error + manager" where
  "force_compact_with m msgs =
     (let active = active_messages m msgs;
          standard = length active - recent_turns_to_keep;
          cutoff = safe_compaction_cutoff active standard
      in if pending_task m \<noteq> None then err InProgress
         else if length active \<le> recent_turns_to_keep then err (NotEnough (length active))
         else if f64_less (context_usage_with m msgs) manual_compact_min_threshold
         then err (UsageTooLow (context_usage_with m msgs))
         else if standard = 0 then err NothingOld
         else if cutoff = 0 then err SplitsPairs
         else ok (m\<lparr>pending_cutoff := cutoff, pending_trigger := Some ''manual'', pending_task := Some Running\<rparr>))"

section \<open>Applying a summary\<close>

definition drop_pending :: "manager \<Rightarrow> manager" where
  "drop_pending m = m\<lparr>pending_trigger := None, pending_cutoff := 0\<rparr>"

definition leaves_no_healthy_tail :: "manager \<Rightarrow> message list \<Rightarrow> bool" where
  "leaves_no_healthy_tail m msgs \<longleftrightarrow>
     pending_cutoff m > length (active_messages m msgs) - min_turns_to_keep"

definition advance :: "nat \<Rightarrow> message list \<Rightarrow> manager \<Rightarrow> manager" where
  "advance n msgs m =
     m\<lparr>compacted_count := (if msgs \<noteq> [] then min (compacted_count m + n) (length msgs) else compacted_count m + n)\<rparr>"

definition apply_result :: "manager \<Rightarrow> message list \<Rightarrow> compaction_result \<Rightarrow> manager" where
  "apply_result m msgs r =
     (if msgs \<noteq> [] \<and> leaves_no_healthy_tail m msgs then drop_pending m
      else
        let trigger = unwrap_or (pending_trigger m) (mode_label (mode m));
            pre_tokens = effective_token_count_with m msgs;
            compacted_chars = sum_list (map message_char_count (take (pending_cutoff m) (active_messages m msgs)));
            m1 = advance (pending_cutoff m) msgs m;
            m2 = set_exact (active_message_chars_with m1 msgs - compacted_chars) m1;
            m3 = fst (discard_oversized (m2\<lparr>active_summary := Some \<lparr>summary_text = result_text r,
              openai_encrypted_content = result_encrypted r, covers_up_to_turn = result_covers r,
              original_turn_count = pending_cutoff m\<rparr>\<rparr>));
            m4 = m3\<lparr>observed_input_tokens := None\<rparr>;
            post_tokens = effective_token_count_with m4 msgs
        in drop_pending (m4\<lparr>last_compaction := Some \<lparr>event_trigger = trigger, event_pre_tokens = Some pre_tokens,
             event_post_tokens = Some post_tokens, event_tokens_saved = Some (pre_tokens - post_tokens),
             event_duration_ms = Some (duration_ms r), messages_dropped = None,
             messages_compacted = Some (summarized_messages r),
             event_summary_chars = map_option (\<lambda>s. length (summary_text s)) (active_summary m4),
             event_active_messages = Some (active_messages_count m4)\<rparr>,
             turns_since_last_compact := 0\<rparr>))"

definition check_and_apply_compaction_with :: "manager \<Rightarrow> message list \<Rightarrow> manager" where
  "check_and_apply_compaction_with m msgs =
     (let m' = fst (clamp_compacted_count m msgs)
      in case pending_task m' of
           None \<Rightarrow> m'
         | Some Running \<Rightarrow> m'
         | Some Failed \<Rightarrow> drop_pending (m'\<lparr>pending_task := None\<rparr>)
         | Some (Finished r) \<Rightarrow> apply_result (m'\<lparr>pending_task := None\<rparr>) msgs r)"

definition check_and_apply_compaction :: "manager \<Rightarrow> manager" where
  "check_and_apply_compaction m = invalidate (check_and_apply_compaction_with m [])"

definition take_compaction_event :: "manager \<Rightarrow> manager \<times> compaction_event option" where
  "take_compaction_event m = (m\<lparr>last_compaction := None\<rparr>, last_compaction m)"

definition poll_compaction_event_with :: "manager \<Rightarrow> message list \<Rightarrow> manager \<times> compaction_event option" where
  "poll_compaction_event_with m msgs =
     take_compaction_event (check_and_apply_compaction_with m msgs)"

definition messages_for_api_with :: "manager \<Rightarrow> message list \<Rightarrow> manager \<times> message list" where
  "messages_for_api_with m msgs =
     (let m' = fst (discard_oversized (check_and_apply_compaction_with m msgs));
          active = active_messages m' msgs
      in (m',
          case active_summary m' of
            None \<Rightarrow> active
          | Some s \<Rightarrow>
              \<lparr>msg_role = User,
               content = [case openai_encrypted_content s of
                 Some e \<Rightarrow> OpenAICompaction e
               | None \<Rightarrow> Text (compacted_summary_text_block (summary_text s)) None],
               timestamp = None, tool_duration_ms = None\<rparr> # active))"

section \<open>Emergencies\<close>

datatype hard_error = TooFew nat | WouldSplit

definition suffix_chars :: "message list \<Rightarrow> nat \<Rightarrow> nat" where
  "suffix_chars active k = sum_list (map message_char_count (drop k active))"

function hard_cutoff :: "message list \<Rightarrow> nat \<Rightarrow> nat \<Rightarrow> nat" where
  "hard_cutoff active budget turns =
     (let cutoff = safe_compaction_cutoff active (length active - turns)
      in if cutoff > 0 \<and> suffix_chars active cutoff div chars_per_token \<le> budget then cutoff
         else if turns \<le> min_turns_to_keep
         then safe_compaction_cutoff active (length active - min_turns_to_keep)
         else hard_cutoff active budget (max (turns div 2) min_turns_to_keep))"
  by pat_completeness auto
termination
  by (relation "measure (\<lambda>(active, budget, turns). turns)") (auto simp: min_turns_to_keep_def)

declare hard_cutoff.simps [simp del]

definition abort_pending :: "manager \<Rightarrow> manager" where
  "abort_pending m = (if pending_task m \<noteq> None then drop_pending (m\<lparr>pending_task := None\<rparr>) else m)"

definition hard_compact_with :: "(string \<Rightarrow> bool) \<Rightarrow> manager \<Rightarrow> message list \<Rightarrow> manager \<times> (hard_error + nat)" where
  "hard_compact_with alnum m0 msgs =
     (let m = fst (clamp_compacted_count m0 msgs);
          active = active_messages m msgs
      in if length active \<le> min_turns_to_keep then (m, err (TooFew (length active)))
         else
           let pre_tokens = effective_token_count_with m msgs;
               cutoff = hard_cutoff active (token_budget m) (min recent_turns_to_keep (length active - 1))
           in if cutoff = 0 then (m, err WouldSplit)
              else
                let m1 = abort_pending m;
                    txt = build_emergency_summary_text alnum (map_option summary_text (active_summary m1)) cutoff
                      pre_tokens (token_budget m1) (take cutoff active);
                    m2 = set_exact (suffix_chars active cutoff)
                      (m1\<lparr>compacted_count := min (compacted_count m1 + cutoff) (length msgs)\<rparr>);
                    m3 = m2\<lparr>active_summary := Some \<lparr>summary_text = txt, openai_encrypted_content = None,
                      covers_up_to_turn = cutoff, original_turn_count = cutoff\<rparr>, observed_input_tokens := None\<rparr>;
                    post_tokens = effective_token_count_with m3 msgs
                in (m3\<lparr>last_compaction := Some \<lparr>event_trigger = ''hard_compact'', event_pre_tokens = Some pre_tokens,
                      event_post_tokens = Some post_tokens, event_tokens_saved = Some (pre_tokens - post_tokens),
                      event_duration_ms = Some 0, messages_dropped = Some cutoff, messages_compacted = Some cutoff,
                      event_summary_chars = map_option (\<lambda>s. length (summary_text s)) (active_summary m3),
                      event_active_messages = Some (active_messages_count m3)\<rparr>\<rparr>,
                    ok cutoff))"

definition emergency_truncate_with :: "manager \<Rightarrow> message list \<Rightarrow> manager \<times> message list \<times> nat" where
  "emergency_truncate_with m msgs =
     (let start = min (compacted_count m) (length msgs);
          (active, n) = emergency_truncate_large_payloads (drop start msgs)
            emergency_tool_result_max_chars emergency_image_max_chars
      in (if n > 0 then invalidate (m\<lparr>observed_input_tokens := None\<rparr>) else m, take start msgs @ active, n))"

definition recover_within_budget ::
  "(string \<Rightarrow> bool) \<Rightarrow> manager \<Rightarrow> message list \<Rightarrow> manager \<times> message list \<times> nat option \<times> nat" where
  "recover_within_budget alnum m msgs =
     (let (m1, r) = hard_compact_with alnum m msgs;
          dropped = (case r of Inr d \<Rightarrow> Some d | Inl _ \<Rightarrow> None)
      in if f64_less (Fin 1 0) (context_usage_with m1 msgs) \<or> dropped = None
         then (case emergency_truncate_with m1 msgs of (m2, msgs', n) \<Rightarrow> (m2, msgs', dropped, n))
         else (m1, msgs, dropped, 0))"

section \<open>Before a request\<close>

datatype compaction_action = NoAction | BackgroundStarted string | HardCompacted nat

text \<open>
  The wait for a running task: \<open>w\<close> is what the task becomes before the deadline, if it
  ends by then.
\<close>

definition wait_for_pending :: "summary_task option \<Rightarrow> manager \<Rightarrow> message list \<Rightarrow> manager" where
  "wait_for_pending w m msgs =
     (case pending_task m of
        Some Running \<Rightarrow>
          (case w of
             Some t \<Rightarrow> (if t = Running then m else check_and_apply_compaction_with (m\<lparr>pending_task := Some t\<rparr>) msgs)
           | None \<Rightarrow> m)
      | _ \<Rightarrow> check_and_apply_compaction_with m msgs)"

definition start_if_needed :: "'e strategy \<Rightarrow> manager \<Rightarrow> message list \<Rightarrow> (manager \<times> compaction_action) option" where
  "start_if_needed st m msgs =
     map_option (\<lambda>m'. (m',
       if pending_task m = None \<and> pending_task m' \<noteq> None
       then BackgroundStarted (unwrap_or (pending_trigger m') (mode_label (mode m'))) else NoAction))
       (maybe_start_compaction_with st m msgs)"

definition ensure_context_fits ::
  "'e strategy \<Rightarrow> (string \<Rightarrow> bool) \<Rightarrow> summary_task option \<Rightarrow> manager \<Rightarrow> message list \<Rightarrow>
   (manager \<times> compaction_action) option" where
  "ensure_context_fits st alnum w m msgs =
     (if f64_le critical_threshold (context_usage_with m msgs)
      then
        let m1 = (if pending_task m \<noteq> None then wait_for_pending w m msgs else m)
        in if pending_task m \<noteq> None \<and> f64_less (context_usage_with m1 msgs) critical_threshold
           then start_if_needed st m1 msgs
           else (case hard_compact_with alnum m1 msgs of
                   (m2, Inr dropped) \<Rightarrow> Some (m2, HardCompacted dropped)
                 | (m2, Inl _) \<Rightarrow> start_if_needed st m2 msgs)
      else start_if_needed st m msgs)"

end
