(* ===== verification/Compaction_Core_Facts.thy ===== *)
theory Compaction_Core_Facts
  imports Compaction_Core
begin

text \<open>
  What the pure functions compute: the safe cutoff is the last place where the kept part
  has the calls of its tool results; stripping replaces the fewest images from the front;
  truncation shortens, so that doing it again changes nothing.
\<close>

section \<open>Calls and results\<close>

fun block_call :: "content_block \<Rightarrow> string set" where
  "block_call (ToolUse i _ _ _) = {i}"
| "block_call _ = {}"

fun block_result :: "content_block \<Rightarrow> string set" where
  "block_result (ToolResult i _ _) = {i}"
| "block_result _ = {}"

definition calls :: "message list \<Rightarrow> string set" where
  "calls ms = (\<Union>m \<in> set ms. \<Union>b \<in> set (content m). block_call b)"

definition results :: "message list \<Rightarrow> string set" where
  "results ms = (\<Union>m \<in> set ms. \<Union>b \<in> set (content m). block_result b)"

text \<open>Every tool result has its call among the same messages.\<close>

definition paired :: "message list \<Rightarrow> bool" where
  "paired ms \<longleftrightarrow> results ms \<subseteq> calls ms"

lemma calls_simps [simp]:
  "calls [] = {}" "calls (ms @ ns) = calls ms \<union> calls ns" "results [] = {}"
  "results (ms @ ns) = results ms \<union> results ns"
  by (auto simp: calls_def results_def)

lemma calls_Cons: "calls (m # ms) = calls [m] \<union> calls ms" "results (m # ms) = results [m] \<union> results ms"
  by (auto simp: calls_def results_def)

lemma track_block_sets:
  "M \<inter> A = {} \<Longrightarrow> track_block b (A, M) = (A \<union> block_call b, (M \<union> block_result b) - (A \<union> block_call b))"
  by (cases b) auto

lemma track_blocks_sets:
  assumes "M \<inter> A = {}"
  shows "fold track_block bs (A, M) =
    (A \<union> (\<Union>b \<in> set bs. block_call b),
     (M \<union> (\<Union>b \<in> set bs. block_result b)) - (A \<union> (\<Union>b \<in> set bs. block_call b)))"
  using assms
proof (induction bs arbitrary: A M)
  case (Cons b bs)
  have "((M \<union> block_result b) - (A \<union> block_call b)) \<inter> (A \<union> block_call b) = {}" by blast
  from Cons.IH [OF this] show ?case
    by (simp add: track_block_sets [OF Cons.prems]) (auto simp: Un_assoc)
qed auto

definition tracked :: "message list \<Rightarrow> string set \<times> string set" where
  "tracked ms = (calls ms, results ms - calls ms)"

lemma track_message_sets:
  "track_message m (calls ms, results ms - calls ms) =
     (calls ms \<union> calls [m], (results ms \<union> results [m]) - (calls ms \<union> calls [m]))"
proof -
  have "(results ms - calls ms) \<inter> calls ms = {}" by blast
  from track_blocks_sets [OF this, of "content m"] show ?thesis
    by (simp add: track_message_def) (auto simp: calls_def [of "[m]"] results_def [of "[m]"])
qed

lemma track_message_before: "track_message m (tracked ms) = tracked (m # ms)"
  unfolding tracked_def track_message_sets calls_Cons [of m ms] by (simp add: Un_commute)

lemma track_message_after: "track_message m (tracked ms) = tracked (ms @ [m])"
  unfolding tracked_def track_message_sets by simp

lemma track_messages: "fold track_message ns (tracked ms) = tracked (ms @ ns)"
proof (induction ns arbitrary: ms)
  case (Cons n ns)
  have "fold track_message (n # ns) (tracked ms) = fold track_message ns (tracked (ms @ [n]))"
    by (simp add: track_message_after)
  with Cons show ?case by simp
qed simp

lemma tracked_paired: "snd (tracked ms) = {} \<longleftrightarrow> paired ms"
  by (auto simp: tracked_def paired_def)

definition cut_points :: "message list \<Rightarrow> nat \<Rightarrow> nat set" where
  "cut_points ms n = insert 0 {k. k \<le> n \<and> k \<le> length ms \<and> paired (drop k ms)}"

lemma finite_cut_points [simp]: "finite (cut_points ms n)"
  by (rule finite_subset [of _ "{..length ms}"]) (auto simp: cut_points_def)

lemma walk_back_exact:
  assumes "\<not> paired suffix"
  shows "walk_back (rev before) (tracked suffix) = Max (cut_points (before @ suffix) (length before))"
  using assms
proof (induction before arbitrary: suffix rule: rev_induct)
  case Nil
  have "cut_points suffix 0 = {0}" by (auto simp: cut_points_def)
  then show ?case by simp
next
  case (snoc m earlier)
  have step: "track_message m (tracked suffix) = tracked (m # suffix)"
    by (rule track_message_before)
  have all: "(earlier @ [m]) @ suffix = earlier @ m # suffix" by simp
  have last: "k \<noteq> length earlier + 1" if "k \<le> length (earlier @ [m])" "paired (drop k (earlier @ m # suffix))" for k
  proof
    assume "k = length earlier + 1"
    then have "drop k (earlier @ m # suffix) = suffix" by simp
    with that(2) snoc.prems show False by simp
  qed
  show ?case
  proof (cases "paired (m # suffix)")
    case True
    then have "length earlier \<in> cut_points (earlier @ m # suffix) (length (earlier @ [m]))"
      by (simp add: cut_points_def)
    moreover have "k \<le> length earlier" if "k \<in> cut_points (earlier @ m # suffix) (length (earlier @ [m]))" for k
      using that last [of k] by (force simp: cut_points_def)
    ultimately have "Max (cut_points (earlier @ m # suffix) (length (earlier @ [m]))) = length earlier"
      by (intro Max_eqI) simp_all
    with True show ?thesis by (simp add: step tracked_paired Let_def)
  next
    case False
    have "cut_points (earlier @ m # suffix) (length (earlier @ [m])) = cut_points (earlier @ m # suffix) (length earlier)"
      using last by (force simp: cut_points_def)
    with False snoc.IH [OF False] show ?thesis by (simp add: step tracked_paired Let_def)
  qed
qed

lemma cutoff_exact: "safe_compaction_cutoff ms n = Max (cut_points ms n)"
proof -
  define c where "c = min n (length ms)"
  have split: "take c ms @ drop c ms = ms" and len: "length (take c ms) = c" by (simp_all add: c_def)
  have points: "cut_points ms c = cut_points ms n" by (auto simp: cut_points_def c_def)
  have kept: "fold track_message (drop c ms) ({}, {}) = tracked (drop c ms)"
    using track_messages [of "drop c ms" "[]"] by (simp add: tracked_def)
  show ?thesis
  proof (cases "paired (drop c ms)")
    case True
    have "c \<in> cut_points ms n" using True by (simp add: cut_points_def c_def)
    moreover have "k \<le> c" if "k \<in> cut_points ms n" for k using that by (auto simp: cut_points_def c_def)
    ultimately have "Max (cut_points ms n) = c" by (intro Max_eqI) simp_all
    with True show ?thesis by (simp add: safe_compaction_cutoff_def kept tracked_paired flip: c_def)
  next
    case False
    with walk_back_exact [OF False, of "take c ms"] split len points show ?thesis
      by (simp add: safe_compaction_cutoff_def kept tracked_paired flip: c_def)
  qed
qed

lemma cutoff_le: "safe_compaction_cutoff ms n \<le> n" "safe_compaction_cutoff ms n \<le> length ms"
proof -
  have "Max (cut_points ms n) \<in> cut_points ms n" by (rule Max_in) (simp_all add: cut_points_def)
  then show "safe_compaction_cutoff ms n \<le> n" "safe_compaction_cutoff ms n \<le> length ms"
    by (auto simp: cutoff_exact cut_points_def)
qed

lemma cutoff_paired: "safe_compaction_cutoff ms n = 0 \<or> paired (drop (safe_compaction_cutoff ms n) ms)"
proof -
  have "Max (cut_points ms n) \<in> cut_points ms n" by (rule Max_in) (simp_all add: cut_points_def)
  then show ?thesis unfolding cutoff_exact by (auto simp: cut_points_def)
qed

section \<open>Stripping images\<close>

fun replace_images :: "nat \<Rightarrow> content_block list \<Rightarrow> content_block list" where
  "replace_images n [] = []"
| "replace_images n (Image mt d # bs) =
     (case n of 0 \<Rightarrow> Image mt d # bs | Suc k \<Rightarrow> stripped_image mt d # replace_images k bs)"
| "replace_images n (b # bs) = b # replace_images n bs"

definition payload_after :: "nat \<Rightarrow> content_block list \<Rightarrow> nat" where
  "payload_after n bs = sum_list (map image_payload (drop n (filter is_image bs)))"

lemma payload_all: "sum_list (map image_payload bs) = payload_after 0 bs"
proof (induction bs)
  case (Cons b bs)
  then show ?case by (cases b) (simp_all add: payload_after_def)
qed (simp add: payload_after_def)
lemma replace_none [simp]: "replace_images 0 bs = bs"
proof (induction bs)
  case (Cons b bs)
  then show ?case by (cases b) simp_all
qed simp

definition image_count :: "content_block list \<Rightarrow> nat" where
  "image_count bs = length (filter is_image bs)"

lemma replace_append: "replace_images n (xs @ ys) = replace_images n xs @ replace_images (n - image_count xs) ys"
proof (induction xs arbitrary: n)
  case (Cons b xs)
  then show ?case by (cases b) (auto simp: image_count_def split: nat.split)
qed (simp add: image_count_def)

text \<open>How many of the payloads have to go, the total being \<open>sum\<close>.\<close>

fun needed :: "nat \<Rightarrow> nat \<Rightarrow> nat list \<Rightarrow> nat" where
  "needed t s [] = 0"
| "needed t s (p # ps) = (if s > t then needed t (s - p) ps + 1 else 0)"

definition payloads :: "content_block list \<Rightarrow> nat list" where
  "payloads bs = map image_payload (filter is_image bs)"

lemma payloads_simps [simp]:
  "payloads [] = []" "payloads (xs @ ys) = payloads xs @ payloads ys" "length (payloads xs) = image_count xs"
  by (simp_all add: payloads_def image_count_def)

lemma needed_le: "needed t s ps \<le> length ps"
  by (induction t s ps rule: needed.induct) auto

lemma needed_zero: "s \<le> t \<Longrightarrow> needed t s ps = 0"
  by (cases ps) simp_all

lemma needed_append:
  "needed t s (ps @ qs) = needed t s ps + needed t (s - sum_list (take (needed t s ps) ps)) qs"
  by (induction t s ps rule: needed.induct) (auto simp: needed_zero)

lemma strip_blocks_needed:
  "strip_blocks t bs s =
     (replace_images (needed t s (payloads bs)) bs,
      s - sum_list (take (needed t s (payloads bs)) (payloads bs)), needed t s (payloads bs))"
proof (induction t bs s rule: strip_blocks.induct)
  case (2 t b bs s)
  show ?case
  proof (cases "is_image b")
    case True
    then obtain mt d where b: "b = Image mt d" by (cases b) simp_all
    with 2 show ?thesis by (simp add: payloads_def)
  next
    case False
    with 2 show ?thesis by (cases b) (simp_all add: payloads_def)
  qed
qed simp

lemma replace_partial: "needed t s (payloads xs) < image_count xs \<Longrightarrow>
    needed t (s - sum_list (take (needed t s (payloads xs)) (payloads xs))) qs = 0"
proof -
  have "needed t s ps < length ps \<Longrightarrow> s - sum_list (take (needed t s ps) ps) \<le> t" for ps
    by (induction t s ps rule: needed.induct) (auto simp: diff_diff_left)
  from this [of "payloads xs"] show "needed t s (payloads xs) < image_count xs \<Longrightarrow> ?thesis"
    by (simp add: needed_zero)
qed

lemma strip_contents_needed:
  "concat (fst (strip_contents t cs s)) = replace_images (needed t s (payloads (concat cs))) (concat cs)
   \<and> snd (strip_contents t cs s) = needed t s (payloads (concat cs))
   \<and> map length (fst (strip_contents t cs s)) = map length cs"
proof (induction t cs s rule: strip_contents.induct)
  case (2 t c cs s)
  let ?n = "needed t s (payloads c)"
  let ?s = "s - sum_list (take ?n (payloads c))"
  have len: "length (replace_images k bs) = length bs" for k bs
  proof (induction k bs rule: replace_images.induct)
    case (2 n mt d bs)
    then show ?case by (cases n) simp_all
  qed simp_all
  obtain cs' k where rest: "strip_contents t cs ?s = (cs', k)" by fastforce
  from 2 [OF strip_blocks_needed [symmetric] refl] rest
  have IH: "concat cs' = replace_images (needed t ?s (payloads (concat cs))) (concat cs)"
    "k = needed t ?s (payloads (concat cs))" "map length cs' = map length cs" by simp_all
  have whole: "needed t s (payloads (concat (c # cs))) = ?n + k"
    using IH(2) by (simp add: needed_append)
  have "replace_images (?n + k) (c @ concat cs) = replace_images ?n c @ replace_images k (concat cs)"
  proof (cases "?n < image_count c")
    case True
    from replace_partial [OF this] IH(2) have "k = 0" by simp
    with True show ?thesis by (simp add: replace_append)
  next
    case False
    with needed_le [of t s "payloads c"] have n: "?n = image_count c" by simp
    have "replace_images (image_count c + j) c = replace_images (image_count c) c" for j
    proof (induction c)
      case (Cons b c)
      then show ?case by (cases b) (simp_all add: image_count_def)
    qed simp
    with n show ?thesis by (simp add: replace_append)
  qed
  with IH whole show ?case by (simp add: strip_blocks_needed rest len)
qed simp

lemma needed_least: "needed t (sum_list ps) ps = (LEAST n. sum_list (drop n ps) \<le> t)"
proof (induction ps)
  case Nil
  show ?case by (rule Least_equality [symmetric]) simp_all
next
  case (Cons p ps)
  show ?case
  proof (cases "sum_list (p # ps) \<le> t")
    case True
    then have "(LEAST n. sum_list (drop n (p # ps)) \<le> t) = 0" by (intro Least_equality) simp_all
    with True show ?thesis by simp
  next
    case False
    have "(LEAST n. sum_list (drop n (p # ps)) \<le> t) = Suc (LEAST n. sum_list (drop (Suc n) (p # ps)) \<le> t)"
      using False by (intro Least_Suc [of _ "length (p # ps)"]) simp_all
    with False Cons show ?thesis by simp
  qed
qed

lemma needed_enough: "sum_list (drop (needed t (sum_list ps) ps) ps) \<le> t"
  unfolding needed_least by (rule LeastI [of _ "length ps"]) simp

lemma payload_replaced: "sum_list (map image_payload (replace_images n bs)) = sum_list (drop n (payloads bs))"
proof (induction n bs rule: replace_images.induct)
  case (2 n mt d bs)
  have "sum_list (map image_payload bs) = sum_list (payloads bs)"
    using payload_all [of bs] by (simp add: payload_after_def payloads_def)
  with 2 show ?case by (cases n) (simp_all add: payloads_def stripped_image_def)
qed (simp_all add: payloads_def)

section \<open>Truncation\<close>

lemma boundary_down_props: "boundary_down s i \<le> i \<and> is_char_boundary s (boundary_down s i)
    \<and> (\<forall>j. boundary_down s i < j \<and> j \<le> i \<longrightarrow> \<not> is_char_boundary s j)"
proof (induction i)
  case 0
  show ?case by (auto simp: boundary_down.simps is_char_boundary_def)
next
  case (Suc i)
  show ?case
  proof (cases "is_char_boundary s (Suc i)")
    case True
    then show ?thesis by (auto simp: boundary_down.simps [of s "Suc i"])
  next
    case False
    with Suc show ?thesis by (auto simp: boundary_down.simps [of s "Suc i"] le_Suc_eq)
  qed
qed

lemma truncate_length: "length (truncate_str_boundary s n) \<le> n"
  using boundary_down_props [of s n] by (auto simp: truncate_str_boundary_def min_def)

lemma boundary_up_ge: "i \<le> boundary_up s i"
proof (induction s i rule: boundary_up.induct)
  case (1 s i)
  then show ?case by (subst boundary_up.simps) (auto dest: Suc_leD)
qed

lemma tail_length: "length (tail_str_boundary s n) \<le> n"
  using boundary_up_ge [of "length s - n" s] by (auto simp: tail_str_boundary_def)

lemma show_nat_length: "n < 10 ^ k \<Longrightarrow> 0 < k \<Longrightarrow> length (show_nat n) \<le> k"
proof (induction k arbitrary: n)
  case (Suc k)
  show ?case
  proof (cases "n < 10")
    case True
    then show ?thesis by (subst show_nat.simps) simp
  next
    case False
    with Suc.prems have "n div 10 < 10 ^ k" by (simp add: div_less_iff_less_mult mult.commute)
    moreover from False have "0 < n div 10" by simp
    ultimately have "0 < k" by (cases k) auto
    with Suc.IH [OF \<open>n div 10 < 10 ^ k\<close>] False show ?thesis by (subst show_nat.simps) simp
  qed
qed simp

lemma emergency_length:
  assumes "length c < 10 ^ 20"
  shows "length (emergency_truncated_tool_result c n) \<le> n div 2 + n div 4 + 71"
proof -
  let ?k = "length c - (length (truncate_str_boundary c (n div 2)) + length (tail_str_boundary c (n div 4)))"
  have "?k < 10 ^ 20" using assms by (meson diff_le_self le_less_trans)
  then have "length (show_nat ?k) \<le> 20" by (rule show_nat_length) simp
  then show ?thesis
    using truncate_length [of c "n div 2"] tail_length [of c "n div 4"]
    by (simp add: emergency_truncated_tool_result_def Let_def nl_def)
qed

lemma map_blocks_again:
  assumes "\<And>b. b \<in> set (concat (map content ms)) \<Longrightarrow> \<not> snd (f (fst (f b)))"
  shows "snd (map_blocks f (fst (map_blocks f ms))) = 0"
proof -
  have "concat (map content (fst (map_blocks f ms))) = map (fst \<circ> f) (concat (map content ms))"
    by (simp add: map_blocks_def map_concat comp_def)
  then show ?thesis
    using assms by (simp add: map_blocks_def [of f "fst (map_blocks f ms)"] filter_empty_conv)
qed

lemma payload_truncated_once:
  assumes "\<And>i c e. b = ToolResult i c e \<Longrightarrow> length c < 10 ^ 20" and "300 \<le> max_tool"
  shows "\<not> snd (truncate_payload max_tool max_image (fst (truncate_payload max_tool max_image b)))"
proof (cases b)
  case (ToolResult i c e)
  have "max_tool div 2 + max_tool div 4 + 71 \<le> max_tool" using assms(2) by simp
  with emergency_length [OF assms(1) [OF ToolResult], of max_tool] ToolResult show ?thesis by auto
qed (auto simp: omitted_image_def)

end
