(* ===== verification/Compaction_Facts.thy ===== *)
theory Compaction_Facts
  imports Compaction_Manager Compaction_Core_Facts
begin

text \<open>
  The manager over a growing transcript: the step relation of a session, what every
  operation keeps of it, and what a hard compaction does.
\<close>

section \<open>Transcripts\<close>

text \<open>
  The calls a next message may answer: those of the last message that has calls, with only
  results after it.
\<close>

fun open_calls :: "message list \<Rightarrow> string set" where
  "open_calls [] = {}"
| "open_calls (m # earlier) =
     (if calls [m] \<noteq> {} then calls [m] else if results [m] \<noteq> {} then open_calls earlier else {})"

definition belongs :: "message \<Rightarrow> message list \<Rightarrow> bool" where
  "belongs m msgs \<longleftrightarrow> results [m] \<subseteq> calls [m] \<union> open_calls (rev msgs)"

lemma open_calls_kept:
  "paired (drop k msgs) \<Longrightarrow> k < length msgs \<or> msgs = [] \<Longrightarrow> open_calls (rev msgs) \<subseteq> calls (drop k msgs)"
proof (induction msgs rule: rev_induct)
  case (snoc m msgs)
  then have k: "k \<le> length msgs" by simp
  show ?case
  proof (cases "calls [m] = {}")
    case False
    with k show ?thesis by simp
  next
    case True
    show ?thesis
    proof (cases "results [m] = {}")
      case False
      with snoc.prems(1) True k have "calls (drop k msgs) \<noteq> {}" "paired (drop k msgs)"
        by (auto simp: paired_def)
      moreover from this have "k < length msgs" by (metis calls_simps(1) drop_all linorder_not_less)
      ultimately show ?thesis using snoc.IH True False k by simp
    qed (use True in simp)
  qed
qed simp

lemma paired_append:
  "paired (drop k msgs) \<Longrightarrow> k < length msgs \<or> msgs = [] \<and> k = 0 \<Longrightarrow> belongs m msgs \<Longrightarrow> paired (drop k (msgs @ [m]))"
  using open_calls_kept [of k msgs] by (auto simp: paired_def belongs_def; blast)

text \<open>Shortening payloads changes no id.\<close>

lemma truncate_payload_ids:
  "block_call (fst (truncate_payload t i b)) = block_call b"
  "block_result (fst (truncate_payload t i b)) = block_result b"
  by (cases b; simp add: omitted_image_def)+

lemma truncated_ids:
  "calls (fst (emergency_truncate_large_payloads ms t i)) = calls ms"
  "results (fst (emergency_truncate_large_payloads ms t i)) = results ms"
  "length (fst (emergency_truncate_large_payloads ms t i)) = length ms"
  by (simp_all add: emergency_truncate_large_payloads_def map_blocks_def calls_def results_def truncate_payload_ids)

lemma truncated_drop:
  "drop k (fst (emergency_truncate_large_payloads ms t i)) = fst (emergency_truncate_large_payloads (drop k ms) t i)"
  by (simp add: emergency_truncate_large_payloads_def map_blocks_def drop_map)

lemma truncated_paired: "paired (drop k (fst (emergency_truncate_large_payloads ms t i))) = paired (drop k ms)"
  by (simp add: truncated_drop paired_def truncated_ids)

section \<open>What the operations keep\<close>

definition tail_ok :: "manager \<Rightarrow> message list \<Rightarrow> bool" where
  "tail_ok m msgs \<longleftrightarrow>
     (compacted_count m < length msgs \<or> msgs = [] \<and> compacted_count m = 0) \<and>
     paired (drop (compacted_count m) msgs) \<and> (active_summary m = None \<longrightarrow> compacted_count m = 0)"

definition pending_ok :: "manager \<Rightarrow> message list \<Rightarrow> bool" where
  "pending_ok m msgs \<longleftrightarrow>
     (if pending_task m = None then pending_cutoff m = 0
      else compacted_count m + pending_cutoff m < length msgs \<and>
        paired (drop (compacted_count m + pending_cutoff m) msgs))"

definition session_ok :: "manager \<Rightarrow> message list \<Rightarrow> bool" where
  "session_ok m msgs \<longleftrightarrow> tail_ok m msgs \<and> pending_ok m msgs \<and> total_turns m \<le> length msgs"

lemma session_ok_count: "session_ok m msgs \<Longrightarrow> compacted_count m \<le> length msgs"
  by (auto simp: session_ok_def tail_ok_def)

lemma active_eq: "session_ok m msgs \<Longrightarrow> active_messages m msgs = drop (compacted_count m) msgs"
  using session_ok_count [of m msgs] by (simp add: active_messages_def min_def)

lemma clamp_id: "session_ok m msgs \<Longrightarrow> clamp_compacted_count m msgs = (m, False)"
  using session_ok_count [of m msgs] by (simp add: clamp_compacted_count_def)

text \<open>Operations that change only fields the invariant does not look at.\<close>

definition same_cut :: "manager \<Rightarrow> manager \<Rightarrow> bool" where
  "same_cut m m' \<longleftrightarrow>
     compacted_count m' = compacted_count m \<and> pending_task m' = pending_task m \<and>
     pending_cutoff m' = pending_cutoff m \<and> total_turns m' = total_turns m \<and>
     (active_summary m' = None \<longleftrightarrow> active_summary m = None)"

lemma same_cut_ok: "same_cut m m' \<Longrightarrow> session_ok m msgs \<Longrightarrow> session_ok m' msgs"
  by (simp add: same_cut_def session_ok_def tail_ok_def pending_ok_def)

lemma discard_same_cut: "same_cut m (fst (discard_oversized m))"
  by (simp add: discard_oversized_def same_cut_def Let_def split: option.split)

lemma start_cutoff_props:
  assumes "start_cutoff st m active > 0"
  shows "start_cutoff st m active < length active" and "paired (drop (start_cutoff st m active) active)"
proof -
  let ?n = "case mode m of Semantic \<Rightarrow> semantic_cutoff st (goal_window_turns (config m)) active
    | _ \<Rightarrow> length active - recent_turns_to_keep"
  have "first_index P xs = Some i \<Longrightarrow> i < length xs" for P and xs :: "message list" and i
    by (induction xs arbitrary: i) (auto split: if_splits)
  from this [of _ "take (length active - recent_turns_to_keep) active"]
  have "?n \<le> length active - recent_turns_to_keep"
    by (force simp: semantic_cutoff_def Let_def split: compaction_mode.split option.split)
  with assms cutoff_le [of active ?n] show "start_cutoff st m active < length active"
    by (simp add: start_cutoff_def recent_turns_to_keep_def) linarith
  from assms cutoff_paired [of active ?n] show "paired (drop (start_cutoff st m active) active)"
    by (simp add: start_cutoff_def)
qed

lemma pending_started:
  assumes "session_ok m msgs" "0 < c" "c < length (active_messages m msgs)" "paired (drop c (active_messages m msgs))"
  shows "session_ok (m\<lparr>pending_cutoff := c, pending_trigger := t, pending_task := Some Running\<rparr>) msgs"
  using assms by (simp add: active_eq session_ok_def tail_ok_def pending_ok_def add.commute less_diff_conv)

lemma maybe_start_ok:
  assumes "session_ok m msgs" "maybe_start_compaction_with st m msgs = Some m'"
  shows "session_ok m' msgs"
  using assms start_cutoff_props [of st m "active_messages m msgs"]
  by (auto simp: maybe_start_compaction_with_def Let_def pending_started split: option.splits bool.splits if_splits)

lemma force_ok:
  assumes "session_ok m msgs" "force_compact_with m msgs = Inr m'"
  shows "session_ok m' msgs"
proof -
  let ?a = "active_messages m msgs"
  let ?c = "safe_compaction_cutoff ?a (length ?a - recent_turns_to_keep)"
  from assms(2) have c: "?c \<noteq> 0" and m': "m' = m\<lparr>pending_cutoff := ?c, pending_trigger := Some ''manual'', pending_task := Some Running\<rparr>"
    by (auto simp: force_compact_with_def Let_def split: if_splits)
  have "?c < length ?a" using c cutoff_le [of ?a "length ?a - recent_turns_to_keep"]
    by (simp add: recent_turns_to_keep_def)
  moreover have "paired (drop ?c ?a)" using c cutoff_paired [of ?a "length ?a - recent_turns_to_keep"] by simp
  ultimately show ?thesis using pending_started [OF assms(1)] c by (simp add: m')
qed

lemma drop_pending_ok:
  "session_ok m msgs \<Longrightarrow> session_ok (drop_pending (m\<lparr>pending_task := None\<rparr>)) msgs"
  by (simp add: session_ok_def tail_ok_def pending_ok_def drop_pending_def)

lemma apply_ok:
  assumes "session_ok m msgs" "pending_task m = Some t"
  shows "session_ok (apply_result (m\<lparr>pending_task := None\<rparr>) msgs r) msgs"
proof -
  let ?m = "m\<lparr>pending_task := None\<rparr>"
  have ok: "compacted_count m + pending_cutoff m < length msgs" "paired (drop (compacted_count m + pending_cutoff m) msgs)"
    "total_turns m \<le> length msgs"
    using assms by (simp_all add: session_ok_def pending_ok_def)
  then have "msgs \<noteq> []" by auto
  show ?thesis
  proof (cases "leaves_no_healthy_tail ?m msgs")
    case True
    with drop_pending_ok [OF assms(1)] \<open>msgs \<noteq> []\<close> show ?thesis by (simp add: apply_result_def)
  next
    case False
    let ?m1 = "advance (pending_cutoff m) msgs ?m"
    have count: "compacted_count (apply_result ?m msgs r) = compacted_count m + pending_cutoff m"
      and rest: "pending_task (apply_result ?m msgs r) = None" "pending_cutoff (apply_result ?m msgs r) = 0"
        "total_turns (apply_result ?m msgs r) = total_turns m" "active_summary (apply_result ?m msgs r) \<noteq> None"
      using False ok(1) \<open>msgs \<noteq> []\<close>
      by (simp_all add: apply_result_def Let_def drop_pending_def advance_def set_exact_def
          discard_oversized_def split: option.split)
    then show ?thesis using ok by (auto simp: session_ok_def tail_ok_def pending_ok_def)
  qed
qed

lemma check_ok: "session_ok m msgs \<Longrightarrow> session_ok (check_and_apply_compaction_with m msgs) msgs"
  using apply_ok [of m msgs] drop_pending_ok [of m msgs]
  by (simp add: check_and_apply_compaction_with_def clamp_id split: option.split summary_task.split)

lemma task_end_ok: "session_ok m msgs \<Longrightarrow> pending_task m \<noteq> None \<Longrightarrow> session_ok (m\<lparr>pending_task := Some t\<rparr>) msgs"
  by (auto simp: session_ok_def tail_ok_def pending_ok_def)

lemma wait_ok: "session_ok m msgs \<Longrightarrow> session_ok (wait_for_pending w m msgs) msgs"
  using check_ok [of m msgs] check_ok [OF task_end_ok [of m msgs]]
  by (auto simp: wait_for_pending_def split: option.split summary_task.split)

section \<open>Hard compaction\<close>

lemma cut_points_mono: "j \<le> k \<Longrightarrow> cut_points ms j \<subseteq> cut_points ms k"
  by (auto simp: cut_points_def)

lemma cutoff_mono: "j \<le> k \<Longrightarrow> safe_compaction_cutoff ms j \<le> safe_compaction_cutoff ms k"
  unfolding cutoff_exact by (rule Max_mono [OF cut_points_mono]) (simp_all add: cut_points_def)

lemma hard_cutoff_props:
  "min_turns_to_keep \<le> turns \<Longrightarrow>
   hard_cutoff active budget turns \<le> length active - min_turns_to_keep \<and>
   (hard_cutoff active budget turns = 0 \<or> paired (drop (hard_cutoff active budget turns) active)) \<and>
   (hard_cutoff active budget turns = 0 \<longleftrightarrow> safe_compaction_cutoff active (length active - min_turns_to_keep) = 0) \<and>
   (suffix_chars active (hard_cutoff active budget turns) div chars_per_token \<le> budget \<or>
    hard_cutoff active budget turns = safe_compaction_cutoff active (length active - min_turns_to_keep))"
proof (induction active budget turns rule: hard_cutoff.induct)
  case (1 active budget turns)
  let ?c = "safe_compaction_cutoff active (length active - turns)"
  let ?e = "safe_compaction_cutoff active (length active - min_turns_to_keep)"
  have le: "?c \<le> ?e" using 1(2) by (intro cutoff_mono) simp
  have e: "?e \<le> length active - min_turns_to_keep" by (rule cutoff_le)
  consider "?c > 0" "suffix_chars active ?c div chars_per_token \<le> budget"
    | "\<not> (?c > 0 \<and> suffix_chars active ?c div chars_per_token \<le> budget)" "turns \<le> min_turns_to_keep"
    | "\<not> (?c > 0 \<and> suffix_chars active ?c div chars_per_token \<le> budget)" "\<not> turns \<le> min_turns_to_keep"
    by argo
  then show ?case
  proof cases
    case 1
    then have "hard_cutoff active budget turns = ?c" by (simp add: hard_cutoff.simps [of active budget turns])
    with 1 le e cutoff_paired [of active "length active - turns"] show ?thesis by auto
  next
    case 2
    then have "hard_cutoff active budget turns = ?e" by (auto simp: hard_cutoff.simps [of active budget turns] Let_def)
    with e cutoff_paired [of active "length active - min_turns_to_keep"] show ?thesis by simp
  next
    case 3
    then have "hard_cutoff active budget turns = hard_cutoff active budget (max (turns div 2) min_turns_to_keep)"
      by (subst hard_cutoff.simps) (auto simp: Let_def)
    with "1.IH" [OF refl] 3 show ?thesis by auto
  qed
qed

lemma abort_fields [simp]:
  "compacted_count (abort_pending m) = compacted_count m" "pending_task (abort_pending m) = None"
  "total_turns (abort_pending m) = total_turns m" "token_budget (abort_pending m) = token_budget m"
  "pending_cutoff (abort_pending m) = (if pending_task m = None then pending_cutoff m else 0)"
  by (simp_all add: abort_pending_def drop_pending_def)

lemma hard_compact_run:
  assumes "session_ok m msgs"
  defines "a \<equiv> drop (compacted_count m) msgs"
  defines "c \<equiv> hard_cutoff a (token_budget m) (min recent_turns_to_keep (length a - 1))"
  shows "length a \<le> min_turns_to_keep \<Longrightarrow> hard_compact_with alnum m msgs = (m, Inl (TooFew (length a)))"
    and "min_turns_to_keep < length a \<Longrightarrow> c = 0 \<Longrightarrow> hard_compact_with alnum m msgs = (m, Inl WouldSplit)"
    and "min_turns_to_keep < length a \<Longrightarrow> c \<noteq> 0 \<Longrightarrow>
      \<exists>x e. hard_compact_with alnum m msgs =
        ((set_exact (suffix_chars a c)
          ((abort_pending m)\<lparr>compacted_count := min (compacted_count m + c) (length msgs)\<rparr>))
         \<lparr>active_summary := Some x, observed_input_tokens := None, last_compaction := Some e\<rparr>, Inr c)"
  using assms(1)
  by (simp_all add: hard_compact_with_def clamp_id active_eq Let_def a_def c_def) blast

lemma hard_compact_ok_eq:
  assumes "session_ok m msgs" "hard_compact_with alnum m msgs = (m', Inr d)"
  shows "d = hard_cutoff (drop (compacted_count m) msgs) (token_budget m)
      (min recent_turns_to_keep (length (drop (compacted_count m) msgs) - 1))" (is "d = ?c")
    and "0 < d" "min_turns_to_keep < length (drop (compacted_count m) msgs)"
    and "compacted_count m' = min (compacted_count m + d) (length msgs)"
    and "pending_task m' = None" "pending_task m \<noteq> None \<Longrightarrow> pending_cutoff m' = 0"
    and "pending_task m = None \<Longrightarrow> pending_cutoff m' = pending_cutoff m"
    and "total_turns m' = total_turns m" "active_summary m' \<noteq> None" "\<not> dirty m'" "token_budget m' = token_budget m"
    and "cached_chars m' = suffix_chars (drop (compacted_count m) msgs) d"
proof -
  show few: "min_turns_to_keep < length (drop (compacted_count m) msgs)"
    using hard_compact_run(1) [OF assms(1), of alnum] assms(2) by (metis not_less old.sum.distinct(1) prod.inject)
  have c: "?c \<noteq> 0"
    using hard_compact_run(2) [OF assms(1) few, of alnum] assms(2) by force
  obtain x e where run: "hard_compact_with alnum m msgs =
      ((set_exact (suffix_chars (drop (compacted_count m) msgs) ?c)
        ((abort_pending m)\<lparr>compacted_count := min (compacted_count m + ?c) (length msgs)\<rparr>))
       \<lparr>active_summary := Some x, observed_input_tokens := None, last_compaction := Some e\<rparr>, Inr ?c)"
    using hard_compact_run(3) [OF assms(1) few c, of alnum] by blast
  from run assms(2) show d: "d = ?c" by simp
  with c show "0 < d" by simp
  from run assms(2) d have m': "m' = (set_exact (suffix_chars (drop (compacted_count m) msgs) d)
        ((abort_pending m)\<lparr>compacted_count := min (compacted_count m + d) (length msgs)\<rparr>))
       \<lparr>active_summary := Some x, observed_input_tokens := None, last_compaction := Some e\<rparr>" by simp
  show "compacted_count m' = min (compacted_count m + d) (length msgs)"
    "pending_task m' = None" "pending_task m \<noteq> None \<Longrightarrow> pending_cutoff m' = 0"
    "pending_task m = None \<Longrightarrow> pending_cutoff m' = pending_cutoff m"
    "total_turns m' = total_turns m" "active_summary m' \<noteq> None" "\<not> dirty m'" "token_budget m' = token_budget m"
    "cached_chars m' = suffix_chars (drop (compacted_count m) msgs) d"
    unfolding m' by (auto simp: set_exact_def)
qed

lemma hard_compact_err_eq:
  assumes "session_ok m msgs" "hard_compact_with alnum m msgs = (m', Inl e)"
  shows "m' = m"
proof -
  let ?a = "drop (compacted_count m) msgs"
  let ?c = "hard_cutoff ?a (token_budget m) (min recent_turns_to_keep (length ?a - 1))"
  consider "length ?a \<le> min_turns_to_keep" | "min_turns_to_keep < length ?a" "?c = 0"
    | "min_turns_to_keep < length ?a" "?c \<noteq> 0" by linarith
  then show ?thesis
  proof cases
    case 1
    from hard_compact_run(1) [OF assms(1) this, of alnum] assms(2) show ?thesis by simp
  next
    case 2
    from hard_compact_run(2) [OF assms(1) this, of alnum] assms(2) show ?thesis by simp
  next
    case 3
    from hard_compact_run(3) [OF assms(1) this, of alnum] assms(2) show ?thesis by force
  qed
qed

lemma hard_turns: "min_turns_to_keep < n \<Longrightarrow> min_turns_to_keep \<le> min recent_turns_to_keep (n - 1)"
  by (simp add: min_turns_to_keep_def recent_turns_to_keep_def)

lemma hard_dropped:
  assumes "session_ok m msgs" "hard_compact_with alnum m msgs = (m', Inr d)"
  shows "compacted_count m + d + min_turns_to_keep \<le> length msgs"
    and "compacted_count m' = compacted_count m + d" and "paired (drop (compacted_count m + d) msgs)"
proof -
  note eq = hard_compact_ok_eq [OF assms]
  note props = hard_cutoff_props [OF hard_turns [OF eq(3)], of "drop (compacted_count m) msgs" "token_budget m"]
  from props eq(1) have "d \<le> length (drop (compacted_count m) msgs) - min_turns_to_keep" by simp
  with eq(2,3) show le: "compacted_count m + d + min_turns_to_keep \<le> length msgs" by simp
  then show "compacted_count m' = compacted_count m + d" using eq(4) by simp
  from props eq(1,2) have "paired (drop d (drop (compacted_count m) msgs))" by simp
  then show "paired (drop (compacted_count m + d) msgs)" by (simp add: add.commute)
qed

lemma hard_ok:
  assumes "session_ok m msgs"
  shows "session_ok (fst (hard_compact_with alnum m msgs)) msgs"
proof (cases "hard_compact_with alnum m msgs")
  case (Pair m' r)
  show ?thesis
  proof (cases r)
    case (Inl e)
    with Pair hard_compact_err_eq [OF assms, of alnum m' e] assms show ?thesis by simp
  next
    case (Inr d)
    note eq = hard_compact_ok_eq [OF assms Pair [unfolded Inr]] and dropped = hard_dropped [OF assms Pair [unfolded Inr]]
    have pending: "pending_cutoff m' = 0"
      using eq(6,7) assms by (cases "pending_task m") (auto simp: session_ok_def pending_ok_def)
    have "compacted_count m' < length msgs" "paired (drop (compacted_count m') msgs)"
      using dropped by (simp_all add: min_turns_to_keep_def)
    moreover have "total_turns m' \<le> length msgs" using eq(8) assms by (simp add: session_ok_def)
    ultimately show ?thesis
      using pending eq(5,9) unfolding Pair by (auto simp: session_ok_def tail_ok_def pending_ok_def)
  qed
qed
section \<open>Sessions\<close>

lemma truncate_ok:
  assumes "session_ok m msgs" "emergency_truncate_with m msgs = (m', msgs', n)"
  shows "session_ok m' msgs'" and "n = 0 \<Longrightarrow> m' = m"
proof -
  let ?k = "compacted_count m"
  let ?t = "emergency_truncate_large_payloads (drop ?k msgs) emergency_tool_result_max_chars emergency_image_max_chars"
  have min: "min ?k (length msgs) = ?k" using session_ok_count [OF assms(1)] by simp
  from assms(2) have eq: "msgs' = take ?k msgs @ fst ?t" "m' = m \<or> m' = invalidate (m\<lparr>observed_input_tokens := None\<rparr>)"
    and none: "n = 0 \<Longrightarrow> m' = m"
    by (auto simp: emergency_truncate_with_def Let_def min split: prod.splits if_splits)
  have fields: "same_cut m m'" using eq(2) by (auto simp: same_cut_def invalidate_def)
  have len: "length msgs' = length msgs" using session_ok_count [OF assms(1)] by (simp add: eq(1) truncated_ids)
  have "paired (drop (?k + j) msgs') = paired (drop (?k + j) msgs)" for j
    using session_ok_count [OF assms(1)] truncated_paired [of j "drop ?k msgs"] by (simp add: eq(1) add.commute)
  from this [of 0] this [of "pending_cutoff m"] have "session_ok m msgs'"
    using assms(1) len by (auto simp: session_ok_def tail_ok_def pending_ok_def)
  then show "session_ok m' msgs'" by (rule same_cut_ok [OF fields])
  show "n = 0 \<Longrightarrow> m' = m" by (rule none)
qed

lemma append_ok:
  assumes "session_ok m msgs" "belongs msg msgs"
  shows "session_ok m (msgs @ [msg])" and "session_ok (notify_message_added_blocks (content msg) m) (msgs @ [msg])"
    and "session_ok (notify_message_added m) (msgs @ [msg])"
proof -
  have tail: "paired (drop (compacted_count m) (msgs @ [msg]))"
    using assms by (intro paired_append) (auto simp: session_ok_def tail_ok_def)
  have "pending_task m \<noteq> None \<Longrightarrow> paired (drop (compacted_count m + pending_cutoff m) (msgs @ [msg]))"
    using assms by (intro paired_append) (auto simp: session_ok_def pending_ok_def)
  with tail show "session_ok m (msgs @ [msg])"
    using assms(1) by (auto simp: session_ok_def tail_ok_def pending_ok_def)
  with tail show "session_ok (notify_message_added m) (msgs @ [msg])"
    using assms(1)
    by (auto simp: session_ok_def tail_ok_def pending_ok_def notify_message_added_def invalidate_def)
  from tail \<open>session_ok m (msgs @ [msg])\<close> show "session_ok (notify_message_added_blocks (content msg) m) (msgs @ [msg])"
    using assms(1)
    by (auto simp: session_ok_def tail_ok_def pending_ok_def notify_message_added_blocks_def append_exact_def)
qed

lemma start_if_needed_ok:
  "session_ok m msgs \<Longrightarrow> start_if_needed st m msgs = Some (m', a) \<Longrightarrow> session_ok m' msgs"
  by (auto simp: start_if_needed_def intro: maybe_start_ok)

lemma ensure_cases:
  assumes "ensure_context_fits st alnum w m msgs = Some (m', a)"
  obtains m1 where "m1 = m \<or> m1 = wait_for_pending w m msgs" and "start_if_needed st m1 msgs = Some (m', a)"
  | m1 where "m1 = m \<or> m1 = wait_for_pending w m msgs"
      and "m' = fst (hard_compact_with alnum m1 msgs) \<or> start_if_needed st (fst (hard_compact_with alnum m1 msgs)) msgs = Some (m', a)"
  using assms
  by (auto simp: ensure_context_fits_def Let_def split: if_splits prod.splits sum.splits) (metis fst_conv)+

lemma ensure_ok:
  assumes "session_ok m msgs" "ensure_context_fits st alnum w m msgs = Some (m', a)"
  shows "session_ok m' msgs"
  using assms(2)
proof (cases rule: ensure_cases)
  case (1 m1)
  with wait_ok [OF assms(1), of w] assms(1) have "session_ok m1 msgs" by auto
  with 1(2) show ?thesis by (rule start_if_needed_ok [rotated])
next
  case (2 m1)
  with wait_ok [OF assms(1), of w] assms(1) have "session_ok m1 msgs" by auto
  then have "session_ok (fst (hard_compact_with alnum m1 msgs)) msgs" by (rule hard_ok)
  with 2(2) show ?thesis using start_if_needed_ok by blast
qed

lemma recover_ok:
  assumes "session_ok m msgs" "recover_within_budget alnum m msgs = (m', msgs', d, n)"
  shows "session_ok m' msgs'"
proof -
  obtain m1 r where hard: "hard_compact_with alnum m msgs = (m1, r)" by fastforce
  have "session_ok m1 msgs" using hard_ok [OF assms(1), of alnum] by (simp add: hard)
  then show ?thesis
    using assms(2) truncate_ok(1) [of m1 msgs]
    by (auto simp: recover_within_budget_def hard Let_def split: prod.splits if_splits)
qed

lemma restored_ok:
  assumes "session_ok m msgs" "persisted_state m = Some st"
  shows "session_ok (restore_persisted_state_with st msgs (new_manager md cfg)) msgs"
proof -
  from assms(2) have "stored_count st = compacted_count m" by (auto simp: persisted_state_def)
  with assms(1) show ?thesis
    by (auto simp: restore_persisted_state_with_def restore_persisted_state_def set_exact_def reset_pending_def
        Let_def new_manager_def session_ok_def tail_ok_def pending_ok_def)
qed

lemma seeded_ok:
  assumes "session_ok m msgs" "active_summary m = None"
  shows "session_ok (seed_restored_messages_with msgs (new_manager md cfg)) msgs"
  using assms
  by (auto simp: seed_restored_messages_with_def set_exact_def new_manager_def session_ok_def tail_ok_def pending_ok_def)

text \<open>
  The steps of a session whose transcript only grows: a message is added, which the manager
  may not hear of when its lock is taken, or hear of without its content; the background
  task ends; the operations of the manager; token reports; and a restart from the view the
  manager persisted. The label tells whether payloads of the transcript were shortened or
  a message was reported without its content. Not steps of such a session: rewinding the
  conversation, inserting a missing tool result in its middle, and restoring the count of
  a provider's own compaction (\<open>rewound_request_is_empty\<close> in \<open>Compaction_Properties\<close> shows
  what a rewind does).
\<close>

inductive session_step :: "bool \<Rightarrow> manager \<times> message list \<Rightarrow> manager \<times> message list \<Rightarrow> bool" where
  added: "belongs msg msgs \<Longrightarrow>
    session_step False (m, msgs) (notify_message_added_blocks (content msg) m, msgs @ [msg])"
| noticed: "belongs msg msgs \<Longrightarrow> session_step True (m, msgs) (notify_message_added m, msgs @ [msg])"
| missed: "belongs msg msgs \<Longrightarrow> session_step False (m, msgs) (m, msgs @ [msg])"
| task_ends: "pending_task m = Some Running \<Longrightarrow> session_step False (m, msgs) (m\<lparr>pending_task := Some t\<rparr>, msgs)"
| checked: "session_step False (m, msgs) (check_and_apply_compaction_with m msgs, msgs)"
| polled: "session_step False (m, msgs) (fst (poll_compaction_event_with m msgs), msgs)"
| requested: "session_step False (m, msgs) (fst (messages_for_api_with m msgs), msgs)"
| forced: "force_compact_with m msgs = Inr m' \<Longrightarrow> session_step False (m, msgs) (m', msgs)"
| fitted: "ensure_context_fits (st :: f64 list strategy) alnum w m msgs = Some (m', a) \<Longrightarrow>
    session_step False (m, msgs) (m', msgs)"
| hard: "session_step False (m, msgs) (fst (hard_compact_with alnum m msgs), msgs)"
| truncated: "emergency_truncate_with m msgs = (m', msgs', n) \<Longrightarrow> session_step (n > 0) (m, msgs) (m', msgs')"
| recovered: "recover_within_budget alnum m msgs = (m', msgs', d, n) \<Longrightarrow>
    session_step (n > 0) (m, msgs) (m', msgs')"
| observed: "session_step False (m, msgs) (update_observed_input_tokens t m, msgs)"
| snapshot: "session_step False (m, msgs) (push_token_snapshot t m, msgs)"
| budget: "session_step False (m, msgs) (set_budget b m, msgs)"
| mode_set: "session_step False (m, msgs) (set_mode md m, msgs)"
| restored: "persisted_state m = Some st \<Longrightarrow>
    session_step False (m, msgs) (restore_persisted_state_with st msgs (new_manager md cfg), msgs)"
| seeded: "active_summary m = None \<Longrightarrow>
    session_step False (m, msgs) (seed_restored_messages_with msgs (new_manager md cfg), msgs)"

inductive session :: "bool \<Rightarrow> manager \<Rightarrow> message list \<Rightarrow> bool" where
  start: "session False (new_manager md cfg) []"
| step: "session f m msgs \<Longrightarrow> session_step l (m, msgs) (m', msgs') \<Longrightarrow> session (f \<or> l) m' msgs'"

lemma api_fst: "fst (messages_for_api_with m msgs) = fst (discard_oversized (check_and_apply_compaction_with m msgs))"
  by (simp add: messages_for_api_with_def Let_def)

lemma same_cut_field:
  "same_cut m (update_observed_input_tokens n m)" "same_cut m (push_token_snapshot t m)"
  "same_cut m (set_budget b m)" "same_cut m (set_mode md m)" "same_cut m (fst (take_compaction_event m))"
  by (simp_all add: same_cut_def push_token_snapshot_def update_observed_input_tokens_def set_budget_def set_mode_def
      take_compaction_event_def Let_def)

lemma step_ok: "session_step l s s' \<Longrightarrow> session_ok (fst s) (snd s) \<Longrightarrow> session_ok (fst s') (snd s')"
proof (induction rule: session_step.induct)
  case (polled m msgs)
  then show ?case
    using same_cut_ok [OF same_cut_field(5)] check_ok [of m msgs] by (simp add: poll_compaction_event_with_def)
next
  case (requested m msgs)
  then show ?case using same_cut_ok [OF discard_same_cut] check_ok [of m msgs] by (simp add: api_fst)
qed (auto intro: append_ok task_end_ok check_ok force_ok ensure_ok hard_ok truncate_ok(1) recover_ok restored_ok
    seeded_ok same_cut_ok [OF same_cut_field(1)] same_cut_ok [OF same_cut_field(2)]
    same_cut_ok [OF same_cut_field(3)] same_cut_ok [OF same_cut_field(4)])

lemma session_invariant: "session f m msgs \<Longrightarrow> session_ok m msgs"
proof (induction rule: session.induct)
  case (start md cfg)
  show ?case by (simp add: session_ok_def tail_ok_def pending_ok_def new_manager_def paired_def)
next
  case (step f m msgs l m' msgs')
  from step_ok [OF step(2)] step(3) show ?case by simp
qed

end
