(* ===== verification/Compaction_Estimate.thy ===== *)
theory Compaction_Estimate
  imports Compaction_Facts
begin

text \<open>
  The rolling size of the active messages: while no payload of the transcript is
  shortened, the cached size is exact whenever it is used.
\<close>

definition estimate_ok :: "manager \<Rightarrow> message list \<Rightarrow> bool" where
  "estimate_ok m msgs \<longleftrightarrow>
     \<not> dirty m \<and> (total_turns m = length msgs \<longrightarrow> cached_chars m = suffix_chars msgs (compacted_count m))"

lemma suffix_chars_add: "suffix_chars (drop k msgs) d = suffix_chars msgs (k + d)"
  by (simp add: suffix_chars_def add.commute)

lemma suffix_chars_split:
  "suffix_chars msgs k = sum_list (map message_char_count (take n (drop k msgs))) + suffix_chars msgs (k + n)"
proof -
  have "map message_char_count (drop k msgs) =
      map message_char_count (take n (drop k msgs)) @ map message_char_count (drop n (drop k msgs))"
    by (metis append_take_drop_id map_append)
  then show ?thesis by (simp add: suffix_chars_def add.commute)
qed

lemma exact_chars:
  assumes "session_ok m msgs" "estimate_ok m msgs"
  shows "active_message_chars_with m msgs = suffix_chars msgs (compacted_count m)"
proof -
  have "total_turns m = length msgs" if "total_turns m - compacted_count m = length msgs - compacted_count m"
    using assms(1) that by (auto simp: session_ok_def tail_ok_def)
  with assms show ?thesis
    by (auto simp: active_message_chars_with_def active_eq active_messages_count_def estimate_ok_def suffix_chars_def)
qed

definition same_estimate :: "manager \<Rightarrow> manager \<Rightarrow> bool" where
  "same_estimate m m' \<longleftrightarrow>
     compacted_count m' = compacted_count m \<and> cached_chars m' = cached_chars m \<and> dirty m' = dirty m \<and>
     total_turns m' = total_turns m"

lemma same_estimate_ok: "same_estimate m m' \<Longrightarrow> estimate_ok m msgs \<Longrightarrow> estimate_ok m' msgs"
  by (simp add: same_estimate_def estimate_ok_def)

lemma same_estimates:
  "same_estimate m (m\<lparr>pending_task := t\<rparr>)" "same_estimate m (drop_pending m)"
  "same_estimate m (drop_pending (m\<lparr>pending_task := t\<rparr>))"
  "same_estimate m (update_observed_input_tokens x m)" "same_estimate m (push_token_snapshot n m)"
  "same_estimate m (set_budget b m)" "same_estimate m (set_mode md m)"
  "same_estimate m (fst (take_compaction_event m))" "same_estimate m (fst (discard_oversized m))"
  by (simp_all add: same_estimate_def update_observed_input_tokens_def set_budget_def set_mode_def take_compaction_event_def drop_pending_def push_token_snapshot_def discard_oversized_def Let_def
      split: option.split)

lemma started_estimate:
  "maybe_start_compaction_with st m msgs = Some m' \<Longrightarrow> same_estimate m m'"
  "force_compact_with m msgs = Inr m' \<Longrightarrow> same_estimate m m'"
  by (auto simp: maybe_start_compaction_with_def force_compact_with_def Let_def same_estimate_def
      split: option.splits bool.splits if_splits)

lemma apply_estimate:
  assumes "session_ok m msgs" "estimate_ok m msgs" "pending_task m = Some t"
  shows "estimate_ok (apply_result (m\<lparr>pending_task := None\<rparr>) msgs r) msgs"
proof -
  let ?m = "m\<lparr>pending_task := None\<rparr>"
  let ?c = "compacted_count m + pending_cutoff m"
  have bound: "?c < length msgs" "total_turns m \<le> length msgs"
    using assms(1,3) by (simp_all add: session_ok_def pending_ok_def)
  then have "msgs \<noteq> []" by auto
  have est: "estimate_ok ?m msgs" by (rule same_estimate_ok [OF same_estimates(1) assms(2)])
  show ?thesis
  proof (cases "leaves_no_healthy_tail ?m msgs")
    case True
    with \<open>msgs \<noteq> []\<close> show ?thesis
      by (simp add: apply_result_def) (rule same_estimate_ok [OF same_estimates(2) est])
  next
    case False
    let ?m1 = "advance (pending_cutoff m) msgs ?m"
    have m1: "compacted_count ?m1 = ?c" "total_turns ?m1 = total_turns m" "dirty ?m1 = dirty m" "cached_chars ?m1 = cached_chars m"
      using bound \<open>msgs \<noteq> []\<close> by (simp_all add: advance_def)
    have final: "compacted_count (apply_result ?m msgs r) = ?c" "\<not> dirty (apply_result ?m msgs r)"
      "total_turns (apply_result ?m msgs r) = total_turns m"
      "cached_chars (apply_result ?m msgs r) = active_message_chars_with ?m1 msgs -
         sum_list (map message_char_count (take (pending_cutoff m) (active_messages ?m msgs)))"
      using False bound \<open>msgs \<noteq> []\<close>
      by (simp_all add: apply_result_def Let_def drop_pending_def advance_def set_exact_def discard_oversized_def
          split: option.split)
    have active: "active_messages ?m msgs = drop (compacted_count m) msgs"
      using active_eq [OF assms(1)] by (simp add: active_messages_def)
    have "active_message_chars_with ?m1 msgs = cached_chars m" if "total_turns m = length msgs"
      using that assms(2) bound by (simp add: active_message_chars_with_def m1 active_messages_def active_messages_count_def estimate_ok_def)
    moreover have "cached_chars m = suffix_chars msgs (compacted_count m)" if "total_turns m = length msgs"
      using that assms(2) by (simp add: estimate_ok_def)
    ultimately show ?thesis
      using suffix_chars_split [of msgs "compacted_count m" "pending_cutoff m"]
      by (simp add: estimate_ok_def final active)
  qed
qed

lemma check_estimate:
  "session_ok m msgs \<Longrightarrow> estimate_ok m msgs \<Longrightarrow> estimate_ok (check_and_apply_compaction_with m msgs) msgs"
  using apply_estimate [of m msgs] same_estimate_ok [OF same_estimates(3), of m msgs]
  by (simp add: check_and_apply_compaction_with_def clamp_id split: option.split summary_task.split)

lemma wait_estimate:
  assumes "session_ok m msgs" "estimate_ok m msgs"
  shows "estimate_ok (wait_for_pending w m msgs) msgs"
proof -
  have "estimate_ok (check_and_apply_compaction_with (m\<lparr>pending_task := Some t\<rparr>) msgs) msgs"
    if "pending_task m = Some Running" for t
    using that assms by (intro check_estimate task_end_ok same_estimate_ok [OF same_estimates(1)]) simp_all
  with assms check_estimate [OF assms] show ?thesis
    by (auto simp: wait_for_pending_def split: option.split summary_task.split)
qed

lemma hard_estimate:
  assumes "session_ok m msgs" "estimate_ok m msgs"
  shows "estimate_ok (fst (hard_compact_with alnum m msgs)) msgs"
proof (cases "hard_compact_with alnum m msgs")
  case (Pair m' r)
  show ?thesis
  proof (cases r)
    case (Inl e)
    with Pair hard_compact_err_eq [OF assms(1), of alnum m' e] assms show ?thesis by simp
  next
    case (Inr d)
    with hard_compact_ok_eq [OF assms(1), of alnum m' d] hard_dropped(2) [OF assms(1), of alnum m' d] Pair
    show ?thesis by (simp add: estimate_ok_def suffix_chars_add)
  qed
qed

lemma start_if_needed_estimate:
  "estimate_ok m msgs \<Longrightarrow> start_if_needed st m msgs = Some (m', a) \<Longrightarrow> estimate_ok m' msgs"
  by (auto simp: start_if_needed_def intro: same_estimate_ok [OF started_estimate(1)])

lemma ensure_estimate:
  assumes "session_ok m msgs" "estimate_ok m msgs" "ensure_context_fits st alnum w m msgs = Some (m', a)"
  shows "estimate_ok m' msgs"
  using assms(3)
proof (cases rule: ensure_cases)
  case (1 m1)
  with wait_estimate [OF assms(1,2), of w] assms(2) have "estimate_ok m1 msgs" by auto
  with 1(2) show ?thesis by (rule start_if_needed_estimate [rotated])
next
  case (2 m1)
  with wait_estimate [OF assms(1,2), of w] assms(2) wait_ok [OF assms(1), of w] assms(1)
  have "estimate_ok m1 msgs" "session_ok m1 msgs" by auto
  then have "estimate_ok (fst (hard_compact_with alnum m1 msgs)) msgs" by (intro hard_estimate)
  with 2(2) show ?thesis using start_if_needed_estimate by blast
qed

lemma truncate_none:
  assumes "emergency_truncate_with m msgs = (m', msgs', 0)"
  shows "msgs' = msgs" "m' = m"
proof -
  have same: "fst (map_blocks f ms) = ms" if "snd (map_blocks f ms) = 0" "\<And>b. \<not> snd (f b) \<Longrightarrow> fst (f b) = b" for f ms
  proof -
    have "map (fst \<circ> f) (content m) = content m" if "m \<in> set ms" for m
      using that \<open>snd (map_blocks f ms) = 0\<close> \<open>\<And>b. \<not> snd (f b) \<Longrightarrow> fst (f b) = b\<close>
      by (intro map_idI) (auto simp: map_blocks_def filter_empty_conv)
    then show ?thesis by (simp add: map_blocks_def map_idI)
  qed
  have id: "fst (truncate_payload t i b) = b" if "\<not> snd (truncate_payload t i b)" for t i b
    using that by (cases b) (auto split: if_splits)
  let ?k = "min (compacted_count m) (length msgs)"
  let ?t = "emergency_truncate_large_payloads (drop ?k msgs) emergency_tool_result_max_chars emergency_image_max_chars"
  have t: "snd ?t = 0" "msgs' = take ?k msgs @ fst ?t" "m' = m"
    using assms by (simp_all add: emergency_truncate_with_def Let_def split: prod.splits if_splits)
  have "fst ?t = drop ?k msgs"
    using t(1) unfolding emergency_truncate_large_payloads_def by (rule same) (rule id)
  then show "msgs' = msgs" "m' = m" using t(2,3) by simp_all
qed

lemma step_estimate:
  assumes "session_step l s s'" "\<not> l" "session_ok (fst s) (snd s)" "estimate_ok (fst s) (snd s)"
  shows "estimate_ok (fst s') (snd s')"
  using assms
proof (induction rule: session_step.induct)
  case (added msg msgs m)
  then have "compacted_count m \<le> length msgs" by (intro session_ok_count) simp
  with added show ?case
    by (auto simp: estimate_ok_def notify_message_added_blocks_def append_exact_def suffix_chars_def message_char_count_def)
next
  case (missed msg msgs m)
  then show ?case by (auto simp: estimate_ok_def session_ok_def)
next
  case (polled m msgs)
  then show ?case
    using same_estimate_ok [OF same_estimates(8)] check_estimate [of m msgs]
    by (simp add: poll_compaction_event_with_def Let_def)
next
  case (requested m msgs)
  then show ?case using same_estimate_ok [OF same_estimates(9)] check_estimate [of m msgs] by (simp add: api_fst)
next
  case (truncated m msgs m' msgs' n)
  with truncate_none [of m msgs m' msgs'] show ?case by simp
next
  case (recovered alnum m msgs m' msgs' d n)
  obtain m1 r where hard: "hard_compact_with alnum m msgs = (m1, r)" by fastforce
  have "estimate_ok m1 msgs" using recovered hard_estimate [of m msgs alnum] by (simp add: hard)
  with recovered truncate_none [of m1 msgs m' msgs'] show ?case
    by (auto simp: recover_within_budget_def hard Let_def split: prod.splits if_splits)
next
  case (restored m st msgs md cfg)
  then show ?case
    by (simp add: restore_persisted_state_with_def set_exact_def Let_def estimate_ok_def suffix_chars_def
        restore_persisted_state_def reset_pending_def active_messages_def min_def)
next
  case (seeded m msgs md cfg)
  then show ?case
    by (simp add: seed_restored_messages_with_def set_exact_def estimate_ok_def suffix_chars_def new_manager_def)
qed (auto intro: check_estimate hard_estimate ensure_estimate same_estimate_ok [OF started_estimate(2)]
    same_estimate_ok [OF same_estimates(1)] same_estimate_ok [OF same_estimates(4)]
    same_estimate_ok [OF same_estimates(5)] same_estimate_ok [OF same_estimates(6)]
    same_estimate_ok [OF same_estimates(7)])

lemma session_estimate: "session f m msgs \<Longrightarrow> \<not> f \<Longrightarrow> estimate_ok m msgs"
proof (induction rule: session.induct)
  case (start md cfg)
  show ?case by (simp add: estimate_ok_def new_manager_def suffix_chars_def)
next
  case (step f m msgs l m' msgs')
  then show ?case using step_estimate [OF step(2)] session_invariant [OF step(1)] by simp
qed

end
