(* ===== verification/Compaction_Properties.thy ===== *)
theory Compaction_Properties
  imports Compaction_Estimate
begin

text \<open>
  The properties of context compaction.
\<close>

definition demo_config :: compaction_config where
  "demo_config = \<lparr>lookahead_turns = 15, ewma_alpha = f32_of_ratio 3 10, proactive_floor = f32_of_ratio 40 100, min_samples = 3, stall_window = 5,
     min_turns_between_compactions = 10, goal_window_turns = 5\<rparr>"

definition demo_text :: "string \<Rightarrow> message" where
  "demo_text s = \<lparr>msg_role = User, content = [Text s None], timestamp = None, tool_duration_ms = None\<rparr>"

definition demo_call :: message where
  "demo_call = \<lparr>msg_role = Assistant, content = [ToolUse ''c1'' ''read'' ''{}'' None],
     timestamp = None, tool_duration_ms = None\<rparr>"

definition demo_result :: message where
  "demo_result = \<lparr>msg_role = User, content = [ToolResult ''c1'' ''ok'' None],
     timestamp = None, tool_duration_ms = None\<rparr>"

lemmas demo_messages = demo_text_def demo_call_def demo_result_def

lemma demo_session:
  "session False (notify_message_added_blocks (content demo_result)
       (notify_message_added_blocks (content demo_call) (new_manager Reactive demo_config)))
     [demo_call, demo_result]"
proof -
  let ?m = "new_manager Reactive demo_config"
  have "belongs demo_call []" by (simp add: belongs_def results_def demo_messages)
  from session.step [OF session.start session_step.added [OF this]]
  have one: "session False (notify_message_added_blocks (content demo_call) ?m) [demo_call]" by simp
  have "belongs demo_result [demo_call]" by (simp add: belongs_def results_def calls_def demo_messages)
  from session.step [OF one session_step.added [OF this]] show ?thesis by simp
qed

definition demo_three :: manager where
  "demo_three = notify_message_added_blocks (content (demo_text ''c'')) (notify_message_added_blocks (content (demo_text ''b''))
     (notify_message_added_blocks (content (demo_text ''a'')) (new_manager Reactive demo_config)))"

lemma demo_three_session: "session False demo_three [demo_text ''a'', demo_text ''b'', demo_text ''c'']"
proof -
  have plain: "belongs (demo_text s) msgs" for s msgs by (simp add: belongs_def results_def demo_messages)
  note added = session.step [OF _ session_step.added [OF plain]]
  from added [OF added [OF added [OF session.start]]] show ?thesis by (simp add: demo_three_def)
qed

section \<open>What is sent\<close>

text \<open>
  C28: in every session whose transcript only grows (each tool result behind its call),
  whatever compactions ran in the background, were forced, were overtaken by emergencies or
  came from a restart of the view the manager persisted, a request carries every tool result
  together with its call; it is the end of the transcript from the compacted count on,
  which always has the last message, and the messages before it are left out only when a
  summary stands in front.
\<close>

theorem requests_keep_tool_pairs:
  assumes "session f m msgs"
  shows "let (m', api) = messages_for_api_with m msgs
    in paired api \<and>
       (if active_summary m' = None then api = msgs
        else \<exists>header. api = header # drop (compacted_count m') msgs \<and> results [header] = {}) \<and>
       (compacted_count m' < length msgs \<or> msgs = [])"
proof -
  let ?m' = "fst (messages_for_api_with m msgs)"
  have ok: "session_ok ?m' msgs"
    using same_cut_ok [OF discard_same_cut check_ok [OF session_invariant [OF assms]]] by (simp add: api_fst)
  then have tail: "paired (drop (compacted_count ?m') msgs)" "compacted_count ?m' < length msgs \<or> msgs = []"
    "active_summary ?m' = None \<longrightarrow> compacted_count ?m' = 0"
    by (auto simp: session_ok_def tail_ok_def)
  show ?thesis
  proof (cases "active_summary ?m'")
    case None
    with tail have "snd (messages_for_api_with m msgs) = msgs"
      by (simp add: messages_for_api_with_def Let_def active_messages_def)
    with None tail show ?thesis by (simp add: split_beta)
  next
    case (Some s)
    let ?h = "hd (snd (messages_for_api_with m msgs))"
    have api: "snd (messages_for_api_with m msgs) = ?h # active_messages ?m' msgs"
      and header: "results [?h] = {}"
      using Some by (simp_all add: messages_for_api_with_def Let_def results_def split: option.split)
    from header tail(1) have "paired (?h # drop (compacted_count ?m') msgs)"
      using calls_Cons [of ?h "drop (compacted_count ?m') msgs"] by (auto simp: paired_def)
    with api header tail(2) Some active_eq [OF ok] show ?thesis by (auto simp: split_beta)
  qed
qed

theorem requests_keep_tool_pairs_witness:
  "let (m', api) = messages_for_api_with (notify_message_added_blocks (content demo_result)
       (notify_message_added_blocks (content demo_call) (new_manager Reactive demo_config))) [demo_call, demo_result]
    in paired api \<and>
       (if active_summary m' = None then api = [demo_call, demo_result]
        else \<exists>header. api = header # drop (compacted_count m') [demo_call, demo_result] \<and> results [header] = {}) \<and>
       (compacted_count m' < length [demo_call, demo_result] \<or> [demo_call, demo_result] = [])"
  by (rule requests_keep_tool_pairs [OF demo_session])

text \<open>
  The safe cutoff is the last position up to the wanted one where the kept messages
  have a call for every tool result, and the start of the transcript when there is none.
\<close>

theorem safe_cutoff_is_last:
  "safe_compaction_cutoff messages n =
     Max (insert 0 {k. k \<le> n \<and> k \<le> length messages \<and> paired (drop k messages)})"
  using cutoff_exact [of messages n] by (simp add: cut_points_def)

text \<open>
  C29: in such a session, a hard compaction that succeeds drops the oldest active messages, at least one, keeps
  at least two and no tool result without its call, discards a background summary, and
  either the rest fits the budget or nothing more could be dropped; one that fails changes
  nothing, and fails because there are too few messages or no place to cut.
\<close>

theorem hard_compaction_contract:
  assumes "session f m msgs"
  shows "case hard_compact_with alnum m msgs of
      (m', Inr d) \<Rightarrow>
        0 < d \<and> active_messages m' msgs = drop d (active_messages m msgs) \<and>
        min_turns_to_keep \<le> length (active_messages m' msgs) \<and> paired (active_messages m' msgs) \<and>
        pending_task m' = None \<and> active_summary m' \<noteq> None \<and>
        (suffix_chars (active_messages m msgs) d div chars_per_token \<le> token_budget m \<or>
         d = safe_compaction_cutoff (active_messages m msgs) (length (active_messages m msgs) - min_turns_to_keep))
    | (m', Inl e) \<Rightarrow>
        m' = m \<and> (length (active_messages m msgs) \<le> min_turns_to_keep \<or>
          safe_compaction_cutoff (active_messages m msgs) (length (active_messages m msgs) - min_turns_to_keep) = 0)"
proof -
  have ok: "session_ok m msgs" by (rule session_invariant [OF assms])
  let ?a = "drop (compacted_count m) msgs"
  show ?thesis
  proof (cases "hard_compact_with alnum m msgs")
    case (Pair m' r)
    show ?thesis
    proof (cases r)
      case (Inl e)
      have hard: "hard_compact_with alnum m msgs = (m', Inl e)" using Pair Inl by simp
      have "length ?a \<le> min_turns_to_keep \<or> safe_compaction_cutoff ?a (length ?a - min_turns_to_keep) = 0"
      proof (rule ccontr)
        assume not: "\<not> (length ?a \<le> min_turns_to_keep \<or> safe_compaction_cutoff ?a (length ?a - min_turns_to_keep) = 0)"
        then have many: "min_turns_to_keep < length ?a" by simp
        from not hard_cutoff_props [OF hard_turns [OF many], of ?a "token_budget m"]
        have "hard_cutoff ?a (token_budget m) (min recent_turns_to_keep (length ?a - 1)) \<noteq> 0" by simp
        from hard_compact_run(3) [OF ok many this, of alnum] hard show False by force
      qed
      with hard_compact_err_eq [OF ok hard] show ?thesis by (simp only: hard active_eq [OF ok] prod.case sum.case)
    next
      case (Inr d)
      have hard: "hard_compact_with alnum m msgs = (m', Inr d)" using Pair Inr by simp
      note eq = hard_compact_ok_eq [OF ok hard] and dropped = hard_dropped [OF ok hard]
      have ok': "session_ok m' msgs" using hard_ok [OF ok, of alnum] by (simp add: hard)
      have active': "active_messages m' msgs = drop d ?a"
        using active_eq [OF ok'] dropped(2) by (simp add: add.commute)
      have tail: "min_turns_to_keep \<le> length (drop d ?a)" "paired (drop d ?a)"
        using dropped(1,3) by (simp_all add: add.commute)
      have "suffix_chars ?a d div chars_per_token \<le> token_budget m \<or>
          d = safe_compaction_cutoff ?a (length ?a - min_turns_to_keep)"
        using hard_cutoff_props [OF hard_turns [OF eq(3)], of ?a "token_budget m"] eq(1) by simp
      then show ?thesis
        unfolding hard prod.case sum.case active' active_eq [OF ok] using eq(2,5,9) tail by blast
    qed
  qed
qed

theorem hard_compaction_contract_witness:
  "\<exists>m'. hard_compact_with (\<lambda>_. False) demo_three [demo_text ''a'', demo_text ''b'', demo_text ''c''] = (m', Inr 1) \<and>
     active_messages m' [demo_text ''a'', demo_text ''b'', demo_text ''c''] = [demo_text ''b'', demo_text ''c'']"
proof -
  let ?msgs = "[demo_text ''a'', demo_text ''b'', demo_text ''c'']"
  have active: "active_messages demo_three ?msgs = ?msgs"
    by (simp add: active_messages_def demo_three_def notify_message_added_blocks_def append_exact_def new_manager_def)
  have cut: "safe_compaction_cutoff ?msgs (length ?msgs - min_turns_to_keep) = 1"
    by (simp add: safe_compaction_cutoff_def min_turns_to_keep_def demo_messages track_message_def Let_def)
  obtain m' r where hard: "hard_compact_with (\<lambda>_. False) demo_three ?msgs = (m', r)" by fastforce
  note contract = hard_compaction_contract [OF demo_three_session, of "\<lambda>_. False", unfolded hard active prod.case]
  show ?thesis
  proof (cases r)
    case (Inl e)
    with contract cut show ?thesis by (simp add: min_turns_to_keep_def)
  next
    case (Inr d)
    have drop: "0 < d" "active_messages m' ?msgs = drop d ?msgs" "min_turns_to_keep \<le> length (active_messages m' ?msgs)"
      using contract unfolding Inr sum.case by blast+
    then have "2 \<le> length (drop d ?msgs)" by (simp add: min_turns_to_keep_def)
    with drop(1) have "d = 1" by simp
    with drop(2) show ?thesis using hard Inr by simp
  qed
qed

section \<open>Sizes\<close>

text \<open>
  C30: while no payload of the transcript is shortened and every message the manager hears of
  is reported with its content, the token estimate of every session whose transcript only
  grows is the one computed from the active messages: the cached size never drifts, also
  when the manager missed messages.
\<close>

theorem token_estimate_is_exact:
  assumes "session False m msgs"
  shows "token_estimate_with m msgs =
    estimate_compaction_tokens (active_summary m)
      (sum_list (map message_char_count (active_messages m msgs))) (token_budget m)"
proof -
  have ok: "session_ok m msgs" by (rule session_invariant [OF assms])
  have "estimate_ok m msgs" by (rule session_estimate [OF assms]) simp
  from exact_chars [OF ok this] show ?thesis
    by (simp add: token_estimate_with_def active_eq [OF ok] suffix_chars_def)
qed

theorem token_estimate_is_exact_witness:
  "token_estimate_with (notify_message_added_blocks (content demo_result)
     (notify_message_added_blocks (content demo_call) (new_manager Reactive demo_config))) [demo_call, demo_result] =
   estimate_compaction_tokens None (message_char_count demo_call + message_char_count demo_result)
     default_token_budget"
  using token_estimate_is_exact [OF demo_session]
  by (simp add: notify_message_added_blocks_def append_exact_def new_manager_def active_messages_def)

text \<open>
  C31: stripping images for the size of a request leaves a payload within the target and
  replaces the oldest images only, as few as reach the target, and nothing else.
\<close>

theorem stripping_is_minimal:
  "let (stripped, n) = strip_large_images_in_contents contents target
    in sum_list (map image_payload (concat stripped)) \<le> target \<and>
       concat stripped = replace_images n (concat contents) \<and> map length stripped = map length contents \<and>
       n = (LEAST n. sum_list (drop n (map image_payload (filter is_image (concat contents)))) \<le> target)"
proof -
  let ?ps = "payloads (concat contents)"
  have total: "sum_list (map image_payload (concat contents)) = sum_list ?ps"
    using payload_all [of "concat contents"] by (simp add: payload_after_def payloads_def)
  show ?thesis
  proof (cases "sum_list ?ps \<le> target")
    case True
    then have "(LEAST n. sum_list (drop n ?ps) \<le> target) = 0" by (intro Least_equality) simp_all
    with True total show ?thesis
      by (simp add: strip_large_images_in_contents_def Let_def payloads_def)
  next
    case False
    have strip: "strip_large_images_in_contents contents target = strip_contents target contents (sum_list ?ps)"
      using False total by (simp add: strip_large_images_in_contents_def)
    note needed = strip_contents_needed [of target contents "sum_list ?ps"]
    show ?thesis
      using needed needed_enough [of target ?ps]
      unfolding strip by (simp add: split_beta payload_replaced needed_least) (simp add: payloads_def)
  qed
qed

text \<open>
  Emergency truncation at the limits of the code settles at once: after it, no block of
  the transcript is over its limit, so that a second one changes nothing (for results of
  less than \<open>10^20\<close> bytes).
\<close>

theorem truncation_settles:
  assumes "\<forall>msg \<in> set msgs. \<forall>i c e. ToolResult i c e \<in> set (content msg) \<longrightarrow> length c < 10 ^ 20"
  shows "snd (emergency_truncate_large_payloads
    (fst (emergency_truncate_large_payloads msgs emergency_tool_result_max_chars emergency_image_max_chars))
    emergency_tool_result_max_chars emergency_image_max_chars) = 0"
  unfolding emergency_truncate_large_payloads_def
proof (rule map_blocks_again)
  fix b
  assume b: "b \<in> set (concat (map content msgs))"
  show "\<not> snd (truncate_payload emergency_tool_result_max_chars emergency_image_max_chars
      (fst (truncate_payload emergency_tool_result_max_chars emergency_image_max_chars b)))"
  proof (rule payload_truncated_once)
    fix i c e
    assume "b = ToolResult i c e"
    with b assms show "length c < 10 ^ 20" by auto
  qed (simp add: emergency_tool_result_max_chars_def)
qed

theorem truncation_settles_witness:
  "snd (emergency_truncate_large_payloads
    (fst (emergency_truncate_large_payloads [demo_result] emergency_tool_result_max_chars emergency_image_max_chars))
    emergency_tool_result_max_chars emergency_image_max_chars) = 0"
  by (rule truncation_settles) (simp add: demo_messages)

section \<open>Where the accounting goes wrong\<close>

text \<open>
  A summary applied while the cached size is stale: the size is computed after the count
  has advanced, and the compacted messages are subtracted once more. The estimate is then
  trusted.
\<close>

lemma stale_apply_subtracts_twice:
  assumes "dirty m" "compacted_count m + pending_cutoff m < length msgs" "\<not> leaves_no_healthy_tail m msgs"
  shows "cached_chars (apply_result m msgs r) =
      suffix_chars msgs (compacted_count m + pending_cutoff m) -
      sum_list (map message_char_count (take (pending_cutoff m) (drop (compacted_count m) msgs)))"
    and "\<not> dirty (apply_result m msgs r)"
proof -
  from assms(2) have "msgs \<noteq> []" by auto
  have count: "compacted_count (advance (pending_cutoff m) msgs m) = compacted_count m + pending_cutoff m"
    "dirty (advance (pending_cutoff m) msgs m)"
    using assms(1,2) \<open>msgs \<noteq> []\<close> by (simp_all add: advance_def)
  have cached: "cached_chars (fst (discard_oversized k)) = cached_chars k" "dirty (fst (discard_oversized k)) = dirty k" for k
    by (simp_all add: discard_oversized_def Let_def split: option.split)
  have active: "active_message_chars_with (advance (pending_cutoff m) msgs m) msgs =
      suffix_chars msgs (compacted_count m + pending_cutoff m)"
    "active_messages m msgs = drop (compacted_count m) msgs"
    using count assms(2) by (simp_all add: active_message_chars_with_def active_messages_def suffix_chars_def)
  show "cached_chars (apply_result m msgs r) =
      suffix_chars msgs (compacted_count m + pending_cutoff m) -
      sum_list (map message_char_count (take (pending_cutoff m) (drop (compacted_count m) msgs)))"
    and "\<not> dirty (apply_result m msgs r)"
    using assms(3) by (simp_all add: apply_result_def Let_def drop_pending_def cached set_exact_def active)
qed

text \<open>A size that emergency truncation made stale is trusted again after the next message.\<close>

lemma stale_size_trusted_again:
  "\<not> dirty (notify_message_added_blocks bs m) \<and>
   cached_chars (notify_message_added_blocks bs m) = cached_chars m + content_char_count bs"
  by (simp add: notify_message_added_blocks_def append_exact_def)

text \<open>A stall window of zero makes the growth check index an empty list.\<close>

lemma zero_stall_window_panics: "growth_stalled history 0 = None"
  by (simp add: growth_stalled_def)

text \<open>
  A rewind truncates the transcript and leaves the manager alone. When it goes back behind
  the compacted count, the next request, made after the user has added a prompt, clamps the
  count to the transcript and consists of the summary alone, which speaks of messages that
  are gone; the prompt counts as compacted and is never sent.
\<close>

lemma rewound_request_is_empty:
  assumes "length msgs \<le> compacted_count m" "msgs \<noteq> []" "pending_task m = None" "active_summary m = Some s"
    "openai_encrypted_content s = None"
  shows "\<exists>m' header. messages_for_api_with m msgs = (m', [header]) \<and> compacted_count m' = length msgs
    \<and> content header = [Text (compacted_summary_text_block (summary_text s)) None]"
proof -
  let ?m = "fst (clamp_compacted_count m msgs)"
  have m: "compacted_count ?m = length msgs" "pending_task ?m = None" "active_summary ?m = Some s"
    using assms by (auto simp: clamp_compacted_count_def set_exact_def)
  then have "check_and_apply_compaction_with m msgs = ?m"
    by (simp add: check_and_apply_compaction_with_def Let_def)
  moreover have "fst (discard_oversized ?m) = ?m"
    using m(3) assms(5) by (simp add: discard_oversized_def)
  ultimately show ?thesis
    using m assms(5) by (simp add: messages_for_api_with_def active_messages_def Let_def)
qed

end
