(* ===== verification/Swarm_Mutations.thy ===== *)
theory Swarm_Mutations
  imports Rust_Str "HOL-Library.Multiset"
begin

text \<open>
  Coordination of swarm mutations (\<open>swarm_mutation_state.rs\<close> and \<open>durable_state.rs\<close> in
  \<open>crates/next-code-app-core/src/server/\<close>). A request that changes the swarm is identified
  by a key; duplicates join the running execution of their key or replay its stored
  response. The server is a step relation over the requests it has received; what runs
  under the lock is one step, and everything else interleaves. The clock is an argument
  of the steps that read it, and every access to a state file may fail.
\<close>

section \<open>Keys\<close>

definition sanitize_session_id :: "string \<Rightarrow> string" where
  "sanitize_session_id s =
     concat (map (\<lambda>ch. case ch of
         [c] \<Rightarrow> (if is_ascii_alphanumeric c \<or> c = CHR ''-'' \<or> c = CHR ''_'' then [c] else ''_'')
       | _ \<Rightarrow> ''_'') (chars s))"

definition hex_digit :: "nat \<Rightarrow> char" where
  "hex_digit n = (if n < 10 then char_of (48 + n) else char_of (87 + n))"

fun hex_digits :: "nat \<Rightarrow> nat \<Rightarrow> string" where
  "hex_digits 0 n = []"
| "hex_digits (Suc k) n = hex_digits k (n div 16) @ [hex_digit (n mod 16)]"

text \<open>The hasher of the standard library is the parameter \<open>h\<close>.\<close>

definition hashed_request_key :: "(string list \<Rightarrow> u64) \<Rightarrow> string \<Rightarrow> string \<Rightarrow> string list \<Rightarrow> string" where
  "hashed_request_key h session action components =
     sanitize_session_id session @ ''-'' @ hex_digits 16 (unat (h (session # action # components)))"

section \<open>Responses and stored states\<close>

datatype mutation_response =
    RespDone
  | RespAssignTask string string
  | RespError string "u64 option"
  | RespSpawn string

datatype server_event =
    EvDone (event_id: u64)
  | EvAssignTask (event_id: u64) string string
  | EvError (event_id: u64) string "u64 option"
  | EvSpawn (event_id: u64) string string

definition into_server_event :: "mutation_response \<Rightarrow> u64 \<Rightarrow> string \<Rightarrow> server_event" where
  "into_server_event r i session =
     (case r of
        RespDone \<Rightarrow> EvDone i
      | RespAssignTask task target \<Rightarrow> EvAssignTask i task target
      | RespError msg retry \<Rightarrow> EvError i msg retry
      | RespSpawn new_session \<Rightarrow> EvSpawn i session new_session)"

record mutation_state =
  mut_key :: string
  mut_action :: string
  mut_session :: string
  created_at :: nat
  final_response :: "mutation_response option"

definition final_state_ttl :: nat where "final_state_ttl = 30 * 1000"
definition pending_state_ttl :: nat where "pending_state_ttl = 30 * 60 * 1000"

definition elapsed_exceeds :: "nat \<Rightarrow> nat \<Rightarrow> nat \<Rightarrow> bool" where
  "elapsed_exceeds now created ttl \<longleftrightarrow> now - created > ttl"

definition is_stale :: "nat \<Rightarrow> mutation_state \<Rightarrow> bool" where
  "is_stale now st =
     (if final_response st \<noteq> None then elapsed_exceeds now (created_at st) final_state_ttl
      else elapsed_exceeds now (created_at st) pending_state_ttl)"

section \<open>State files\<close>

text \<open>Which accesses to the file of a key succeed.\<close>

record file_access =
  readable :: bool
  removable :: bool
  writable :: bool

type_synonym state_files = "string \<Rightarrow> mutation_state option"

definition load_state :: "file_access \<Rightarrow> nat \<Rightarrow> string \<Rightarrow> state_files \<Rightarrow> mutation_state option \<times> state_files" where
  "load_state io now key files =
     (case (if readable io then files key else None) of
        None \<Rightarrow> (None, files)
      | Some st \<Rightarrow>
          (if is_stale now st then (None, if removable io then files(key := None) else files)
           else (Some st, files)))"

definition save_state :: "file_access \<Rightarrow> mutation_state \<Rightarrow> state_files \<Rightarrow> state_files" where
  "save_state io st files = (if writable io then files(mut_key st \<mapsto> st) else files)"

definition fresh_state :: "nat \<Rightarrow> string \<Rightarrow> string \<Rightarrow> string \<Rightarrow> mutation_state" where
  "fresh_state now key action session =
     \<lparr>mut_key = key, mut_action = action, mut_session = session, created_at = now, final_response = None\<rparr>"

definition ensure_pending_state ::
  "file_access \<Rightarrow> nat \<Rightarrow> string \<Rightarrow> string \<Rightarrow> string \<Rightarrow> state_files \<Rightarrow> mutation_state \<times> state_files" where
  "ensure_pending_state io now key action session files =
     (case load_state io now key files of
        (Some existing, files') \<Rightarrow> (existing, files')
      | (None, files') \<Rightarrow>
          (let st = fresh_state now key action session in (st, save_state io st files')))"

definition persist_final_response ::
  "file_access \<Rightarrow> mutation_state \<Rightarrow> mutation_response \<Rightarrow> state_files \<Rightarrow> mutation_state \<times> state_files" where
  "persist_final_response io st r files =
     (let st' = st\<lparr>final_response := Some r\<rparr> in (st', save_state io st' files))"

section \<open>Requests\<close>

text \<open>
  A request: its key and what the handler knows of it, whether it takes a stored response
  (\<open>begin_or_replay\<close>) or insists on a new attempt (\<open>begin_or_join_in_flight\<close>), its id and
  the channel of its client.
\<close>

record mutation_call =
  call_key :: string
  call_action :: string
  call_session :: string
  replay_final :: bool
  call_request :: u64
  call_client :: nat

record mutation_waiter =
  waiter_request :: u64
  waiter_client :: nat

record mutation_sync =
  active_keys :: "string set"
  waiters :: "string \<Rightarrow> mutation_waiter list option"

text \<open>
  Where a request is: it has claimed its key, executes with its state, has persisted the
  response, is sending it to the waiters it drained, has nothing to do (it waits or was
  answered), or died.
\<close>

datatype mutation_phase =
    Claimed
  | Executing mutation_state
  | Persisted mutation_state mutation_response
  | Sending mutation_state mutation_response "mutation_waiter list"
  | Joined
  | Panicked

definition push_waiter :: "mutation_call \<Rightarrow> mutation_sync \<Rightarrow> mutation_sync" where
  "push_waiter c sync =
     sync\<lparr>waiters := (waiters sync)(call_key c \<mapsto>
       unwrap_or (waiters sync (call_key c)) [] @
         [\<lparr>waiter_request = call_request c, waiter_client = call_client c\<rparr>])\<rparr>"

text \<open>The part of \<open>begin_with_mode\<close> under the lock.\<close>

definition begin_section ::
  "file_access \<Rightarrow> nat \<Rightarrow> mutation_call \<Rightarrow> state_files \<Rightarrow> mutation_sync \<Rightarrow>
   state_files \<times> mutation_sync \<times> server_event list \<times> mutation_phase" where
  "begin_section io now c files sync =
     (let (loaded, files') = (if replay_final c then load_state io now (call_key c) files else (None, files))
      in case Option.bind loaded final_response of
           Some r \<Rightarrow> (files', sync, [into_server_event r (call_request c) (call_session c)], Joined)
         | None \<Rightarrow>
             (let sync' = push_waiter c sync
              in if call_key c \<in> active_keys sync then (files', sync', [], Joined)
                 else (files', sync'\<lparr>active_keys := insert (call_key c) (active_keys sync')\<rparr>, [], Claimed)))"

text \<open>The rest of it, for the request that claimed the key.\<close>

definition begin_state :: "file_access \<Rightarrow> nat \<Rightarrow> mutation_call \<Rightarrow> state_files \<Rightarrow> mutation_state \<times> state_files" where
  "begin_state io now c files =
     (if replay_final c then ensure_pending_state io now (call_key c) (call_action c) (call_session c) files
      else let st = fresh_state now (call_key c) (call_action c) (call_session c) in (st, save_state io st files))"

text \<open>The part of \<open>finish_request\<close> under the lock.\<close>

definition drain_section :: "string \<Rightarrow> mutation_sync \<Rightarrow> mutation_waiter list \<times> mutation_sync" where
  "drain_section key sync =
     (unwrap_or (waiters sync key) [],
      sync\<lparr>active_keys := active_keys sync - {key}, waiters := (waiters sync)(key := None)\<rparr>)"

section \<open>The server\<close>

text \<open>The log of sent events names the key of the request and the channel.\<close>

record mutation_system =
  files :: state_files
  sync :: mutation_sync
  calls :: "(mutation_call \<times> mutation_phase) list"
  sent :: "(string \<times> nat \<times> server_event) list"

datatype mutation_event =
    Begin file_access nat mutation_call
  | Prepare file_access nat
  | Persist file_access mutation_response
  | Drain
  | Send
  | Panic
  | Restart

definition idle_sync :: mutation_sync where
  "idle_sync = \<lparr>active_keys = {}, waiters = Map.empty\<rparr>"

text \<open>
  A handler that dies keeps its key claimed; a restart of the server forgets everything but
  the files.
\<close>

inductive mutation_step :: "mutation_system \<Rightarrow> mutation_event \<Rightarrow> mutation_system \<Rightarrow> bool" where
  begun: "begin_section io now c (files s) (sync s) = (fs, sy, evs, p) \<Longrightarrow>
    mutation_step s (Begin io now c)
      (s\<lparr>files := fs, sync := sy, calls := calls s @ [(c, p)],
         sent := sent s @ map (\<lambda>e. (call_key c, call_client c, e)) evs\<rparr>)"
| prepared: "i < length (calls s) \<Longrightarrow> calls s ! i = (c, Claimed) \<Longrightarrow> begin_state io now c (files s) = (st, fs) \<Longrightarrow>
    mutation_step s (Prepare io now) (s\<lparr>files := fs, calls := (calls s)[i := (c, Executing st)]\<rparr>)"
| persisted: "i < length (calls s) \<Longrightarrow> calls s ! i = (c, Executing st) \<Longrightarrow>
    persist_final_response io st r (files s) = (st', fs) \<Longrightarrow>
    mutation_step s (Persist io r) (s\<lparr>files := fs, calls := (calls s)[i := (c, Persisted st' r)]\<rparr>)"
| drained: "i < length (calls s) \<Longrightarrow> calls s ! i = (c, Persisted st r) \<Longrightarrow>
    drain_section (mut_key st) (sync s) = (ws, sy) \<Longrightarrow>
    mutation_step s Drain (s\<lparr>sync := sy, calls := (calls s)[i := (c, Sending st r ws)]\<rparr>)"
| answered: "i < length (calls s) \<Longrightarrow> calls s ! i = (c, Sending st r (w # ws)) \<Longrightarrow>
    mutation_step s Send
      (s\<lparr>calls := (calls s)[i := (c, Sending st r ws)],
         sent := sent s @ [(mut_key st, waiter_client w, into_server_event r (waiter_request w) (mut_session st))]\<rparr>)"
| died: "i < length (calls s) \<Longrightarrow> calls s ! i = (c, p) \<Longrightarrow> p = Claimed \<or> p = Executing st \<or> p = Persisted st r \<Longrightarrow>
    mutation_step s Panic (s\<lparr>calls := (calls s)[i := (c, Panicked)]\<rparr>)"
| restarted: "mutation_step s Restart (s\<lparr>sync := idle_sync, calls := [], sent := []\<rparr>)"

inductive_cases mutation_stepE: "mutation_step s ev s'"
inductive_cases begun_stepE: "mutation_step s (Begin io now c) s'"

lemmas mutation_step_cases =
  mutation_stepE [consumes 1, case_names begun prepared persisted drained answered died restarted]

definition well_keyed :: "state_files \<Rightarrow> bool" where
  "well_keyed fs \<longleftrightarrow> (\<forall>k st. fs k = Some st \<longrightarrow> mut_key st = k)"

inductive serving_mutations :: "mutation_system \<Rightarrow> bool" where
  started: "well_keyed fs \<Longrightarrow> serving_mutations \<lparr>files = fs, sync = idle_sync, calls = [], sent = []\<rparr>"
| served: "serving_mutations s \<Longrightarrow> mutation_step s ev s' \<Longrightarrow> serving_mutations s'"

section \<open>What is held, asked and answered\<close>

fun holds :: "mutation_phase \<Rightarrow> bool" where
  "holds Claimed = True"
| "holds (Executing st) = True"
| "holds (Persisted st r) = True"
| "holds (Sending st r ws) = False"
| "holds Joined = False"
| "holds Panicked = True"

fun phase_state :: "mutation_phase \<Rightarrow> mutation_state option" where
  "phase_state (Executing st) = Some st"
| "phase_state (Persisted st r) = Some st"
| "phase_state (Sending st r ws) = Some st"
| "phase_state p = None"

fun to_send :: "mutation_phase \<Rightarrow> mutation_waiter list" where
  "to_send (Sending st r ws) = ws"
| "to_send p = []"

definition waiter_id :: "mutation_waiter \<Rightarrow> nat \<times> u64" where
  "waiter_id w = (waiter_client w, waiter_request w)"

definition call_id :: "mutation_call \<Rightarrow> nat \<times> u64" where
  "call_id c = (call_client c, call_request c)"

text \<open>The clients and request ids that asked for a key, and those that were answered.\<close>

definition requested :: "string \<Rightarrow> mutation_system \<Rightarrow> (nat \<times> u64) multiset" where
  "requested k s = mset (map call_id (filter (\<lambda>c. call_key c = k) (map fst (calls s))))"

definition answered_requests :: "string \<Rightarrow> mutation_system \<Rightarrow> (nat \<times> u64) multiset" where
  "answered_requests k s =
     mset (map (\<lambda>(k', client, e). (client, event_id e)) (filter (\<lambda>(k', _). k' = k) (sent s)))"

definition holders :: "string \<Rightarrow> (mutation_call \<times> mutation_phase) list \<Rightarrow> nat" where
  "holders k cs = sum_list (map (\<lambda>(c, p). if call_key c = k \<and> holds p then 1 else 0) cs)"

definition sending :: "string \<Rightarrow> (mutation_call \<times> mutation_phase) list \<Rightarrow> (nat \<times> u64) multiset" where
  "sending k cs =
     sum_list (map (\<lambda>(c, p). if call_key c = k then mset (map waiter_id (to_send p)) else {#}) cs)"

definition waiting :: "string \<Rightarrow> mutation_sync \<Rightarrow> (nat \<times> u64) multiset" where
  "waiting k sy = mset (map waiter_id (unwrap_or (waiters sy k) []))"

definition mutations_ok :: "mutation_system \<Rightarrow> bool" where
  "mutations_ok s \<longleftrightarrow>
     well_keyed (files s) \<and>
     (\<forall>(c, p) \<in> set (calls s). \<forall>st. phase_state p = Some st \<longrightarrow> mut_key st = call_key c) \<and>
     (\<forall>k. holders k (calls s) = (if k \<in> active_keys (sync s) then 1 else 0)) \<and>
     (\<forall>k. k \<notin> active_keys (sync s) \<longrightarrow> waiters (sync s) k = None) \<and>
     (\<forall>k. answered_requests k s + waiting k (sync s) + sending k (calls s) = requested k s)"

end
