(* ===== verification/Swarm_Mutation_Facts.thy ===== *)
theory Swarm_Mutation_Facts
  imports Swarm_Mutations
begin

text \<open>
  The invariant of the mutation server and what it gives: one holder per key, every
  request answered or waiting, and stored responses that nothing overwrites.
\<close>

section \<open>Files\<close>

lemma load_state_cases:
  assumes "load_state io now k fs = (r, fs')"
  obtains "fs' = fs" "r = None" | "fs' = fs(k := None)" "r = None"
  | st where "fs' = fs" "r = Some st" "fs k = Some st" "\<not> is_stale now st"
proof (cases "if readable io then fs k else None")
  case None
  with assms that(1) show thesis by (simp add: load_state_def)
next
  case (Some st)
  then have "fs k = Some st" by (simp split: if_splits)
  have load: "load_state io now k fs =
      (if is_stale now st then (None, if removable io then fs(k := None) else fs) else (Some st, fs))"
    using Some by (simp add: load_state_def)
  show thesis
  proof (cases "is_stale now st")
    case True
    with load assms that(1,2) show thesis by (cases "removable io") simp_all
  next
    case False
    with load assms that(3) [of st] \<open>fs k = Some st\<close> show thesis by simp
  qed
qed

lemma removed_well_keyed: "well_keyed fs \<Longrightarrow> fs' = fs \<or> fs' = fs(k := None) \<Longrightarrow> well_keyed fs'"
  by (auto simp: well_keyed_def split: if_splits)

lemma load_well_keyed: "load_state io now k fs = (r, fs') \<Longrightarrow> well_keyed fs \<Longrightarrow> well_keyed fs'"
  by (erule load_state_cases) (auto simp: well_keyed_def)

lemma save_well_keyed: "well_keyed fs \<Longrightarrow> well_keyed (save_state io st fs)"
  by (auto simp: well_keyed_def save_state_def)

lemma begin_state_ok:
  assumes "begin_state io now c fs = (st, fs')" "well_keyed fs"
  shows "mut_key st = call_key c" "well_keyed fs'" "k \<noteq> call_key c \<Longrightarrow> fs' k = fs k"
proof -
  have "mut_key st = call_key c \<and> well_keyed fs' \<and> (k \<noteq> call_key c \<longrightarrow> fs' k = fs k)"
  proof (cases "replay_final c")
    case True
    obtain r fs1 where load: "load_state io now (call_key c) fs = (r, fs1)" by fastforce
    from load show ?thesis
    proof (cases rule: load_state_cases)
      case 1
      with assms True load show ?thesis
        by (auto simp: begin_state_def ensure_pending_state_def Let_def fresh_state_def save_well_keyed)
          (auto simp: save_state_def)
    next
      case 2
      with assms True load load_well_keyed [OF load assms(2)] show ?thesis
        by (auto simp: begin_state_def ensure_pending_state_def Let_def fresh_state_def save_well_keyed)
          (auto simp: save_state_def)
    next
      case (3 st')
      with assms True load show ?thesis
        by (auto simp: begin_state_def ensure_pending_state_def well_keyed_def)
    qed
  next
    case False
    with assms show ?thesis
      by (auto simp: begin_state_def Let_def fresh_state_def save_well_keyed) (auto simp: save_state_def)
  qed
  then show "mut_key st = call_key c" "well_keyed fs'" "k \<noteq> call_key c \<Longrightarrow> fs' k = fs k" by auto
qed

lemma begin_section_cases:
  assumes "begin_section io now c fs sy = (fs', sy', evs, p)"
  obtains (replay) st r where "replay_final c" "fs (call_key c) = Some st" "final_response st = Some r"
      "\<not> is_stale now st" "fs' = fs" "sy' = sy"
      "evs = [into_server_event r (call_request c) (call_session c)]" "p = Joined"
  | (join) "fs' = fs \<or> fs' = fs(call_key c := None)" "call_key c \<in> active_keys sy" "sy' = push_waiter c sy" "evs = []" "p = Joined"
  | (claim) "fs' = fs \<or> fs' = fs(call_key c := None)" "call_key c \<notin> active_keys sy"
      "sy' = (push_waiter c sy)\<lparr>active_keys := insert (call_key c) (active_keys sy)\<rparr>" "evs = []" "p = Claimed"
proof -
  obtain r fs1 where load: "(if replay_final c then load_state io now (call_key c) fs else (None, fs)) = (r, fs1)" by fastforce
  have fs1: "fs1 = fs \<or> fs1 = fs(call_key c := None)"
    and found: "r = Some st \<Longrightarrow> replay_final c \<and> fs1 = fs \<and> fs (call_key c) = Some st \<and> \<not> is_stale now st" for st
    using load by (auto split: if_splits elim: load_state_cases)
  have active: "active_keys (push_waiter c sy) = active_keys sy" by (simp add: push_waiter_def)
  show ?thesis
  proof (cases "Option.bind r final_response")
    case None
    with assms load fs1 active join claim show ?thesis
      by (auto simp: begin_section_def Let_def split: if_splits)
  next
    case (Some resp)
    then obtain st where "r = Some st" "final_response st = Some resp" by (cases r) auto
    with assms load found [OF \<open>r = Some st\<close>] Some replay show ?thesis by (auto simp: begin_section_def)
  qed
qed

section \<open>Sums over the requests\<close>

lemma sum_list_swap:
  fixes f :: "'a \<Rightarrow> 'b :: comm_monoid_add"
  assumes "i < length xs"
  shows "sum_list (map f (xs[i := y])) + f (xs ! i) = sum_list (map f xs) + f y"
  using assms
proof (induction xs arbitrary: i)
  case (Cons x xs)
  then show ?case by (cases i) (simp_all add: ac_simps)
qed simp

lemma sum_list_zero:
  fixes f :: "'a \<Rightarrow> 'b :: comm_monoid_add"
  shows "(\<And>x. x \<in> set xs \<Longrightarrow> f x = 0) \<Longrightarrow> sum_list (map f xs) = 0"
  by (induction xs) simp_all

lemma holders_swap:
  assumes "i < length cs" "cs ! i = (c, p)"
  shows "holders k (cs[i := (c, q)]) + (if call_key c = k \<and> holds p then 1 else 0) =
    holders k cs + (if call_key c = k \<and> holds q then 1 else 0)"
  using sum_list_swap [OF assms(1), of "\<lambda>(c, p). if call_key c = k \<and> holds p then 1 else 0 :: nat" "(c, q)"]
  by (simp add: holders_def assms(2))

lemma sending_swap:
  assumes "i < length cs" "cs ! i = (c, p)"
  shows "sending k (cs[i := (c, q)]) + (if call_key c = k then mset (map waiter_id (to_send p)) else {#}) =
    sending k cs + (if call_key c = k then mset (map waiter_id (to_send q)) else {#})"
  using sum_list_swap [OF assms(1), of "\<lambda>(c, p). if call_key c = k then mset (map waiter_id (to_send p)) else {#}" "(c, q)"]
  by (simp add: sending_def assms(2))

lemma calls_swap: "i < length cs \<Longrightarrow> cs ! i = (c, p) \<Longrightarrow> map fst (cs[i := (c, q)]) = map fst cs"
  by (simp add: map_update) (metis fst_conv length_map list_update_id nth_map)

lemma states_swap:
  assumes "\<forall>(c, p) \<in> set cs. \<forall>st. phase_state p = Some st \<longrightarrow> mut_key st = call_key c"
    "\<forall>st. phase_state q = Some st \<longrightarrow> mut_key st = call_key c"
  shows "\<forall>(c, p) \<in> set (cs[i := (c, q)]). \<forall>st. phase_state p = Some st \<longrightarrow> mut_key st = call_key c"
proof -
  have "set (cs[i := (c, q)]) \<subseteq> insert (c, q) (set cs)" by (rule set_update_subset_insert)
  with assms show ?thesis by blast
qed

lemma state_key:
  "mutations_ok s \<Longrightarrow> i < length (calls s) \<Longrightarrow> calls s ! i = (c, p) \<Longrightarrow> phase_state p = Some st \<Longrightarrow> mut_key st = call_key c"
  using nth_mem [of i "calls s"] by (auto simp: mutations_ok_def)

lemma holder_positive:
  assumes "i < length cs" "cs ! i = (c, p)" "holds p"
  shows "0 < holders (call_key c) cs"
  using elem_le_sum_list [of i "map (\<lambda>(c', p). if call_key c' = call_key c \<and> holds p then 1 else 0 :: nat) cs"] assms
  by (simp add: holders_def)

lemma holders_member:
  assumes "0 < holders k cs"
  obtains c p where "(c, p) \<in> set cs" "holds p" "call_key c = k"
  using assms unfolding holders_def by (induction cs) (auto split: if_splits prod.splits)

lemma holder_active:
  assumes "mutations_ok s" "i < length (calls s)" "calls s ! i = (c, p)" "holds p"
  shows "call_key c \<in> active_keys (sync s)"
  using holder_positive [OF assms(2-4)] assms(1) by (auto simp: mutations_ok_def split: if_splits)

section \<open>The invariant\<close>

lemma start_ok: "well_keyed fs \<Longrightarrow> mutations_ok \<lparr>files = fs, sync = idle_sync, calls = [], sent = []\<rparr>"
  by (simp add: mutations_ok_def idle_sync_def holders_def sending_def waiting_def requested_def answered_requests_def)

text \<open>A step of one request that leaves locks, waiters and answers alone.\<close>

lemma phase_ok:
  assumes ok: "mutations_ok s" and i: "i < length (calls s)" "calls s ! i = (c, p)"
    and same: "holds p = holds q" "to_send p = []" "to_send q = []"
    and state: "\<forall>st. phase_state q = Some st \<longrightarrow> mut_key st = call_key c" and fs: "well_keyed fs"
  shows "mutations_ok (s\<lparr>files := fs, calls := (calls s)[i := (c, q)]\<rparr>)"
proof -
  have "holders k ((calls s)[i := (c, q)]) = holders k (calls s)" for k
    using holders_swap [OF i, of k q] by (auto simp: same split: if_splits)
  moreover have "sending k ((calls s)[i := (c, q)]) = sending k (calls s)" for k
    using sending_swap [OF i, of k q] by (auto simp: same split: if_splits)
  ultimately show ?thesis
    using ok fs states_swap [of "calls s" q c i] state calls_swap [OF i, of q]
    by (simp add: mutations_ok_def requested_def answered_requests_def)
qed

lemma add_call:
  "holders k (cs @ [(c, p)]) = holders k cs + (if call_key c = k \<and> holds p then 1 else 0)"
  "sending k (cs @ [(c, p)]) = sending k cs + (if call_key c = k then mset (map waiter_id (to_send p)) else {#})"
  by (simp_all add: holders_def sending_def)

lemma event_id_into [simp]: "event_id (into_server_event r i session) = i"
  by (cases r) (simp_all add: into_server_event_def)

lemma push_waiting:
  "waiting k (push_waiter c sy) = waiting k sy + (if call_key c = k then {#call_id c#} else {#})"
  "active_keys (push_waiter c sy) = active_keys sy"
  "waiters (push_waiter c sy) k = None \<longleftrightarrow> k \<noteq> call_key c \<and> waiters sy k = None"
  "waiting k (sy'\<lparr>active_keys := A\<rparr>) = waiting k sy'"
  by (auto simp: push_waiter_def waiting_def call_id_def waiter_id_def)

lemma begun_ok:
  assumes ok: "mutations_ok s" and b: "begin_section io now c (files s) (sync s) = (fs, sy, evs, p)"
  shows "mutations_ok (s\<lparr>files := fs, sync := sy, calls := calls s @ [(c, p)],
      sent := sent s @ map (\<lambda>e. (call_key c, call_client c, e)) evs\<rparr>)" (is "mutations_ok ?s")
  using b
proof (cases rule: begin_section_cases)
  case (replay st r)
  then have "answered_requests k ?s = answered_requests k s + (if call_key c = k then {#call_id c#} else {#})"
    "requested k ?s = requested k s + (if call_key c = k then {#call_id c#} else {#})" for k
    by (simp_all add: answered_requests_def requested_def call_id_def)
  with ok replay show ?thesis by (auto simp: mutations_ok_def add_call ac_simps)
next
  case join
  then have "answered_requests k ?s = answered_requests k s"
    "requested k ?s = requested k s + (if call_key c = k then {#call_id c#} else {#})" for k
    by (simp_all add: answered_requests_def requested_def)
  moreover have "well_keyed fs" using removed_well_keyed [OF _ join(1)] ok by (simp add: mutations_ok_def)
  ultimately show ?thesis using ok join
    by (auto simp: mutations_ok_def add_call push_waiting ac_simps)
next
  case claim
  then have "answered_requests k ?s = answered_requests k s"
    "requested k ?s = requested k s + (if call_key c = k then {#call_id c#} else {#})" for k
    by (simp_all add: answered_requests_def requested_def)
  moreover have "well_keyed fs" using removed_well_keyed [OF _ claim(1)] ok by (simp add: mutations_ok_def)
  ultimately show ?thesis using ok claim
    by (auto simp: mutations_ok_def add_call push_waiting ac_simps)
qed

lemma drained_ok:
  assumes ok: "mutations_ok s" and i: "i < length (calls s)" "calls s ! i = (c, Persisted st r)"
    and drain: "drain_section (mut_key st) (sync s) = (ws, sy)"
  shows "mutations_ok (s\<lparr>sync := sy, calls := (calls s)[i := (c, Sending st r ws)]\<rparr>)" (is "mutations_ok ?s")
proof -
  have key: "mut_key st = call_key c" by (rule state_key [OF ok i]) simp
  have ws: "ws = unwrap_or (waiters (sync s) (call_key c)) []"
    and sy: "active_keys sy = active_keys (sync s) - {call_key c}" "waiters sy = (waiters (sync s))(call_key c := None)"
    using drain by (auto simp: drain_section_def key)
  have active: "call_key c \<in> active_keys (sync s)" by (rule holder_active [OF ok i]) simp
  have hold: "holders k (calls ?s) = (if k \<in> active_keys sy then 1 else 0)" for k
    using holders_swap [OF i, of k "Sending st r ws"] ok active by (auto simp: mutations_ok_def sy split: if_splits)
  have "answered_requests k s + waiting k (sync s) + sending k (calls s) = requested k s" for k
    using ok by (simp add: mutations_ok_def)
  moreover have "waiting k sy + sending k (calls ?s) = waiting k (sync s) + sending k (calls s)" for k
    using sending_swap [OF i, of k "Sending st r ws"]
    by (cases "call_key c = k") (simp_all add: waiting_def sy ws add.commute)
  moreover have "requested k ?s = requested k s" "answered_requests k ?s = answered_requests k s" for k
    using calls_swap [OF i, of "Sending st r ws"] by (simp_all add: requested_def answered_requests_def)
  ultimately have sums: "answered_requests k ?s + waiting k sy + sending k (calls ?s) = requested k ?s" for k
    by (simp add: add.assoc)
  have "\<forall>(c, p) \<in> set ((calls s)[i := (c, Sending st r ws)]). \<forall>st. phase_state p = Some st \<longrightarrow> mut_key st = call_key c"
    using ok key by (intro states_swap) (simp_all add: mutations_ok_def)
  with hold sums ok show ?thesis by (auto simp: mutations_ok_def sy)
qed

lemma answered_ok:
  assumes ok: "mutations_ok s" and i: "i < length (calls s)" "calls s ! i = (c, Sending st r (w # ws))"
  shows "mutations_ok (s\<lparr>calls := (calls s)[i := (c, Sending st r ws)],
      sent := sent s @ [(mut_key st, waiter_client w, into_server_event r (waiter_request w) (mut_session st))]\<rparr>)"
    (is "mutations_ok ?s")
proof -
  have key: "mut_key st = call_key c" by (rule state_key [OF ok i]) simp
  have "holders k (calls ?s) = holders k (calls s)" for k
    using holders_swap [OF i, of k "Sending st r ws"] by (auto split: if_splits)
  moreover have "answered_requests k ?s + sending k (calls ?s) = answered_requests k s + sending k (calls s)" for k
    using sending_swap [OF i, of k "Sending st r ws"]
    by (auto simp: answered_requests_def key waiter_id_def ac_simps split: if_splits)
  then have "answered_requests k ?s + sending k (calls ?s) + waiting k (sync s) =
      answered_requests k s + sending k (calls s) + waiting k (sync s)" for k
    by (simp only:)
  then have "answered_requests k ?s + waiting k (sync s) + sending k (calls ?s) =
      answered_requests k s + waiting k (sync s) + sending k (calls s)" for k
    by (simp only: ac_simps)
  then have "answered_requests k ?s + waiting k (sync s) + sending k (calls ?s) = requested k s" for k
    using ok by (simp only: mutations_ok_def)
  moreover have "requested k ?s = requested k s" for k
    using calls_swap [OF i, of "Sending st r ws"] by (simp add: requested_def)
  moreover have "\<forall>(c, p) \<in> set ((calls s)[i := (c, Sending st r ws)]). \<forall>st. phase_state p = Some st \<longrightarrow> mut_key st = call_key c"
    using ok key by (intro states_swap) (simp_all add: mutations_ok_def)
  ultimately show ?thesis using ok by (simp add: mutations_ok_def)
qed

lemma step_keeps_ok: "mutation_step s ev s' \<Longrightarrow> mutations_ok s \<Longrightarrow> mutations_ok s'"
proof (induction rule: mutation_step.induct)
  case (prepared i s c io now st fs)
  then have "well_keyed (files s)" by (simp add: mutations_ok_def)
  from begin_state_ok [OF prepared(3) this] prepared show ?case by (intro phase_ok [where p = Claimed]) simp_all
next
  case (persisted i s c st io r st' fs)
  have "mut_key st = call_key c" by (rule state_key [OF persisted(4,1,2)]) simp
  with persisted show ?case
    by (intro phase_ok [where p = "Executing st"]) (auto simp: persist_final_response_def Let_def save_well_keyed mutations_ok_def)
next
  case (died i s c p st r)
  then have "mutations_ok (s\<lparr>files := files s, calls := (calls s)[i := (c, Panicked)]\<rparr>)"
    by (intro phase_ok [where p = p]) (auto simp: mutations_ok_def)
  then show ?case by simp
next
  case (restarted s)
  then show ?case by (simp add: mutations_ok_def idle_sync_def holders_def sending_def waiting_def requested_def
        answered_requests_def)
qed (auto intro: begun_ok drained_ok answered_ok)

lemma serving_ok: "serving_mutations s \<Longrightarrow> mutations_ok s"
  by (induction rule: serving_mutations.induct) (auto intro: start_ok step_keeps_ok)

section \<open>One holder\<close>

lemma single_holder:
  assumes ok: "mutations_ok s" and i: "i < length (calls s)" "calls s ! i = (c, p)" "holds p"
    and j: "j < length (calls s)" "calls s ! j = (d, q)" "holds q" and key: "call_key d = call_key c"
  shows "i = j"
proof (rule ccontr)
  assume "i \<noteq> j"
  then have "0 < holders (call_key d) ((calls s)[i := (c, Joined)])"
    using j by (intro holder_positive [of j]) simp_all
  moreover have "holders (call_key c) ((calls s)[i := (c, Joined)]) + 1 = holders (call_key c) (calls s)"
    using holders_swap [OF i(1,2), of "call_key c" Joined] i(3) by simp
  moreover have "holders (call_key c) (calls s) \<le> 1" using ok by (simp add: mutations_ok_def)
  ultimately show False by (simp add: key)
qed

section \<open>Stored responses\<close>

definition calm :: "string \<Rightarrow> nat \<Rightarrow> mutation_event \<Rightarrow> bool" where
  "calm k t ev =
     (case ev of Begin io now c \<Rightarrow> call_key c = k \<longrightarrow> replay_final c \<and> readable io \<and> now \<le> t | _ \<Rightarrow> True)"

text \<open>Steps among which the requests for \<open>k\<close> accept stored responses and come by \<open>t\<close>.\<close>

inductive undisturbed :: "string \<Rightarrow> nat \<Rightarrow> mutation_system \<Rightarrow> mutation_system \<Rightarrow> bool" for k t where
  none: "undisturbed k t s s"
| more: "undisturbed k t s s' \<Longrightarrow> mutation_step s' ev s'' \<Longrightarrow> calm k t ev \<Longrightarrow> undisturbed k t s s''"

definition settled :: "string \<Rightarrow> mutation_state \<Rightarrow> mutation_system \<Rightarrow> bool" where
  "settled k st s \<longleftrightarrow> mutations_ok s \<and> k \<notin> active_keys (sync s) \<and> files s k = Some st"

lemma replayed_section:
  assumes "fs (call_key c) = Some st" "final_response st = Some r" "replay_final c" "readable io"
    "now \<le> created_at st + final_state_ttl"
  shows "begin_section io now c fs sy = (fs, sy, [into_server_event r (call_request c) (call_session c)], Joined)"
proof -
  have "\<not> is_stale now st" using assms(2,5) by (simp add: is_stale_def elapsed_exceeds_def)
  then show ?thesis using assms(1-4) by (simp add: begin_section_def load_state_def)
qed

lemma other_section:
  assumes "begin_section io now c fs sy = (fs', sy', evs, p)" "k \<noteq> call_key c"
  shows "fs' k = fs k" "k \<in> active_keys sy' \<longleftrightarrow> k \<in> active_keys sy"
proof -
  from assms(1) have "fs' k = fs k \<and> (k \<in> active_keys sy' \<longleftrightarrow> k \<in> active_keys sy)"
    by (cases rule: begin_section_cases) (use assms(2) in \<open>auto simp: push_waiting\<close>)
  then show "fs' k = fs k" "k \<in> active_keys sy' \<longleftrightarrow> k \<in> active_keys sy" by blast+
qed

lemma settled_step:
  assumes "settled k st s" "final_response st = Some r" "mutation_step s ev s'" "calm k (created_at st + final_state_ttl) ev"
  shows "settled k st s'"
proof -
  have ok: "mutations_ok s" and idle: "k \<notin> active_keys (sync s)" and st: "files s k = Some st"
    using assms(1) by (simp_all add: settled_def)
  have free: "call_key c \<noteq> k" if "i < length (calls s)" "calls s ! i = (c, p)" "holds p" for i c p
    using holder_active [OF ok that] idle by auto
  have "k \<notin> active_keys (sync s') \<and> files s' k = Some st"
    using assms(3)
  proof (cases rule: mutation_step_cases)
    case (begun io now c fs sy evs p)
    show ?thesis
    proof (cases "call_key c = k")
      case True
      then have "begin_section io now c (files s) (sync s) =
          (files s, sync s, [into_server_event r (call_request c) (call_session c)], Joined)"
        using assms(4) st by (intro replayed_section [OF _ assms(2)]) (simp_all add: calm_def begun(1))
      with begun idle st show ?thesis by simp
    next
      case False
      with other_section [OF begun(3), of k] begun idle st show ?thesis by simp
    qed
  next
    case (prepared i c io now st' fs)
    have "well_keyed (files s)" using ok by (simp add: mutations_ok_def)
    with begin_state_ok(3) [OF prepared(5), of k] free [OF prepared(3,4)] prepared idle st show ?thesis by simp
  next
    case (persisted i c st' io r' st'' fs)
    have "mut_key st' = call_key c" by (rule state_key [OF ok persisted(3,4)]) simp
    with free [OF persisted(3,4)] persisted idle st show ?thesis
      by (auto simp: persist_final_response_def Let_def save_state_def)
  next
    case (drained i c st' r' ws sy)
    with idle st show ?thesis by (auto simp: drain_section_def)
  qed (use idle st in \<open>auto simp: idle_sync_def\<close>)
  with step_keeps_ok [OF assms(3) ok] show ?thesis by (simp add: settled_def)
qed

lemma settled_undisturbed:
  "undisturbed k (created_at st + final_state_ttl) s s' \<Longrightarrow> settled k st s \<Longrightarrow> final_response st = Some r \<Longrightarrow> settled k st s'"
  by (induction rule: undisturbed.induct) (auto intro: settled_step)

section \<open>Executions end\<close>

fun executor_event :: "mutation_event \<Rightarrow> bool" where
  "executor_event (Prepare io now) = True"
| "executor_event (Persist io r) = True"
| "executor_event Drain = True"
| "executor_event Send = True"
| "executor_event _ = False"

definition executor_step :: "mutation_system \<Rightarrow> mutation_system \<Rightarrow> bool" where
  "executor_step s s' \<longleftrightarrow> (\<exists>ev. executor_event ev \<and> mutation_step s ev s')"

fun phase_work :: "mutation_phase \<Rightarrow> nat" where
  "phase_work Claimed = 3"
| "phase_work (Executing st) = 2"
| "phase_work (Persisted st r) = 1"
| "phase_work _ = 0"

definition work_left :: "mutation_system \<Rightarrow> nat \<times> nat" where
  "work_left s =
     (sum_list (map (phase_work \<circ> snd) (calls s)), sum_list (map (length \<circ> to_send \<circ> snd) (calls s)))"

lemma executor_step_works:
  assumes "executor_step s s'"
  shows "(work_left s', work_left s) \<in> less_than <*lex*> less_than"
proof -
  have swap: "sum_list (map (f \<circ> snd) ((calls s)[i := (c, q)])) + f p = sum_list (map (f \<circ> snd) (calls s)) + f q"
    if "i < length (calls s)" "calls s ! i = (c, p)" for i c p q and f :: "mutation_phase \<Rightarrow> nat"
    using sum_list_swap [OF that(1), of "f \<circ> snd" "(c, q)"] that(2) by simp
  obtain ev where ev: "executor_event ev" "mutation_step s ev s'"
    using assms by (auto simp: executor_step_def)
  from ev(2) show ?thesis
  proof (cases rule: mutation_step_cases)
    case (prepared i c io now st fs)
    with swap [OF prepared(3,4), of phase_work "Executing st"] show ?thesis by (simp add: work_left_def)
  next
    case (persisted i c st io r st' fs)
    with swap [OF persisted(3,4), of phase_work "Persisted st' r"] show ?thesis by (simp add: work_left_def)
  next
    case (drained i c st r ws sy)
    with swap [OF drained(3,4), of phase_work "Sending st r ws"] show ?thesis by (simp add: work_left_def)
  next
    case (answered i c st r w ws)
    with swap [OF answered(3,4), of phase_work "Sending st r ws"]
      swap [OF answered(3,4), of "length \<circ> to_send" "Sending st r ws"] show ?thesis
      by (simp add: work_left_def comp_assoc)
  qed (use ev(1) in simp_all)
qed

lemma executor_step_possible:
  assumes "i < length (calls s)" "calls s ! i = (c, p)" "p \<noteq> Panicked" "holds p \<or> to_send p \<noteq> []"
  shows "\<exists>s'. executor_step s s'"
proof (cases p)
  case Claimed
  then show ?thesis using prepared [OF assms(1), of c] assms(2) Claimed
    unfolding executor_step_def by (metis executor_event.simps(1) surj_pair)
next
  case (Executing st)
  then show ?thesis using persisted [OF assms(1), of c st] assms(2)
    unfolding executor_step_def by (metis executor_event.simps(2) surj_pair)
next
  case (Persisted st r)
  then show ?thesis using drained [OF assms(1), of c st r] assms(2)
    unfolding executor_step_def by (metis executor_event.simps(3) surj_pair)
next
  case (Sending st r ws)
  then obtain w ws' where "ws = w # ws'" using assms(4) by (cases ws) auto
  then show ?thesis using answered [OF assms(1), of c st r w ws'] assms(2) Sending
    unfolding executor_step_def by (metis executor_event.simps(4))
qed (use assms in simp_all)

lemma nothing_left:
  assumes ok: "mutations_ok s" and finished: "\<forall>(c, p) \<in> set (calls s). \<not> holds p \<and> to_send p = []"
  shows "answered_requests k s = requested k s"
proof -
  have "holders k (calls s) = 0" "sending k (calls s) = {#}"
    using finished by (auto simp: holders_def sending_def intro!: sum_list_zero)
  with ok have "k \<notin> active_keys (sync s)" by (auto simp: mutations_ok_def split: if_splits)
  with ok have "waiting k (sync s) = {#}" by (simp add: mutations_ok_def waiting_def)
  with ok \<open>sending k (calls s) = {#}\<close> show ?thesis
    by (metis (no_types) add.right_neutral mutations_ok_def)
qed

definition no_panic :: "mutation_system \<Rightarrow> bool" where
  "no_panic s \<longleftrightarrow> (\<forall>(c, p) \<in> set (calls s). p \<noteq> Panicked)"

lemma executor_step_calls:
  assumes "executor_step s s'"
  shows "map fst (calls s') = map fst (calls s)" "no_panic s \<Longrightarrow> no_panic s'"
proof -
  have keep: "map fst ((calls s)[i := (c, q)]) = map fst (calls s) \<and>
      (no_panic s \<longrightarrow> q \<noteq> Panicked \<longrightarrow> (\<forall>(c, p) \<in> set ((calls s)[i := (c, q)]). p \<noteq> Panicked))"
    if "i < length (calls s)" "calls s ! i = (c, p)" for i c p q
    using calls_swap [OF that] set_update_subset_insert [of "calls s" i "(c, q)"] by (auto simp: no_panic_def)
  obtain ev where ev: "executor_event ev" "mutation_step s ev s'"
    using assms by (auto simp: executor_step_def)
  from ev(2) have "map fst (calls s') = map fst (calls s) \<and> (no_panic s \<longrightarrow> no_panic s')"
  proof (cases rule: mutation_step_cases)
    case (prepared i c io now st fs)
    with keep [OF prepared(3,4), of "Executing st"] show ?thesis by (simp add: no_panic_def)
  next
    case (persisted i c st io r st' fs)
    with keep [OF persisted(3,4), of "Persisted st' r"] show ?thesis by (simp add: no_panic_def)
  next
    case (drained i c st r ws sy)
    with keep [OF drained(3,4), of "Sending st r ws"] show ?thesis by (simp add: no_panic_def)
  next
    case (answered i c st r w ws)
    with keep [OF answered(3,4), of "Sending st r ws"] show ?thesis by (simp add: no_panic_def)
  qed (use ev(1) in simp_all)
  then show "map fst (calls s') = map fst (calls s)" "no_panic s \<Longrightarrow> no_panic s'" by blast+
qed

end
