(* ===== verification/Swarm_Mutation_Properties.thy ===== *)
theory Swarm_Mutation_Properties
  imports Swarm_Mutation_Facts
begin

text \<open>
  The properties of the coordination of swarm mutations.
\<close>

section \<open>A run\<close>

definition demo_io :: file_access where
  "demo_io = \<lparr>readable = True, removable = True, writable = True\<rparr>"

definition demo_call :: "u64 \<Rightarrow> mutation_call" where
  "demo_call i = \<lparr>call_key = ''k'', call_action = ''spawn'', call_session = ''c'', replay_final = True,
     call_request = i, call_client = 0\<rparr>"

definition demo_state :: mutation_state where
  "demo_state = fresh_state 0 ''k'' ''spawn'' ''c''"

definition demo_final :: mutation_state where
  "demo_final = demo_state\<lparr>final_response := Some (RespSpawn ''w'')\<rparr>"

definition demo_waiter :: "u64 \<Rightarrow> mutation_waiter" where
  "demo_waiter i = \<lparr>waiter_request = i, waiter_client = 0\<rparr>"

text \<open>Two requests for one key; the second joins the execution of the first.\<close>

definition demo_claimed :: mutation_system where
  "demo_claimed = \<lparr>files = Map.empty,
     sync = \<lparr>active_keys = {''k''}, waiters = [''k'' \<mapsto> [demo_waiter 1]]\<rparr>,
     calls = [(demo_call 1, Claimed)], sent = []\<rparr>"

definition demo_joined :: mutation_system where
  "demo_joined = \<lparr>files = Map.empty,
     sync = \<lparr>active_keys = {''k''}, waiters = [''k'' \<mapsto> [demo_waiter 1, demo_waiter 2]]\<rparr>,
     calls = [(demo_call 1, Claimed), (demo_call 2, Joined)], sent = []\<rparr>"

definition demo_executing :: mutation_system where
  "demo_executing = \<lparr>files = [''k'' \<mapsto> demo_state],
     sync = \<lparr>active_keys = {''k''}, waiters = [''k'' \<mapsto> [demo_waiter 1, demo_waiter 2]]\<rparr>,
     calls = [(demo_call 1, Executing demo_state), (demo_call 2, Joined)], sent = []\<rparr>"

definition demo_persisted :: mutation_system where
  "demo_persisted = \<lparr>files = [''k'' \<mapsto> demo_final],
     sync = \<lparr>active_keys = {''k''}, waiters = [''k'' \<mapsto> [demo_waiter 1, demo_waiter 2]]\<rparr>,
     calls = [(demo_call 1, Persisted demo_final (RespSpawn ''w'')), (demo_call 2, Joined)], sent = []\<rparr>"

definition demo_drained :: mutation_system where
  "demo_drained = \<lparr>files = [''k'' \<mapsto> demo_final], sync = idle_sync,
     calls = [(demo_call 1, Sending demo_final (RespSpawn ''w'') [demo_waiter 1, demo_waiter 2]),
       (demo_call 2, Joined)], sent = []\<rparr>"

lemmas demo_defs = demo_io_def demo_call_def demo_state_def demo_final_def demo_waiter_def
  demo_claimed_def demo_joined_def demo_executing_def demo_persisted_def demo_drained_def

lemmas section_defs = begin_section_def load_state_def push_waiter_def idle_sync_def begin_state_def
  ensure_pending_state_def save_state_def fresh_state_def persist_final_response_def drain_section_def Let_def

lemma demo_mutation_steps:
  "mutation_step \<lparr>files = Map.empty, sync = idle_sync, calls = [], sent = []\<rparr> (Begin demo_io 0 (demo_call 1)) demo_claimed"
  "mutation_step demo_claimed (Begin demo_io 0 (demo_call 2)) demo_joined"
  "mutation_step demo_joined (Prepare demo_io 0) demo_executing"
  "mutation_step demo_executing (Persist demo_io (RespSpawn ''w'')) demo_persisted"
  "mutation_step demo_persisted Drain demo_drained"
  using begun [of demo_io 0 "demo_call 1" "\<lparr>files = Map.empty, sync = idle_sync, calls = [], sent = []\<rparr>"]
    begun [of demo_io 0 "demo_call 2" demo_claimed]
    prepared [of 0 demo_joined "demo_call 1" demo_io 0]
    persisted [of 0 demo_executing "demo_call 1" demo_state demo_io "RespSpawn ''w''"]
    drained [of 0 demo_persisted "demo_call 1" demo_final "RespSpawn ''w''"]
  by (simp_all add: demo_defs section_defs)

lemma demo_mutations_serving: "serving_mutations demo_joined" "serving_mutations demo_drained"
proof -
  have "serving_mutations \<lparr>files = Map.empty, sync = idle_sync, calls = [], sent = []\<rparr>"
    by (rule started) (simp add: well_keyed_def)
  then show joined: "serving_mutations demo_joined" by (rule served [OF served, OF _ demo_mutation_steps(1,2)])
  show "serving_mutations demo_drained"
    by (rule served [OF served [OF served, OF joined demo_mutation_steps(3,4)] demo_mutation_steps(5)])
qed

section \<open>Requests for one key\<close>

text \<open>
  C32: in every interleaving of requests, executions, file failures, deaths and restarts, a
  key is active exactly when a request of the running server holds it, that is has claimed
  it and not yet released it (a handler that died keeps it), and no two requests hold the
  same key, however many duplicates come.
\<close>

theorem one_execution_per_key:
  assumes "serving_mutations s"
  shows "(k \<in> active_keys (sync s) \<longleftrightarrow>
      (\<exists>i c p. i < length (calls s) \<and> calls s ! i = (c, p) \<and> holds p \<and> call_key c = k))
    \<and> (\<forall>i c p j d q. i < length (calls s) \<and> calls s ! i = (c, p) \<and> holds p \<and> call_key c = k \<and>
         j < length (calls s) \<and> calls s ! j = (d, q) \<and> holds q \<and> call_key d = k \<longrightarrow> i = j)"
proof -
  note ok = serving_ok [OF assms]
  have "\<exists>i c p. i < length (calls s) \<and> calls s ! i = (c, p) \<and> holds p \<and> call_key c = k"
    if "k \<in> active_keys (sync s)"
  proof -
    have "0 < holders k (calls s)" using ok that by (simp add: mutations_ok_def)
    then obtain c p where "(c, p) \<in> set (calls s)" "holds p" "call_key c = k" by (rule holders_member)
    then show ?thesis by (metis in_set_conv_nth)
  qed
  then show ?thesis using holder_active [OF ok] single_holder [OF ok] by blast
qed

theorem one_execution_per_key_witness:
  "(\<exists>i c p. i < length (calls demo_joined) \<and> calls demo_joined ! i = (c, p) \<and> holds p \<and> call_key c = ''k'')
   \<and> \<not> (\<exists>i c p. i < length (calls demo_drained) \<and> calls demo_drained ! i = (c, p) \<and> holds p \<and> call_key c = ''k'')"
  using one_execution_per_key [OF demo_mutations_serving(1), of "''k''"]
    one_execution_per_key [OF demo_mutations_serving(2), of "''k''"]
  by (simp add: demo_joined_def demo_drained_def idle_sync_def)

text \<open>
  No request is answered twice, also when handlers die; a request of a key nobody holds
  or sends for was answered exactly once; and while the key is held, those not answered are
  exactly the waiters.
\<close>

theorem requests_answered_once:
  assumes "serving_mutations s"
  shows "answered_requests k s \<subseteq># requested k s \<and>
    (sending k (calls s) = {#} \<longrightarrow>
       requested k s - answered_requests k s = (if k \<in> active_keys (sync s) then waiting k (sync s) else {#}))"
proof -
  note ok = serving_ok [OF assms]
  have sum: "requested k s = answered_requests k s + waiting k (sync s) + sending k (calls s)"
    using ok by (simp add: mutations_ok_def)
  have "waiting k (sync s) = {#}" if "k \<notin> active_keys (sync s)"
    using ok that by (simp add: mutations_ok_def waiting_def)
  with sum show ?thesis by (auto simp: add.assoc)
qed

theorem requests_answered_once_witness:
  "requested ''k'' demo_joined - answered_requests ''k'' demo_joined = {#(0, 1), (0, 2)#}"
  using requests_answered_once [OF demo_mutations_serving(1), of "''k''"]
  by (simp add: sending_def waiting_def waiter_id_def demo_defs)

text \<open>
  C33: executions end: without new requests, the requests that execute take finitely many
  steps, whatever order they take them in, and once none can take another, and no handler
  has died, every request was answered exactly once.
\<close>

theorem executions_answer_all:
  assumes "serving_mutations s" "no_panic s" "executor_step\<^sup>*\<^sup>* s s'"
  shows "wf {(t', t). executor_step t t'} \<and>
    ((\<exists>s''. executor_step s' s'') \<or> (\<forall>k. answered_requests k s' = requested k s))"
proof -
  have "wf (inv_image (less_than <*lex*> less_than) work_left)" by (intro wf_inv_image wf_lex_prod wf_less_than)
  then have "wf {(t', t). executor_step t t'}"
    by (rule wf_subset) (auto simp: executor_step_works)
  moreover have "(\<exists>s''. executor_step s' s'') \<or> (\<forall>k. answered_requests k s' = requested k s)"
  proof (cases "\<exists>s''. executor_step s' s''")
    case False
    from assms(3,1,2) have run: "serving_mutations s' \<and> no_panic s' \<and> map fst (calls s') = map fst (calls s)"
      by (induction rule: rtranclp_induct)
        (auto simp: executor_step_calls dest: executor_step_calls(2) intro: served simp: executor_step_def)
    have "\<not> holds p \<and> to_send p = []" if member: "(c, p) \<in> set (calls s')" for c p
    proof -
      obtain i where "i < length (calls s')" "calls s' ! i = (c, p)" using member by (auto simp: in_set_conv_nth)
      moreover have "p \<noteq> Panicked" using run member by (auto simp: no_panic_def)
      ultimately show ?thesis using executor_step_possible [of i s' c p] False by blast
    qed
    then have "answered_requests k s' = requested k s'" for k
      using run by (intro nothing_left serving_ok) auto
    with run show ?thesis by (simp add: requested_def)
  qed simp
  ultimately show ?thesis by blast
qed

theorem executions_answer_all_witness:
  "wf {(t', t). executor_step t t'} \<and>
    ((\<exists>s''. executor_step demo_drained s'') \<or> (\<forall>k. answered_requests k demo_drained = requested k demo_drained))"
  by (rule executions_answer_all [OF demo_mutations_serving(2)]) (simp_all add: no_panic_def demo_defs)

text \<open>
  C34: a stored response is what duplicates get: from when an execution released its key, and
  through everything the server does with other keys, dead handlers and restarts, a
  request that accepts stored responses, within the lifetime of the stored response and
  with its file readable, is answered with it at once, joins nothing, claims nothing and
  changes nothing else. (The requests for this key in between are of that kind too: one that
  insists on a new attempt, or one that cannot read the file, executes.)
\<close>

theorem duplicates_replayed:
  assumes "serving_mutations s" "k \<notin> active_keys (sync s)" "files s k = Some st" "final_response st = Some r"
    and "undisturbed k (created_at st + final_state_ttl) s s'"
    and "mutation_step s' (Begin io now c) s''" "call_key c = k" "replay_final c" "readable io"
    and "now \<le> created_at st + final_state_ttl"
  shows "s'' = s'\<lparr>calls := calls s' @ [(c, Joined)],
    sent := sent s' @ [(k, call_client c, into_server_event r (call_request c) (call_session c))]\<rparr>"
proof -
  have "settled k st s'"
    using settled_undisturbed [OF assms(5) _ assms(4)] assms(1-3) by (simp add: settled_def serving_ok)
  then have "files s' (call_key c) = Some st" using assms(7) by (simp add: settled_def)
  from replayed_section [of "files s'" c st r io now, OF this assms(4,8,9,10)] assms(6,7) show ?thesis
    by (auto elim!: begun_stepE)
qed

theorem duplicates_replayed_witness:
  "\<exists>s''. mutation_step demo_drained (Begin demo_io 30000 (demo_call 3)) s'' \<and>
     sent s'' = [(''k'', 0, EvSpawn 3 ''c'' ''w'')]"
proof -
  obtain s'' where next_step: "mutation_step demo_drained (Begin demo_io 30000 (demo_call 3)) s''"
    using begun [of demo_io 30000 "demo_call 3" demo_drained] by (metis surj_pair)
  then have "s'' = demo_drained\<lparr>calls := calls demo_drained @ [(demo_call 3, Joined)], sent := sent demo_drained @
        [(''k'', 0, into_server_event (RespSpawn ''w'') 3 ''c'')]\<rparr>"
    using duplicates_replayed [OF demo_mutations_serving(2), of "''k''" demo_final "RespSpawn ''w''" demo_drained
        demo_io 30000 "demo_call 3" s''] undisturbed.none
    by (simp add: demo_defs idle_sync_def fresh_state_def final_state_ttl_def)
  with next_step show ?thesis by (auto simp: demo_drained_def into_server_event_def)
qed

section \<open>Where duplicates execute again\<close>

text \<open>
  The lifetime of a stored response starts with the execution, not with the response: when
  the execution took longer, the response is stale when it is stored, and a duplicate that
  comes after the key was released executes the mutation again.
\<close>

lemma late_response_not_replayed:
  assumes "fs (call_key c) = Some st" "final_response st = Some r" "created_at st + final_state_ttl < now"
    "call_key c \<notin> active_keys sy"
  shows "\<exists>fs' sy'. begin_section io now c fs sy = (fs', sy', [], Claimed)"
proof -
  have "is_stale now st" using assms(2,3) by (simp add: is_stale_def elapsed_exceeds_def)
  with assms show ?thesis by (auto simp: begin_section_def load_state_def push_waiting)
qed

text \<open>
  While a new attempt that must not replay has claimed the key and not yet written its
  state, a duplicate that may replay still gets the response of the attempt before.
\<close>

lemma old_response_during_new_attempt:
  assumes "fs (call_key c) = Some st" "final_response st = Some r" "replay_final c" "readable io"
    "now \<le> created_at st + final_state_ttl" "call_key c \<in> active_keys sy"
  shows "begin_section io now c fs sy = (fs, sy, [into_server_event r (call_request c) (call_session c)], Joined)"
  by (rule replayed_section [of fs c st r io now, OF assms(1-5)])

end
