(* ===== verification/Dispatch_Plan.thy ===== *)
theory Dispatch_Plan
  imports Live_Graph
begin

text \<open>
  What dispatching does to a plan (\<open>crates/next-code-app-core/src/server/comm_control.rs\<close>
  and \<open>swarm.rs\<close>): assignment, the start and the end of a worker's turn, requeueing,
  heartbeats, the staleness sweep and the salvage of a dead worker's tasks. Each operation
  runs under the write lock of the plans. The clock is an argument; so is the prompt of an
  assignment, a text built from the plan that only its summary in the progress record
  depends on.
\<close>

definition u64_sub :: "u64 \<Rightarrow> u64 \<Rightarrow> u64" where
  "u64_sub a b = (if a < b then 0 else a - b)"

definition truncate_detail :: "string \<Rightarrow> nat \<Rightarrow> string" where
  "truncate_detail txt limit =
     (let trimmed = trim (join '' '' (split_whitespace txt)); n = max limit 1
      in if char_count trimmed \<le> n then trimmed
         else if n \<le> 3 then take_chars n trimmed
         else take_chars (n - 3) trimmed @ ''...'')"

text \<open>The first item with the id, and the entry of its progress.\<close>

definition update_task ::
  "string \<Rightarrow> (plan_item \<Rightarrow> plan_item) \<Rightarrow> (swarm_task_progress \<Rightarrow> swarm_task_progress) \<Rightarrow> versioned_plan \<Rightarrow> versioned_plan" where
  "update_task t f g p =
     p\<lparr>plan_items := update_first_item t f (plan_items p),
       task_progress := (task_progress p)(t \<mapsto> g (unwrap_or (task_progress p t) default_progress))\<rparr>"

definition bump_count :: "u64 option \<Rightarrow> u64 option" where
  "bump_count c = Some (unwrap_or c 0 + 1)"

section \<open>Assignment\<close>

definition last_activity :: "swarm_task_progress \<Rightarrow> u64 option" where
  "last_activity pr =
     (case last_heartbeat_unix_ms pr of Some t \<Rightarrow> Some t
      | None \<Rightarrow> (case started_at_unix_ms pr of Some t \<Rightarrow> Some t | None \<Rightarrow> assigned_at_unix_ms pr))"

text \<open>The assignee of a task that is being worked on, and how long ago it was active.\<close>

definition active_assignment_conflict ::
  "string \<Rightarrow> string option \<Rightarrow> swarm_task_progress option \<Rightarrow> u64 \<Rightarrow> u64 \<Rightarrow> (string \<times> u64) option" where
  "active_assignment_conflict st assigned progress now within_ms =
     (case assigned of
        None \<Rightarrow> None
      | Some a \<Rightarrow>
          (if st \<notin> {''queued'', ''running''} then None
           else (case Option.bind progress last_activity of
                   None \<Rightarrow> None
                 | Some t \<Rightarrow> (if u64_sub now t < within_ms then Some (a, u64_sub now t) else None))))"

definition active_assignment_error :: "string \<Rightarrow> string \<times> u64 \<Rightarrow> string" where
  "active_assignment_error t conflict =
     ''Task '' @ tc_quote t @ '' is already assigned to '' @ tc_quote (fst conflict) @ '' (active '' @
     show_nat (unat (snd conflict) div 1000) @
     ''s ago); refusing to double-assign. Use task_control reassign/replace to take over (the '' @
     ''displaced worker is told to stand down), retry to re-dispatch to the same assignee, or wait '' @
     ''for the assignment to finish or go stale.''"

datatype assign_dedup_mode = ReplayFinal | AlwaysDispatch

definition assignment_progress :: "string \<Rightarrow> string \<Rightarrow> u64 \<Rightarrow> swarm_task_progress" where
  "assignment_progress target summary now =
     default_progress\<lparr>assigned_session_id := Some target, assignment_summary := Some (truncate_detail summary 120),
       assigned_at_unix_ms := Some now\<rparr>"

definition assign_item ::
  "u64 \<Rightarrow> string \<Rightarrow> string \<Rightarrow> string \<Rightarrow> string option \<Rightarrow> string \<Rightarrow> versioned_plan \<Rightarrow> versioned_plan" where
  "assign_item now req target prompt message t p =
     bump_version ((update_task t (\<lambda>i. i\<lparr>pi_assigned_to := Some target, pi_status := ''queued''\<rparr>)
         (\<lambda>_. assignment_progress target (combine_assignment_text prompt message) now) p)
       \<lparr>participants := finsert target (finsert req (participants p))\<rparr>)"

definition assign_conflict ::
  "assign_dedup_mode \<Rightarrow> u64 \<Rightarrow> u64 \<Rightarrow> string option \<Rightarrow> versioned_plan \<Rightarrow> string option" where
  "assign_conflict md now stale_ms task p =
     (if md = ReplayFinal then
        Option.bind task (\<lambda>t. Option.bind (find_item (plan_items p) t) (\<lambda>i.
          map_option (active_assignment_error t)
            (active_assignment_conflict (pi_status i) (pi_assigned_to i) (task_progress p t) now stale_ms)))
      else None)"

definition assign_task_plan ::
  "assign_dedup_mode \<Rightarrow> u64 \<Rightarrow> u64 \<Rightarrow> string \<Rightarrow> string \<Rightarrow> string option \<Rightarrow> string option \<Rightarrow>
   (versioned_plan \<Rightarrow> string \<Rightarrow> string) \<Rightarrow> versioned_plan \<Rightarrow> versioned_plan \<times> (string + string)" where
  "assign_task_plan md now stale_ms req target task message prompt p =
     (let selected = (case task of Some t \<Rightarrow> Some t | None \<Rightarrow> next_unassigned_runnable_item_id p);
          blocked = (case assign_conflict md now stale_ms task p of
              Some m \<Rightarrow> Some m | None \<Rightarrow> Option.bind task (explicit_task_blocked_reason p));
          found = (if blocked \<noteq> None then None else Option.bind selected (find_item (plan_items p)))
      in case found of
           Some i \<Rightarrow> (assign_item now req target (prompt p (pi_id i)) message (pi_id i) p, ok (pi_id i))
         | None \<Rightarrow>
             (p, err (case blocked of
                Some m \<Rightarrow> m
              | None \<Rightarrow>
                  (case task of
                     None \<Rightarrow> ''No runnable unassigned tasks are available in the swarm plan''
                   | Some t \<Rightarrow> ''Task '' @ tc_quote t @ '' not found in swarm plan''))))"

definition requeue_existing_assignment ::
  "u64 \<Rightarrow> string \<Rightarrow> string \<Rightarrow> string \<Rightarrow> string \<Rightarrow> versioned_plan \<Rightarrow> versioned_plan option" where
  "requeue_existing_assignment now req assignee t summary p =
     (case find_item (plan_items p) t of
        None \<Rightarrow> None
      | Some _ \<Rightarrow>
          Some (bump_version ((update_task t (\<lambda>i. i\<lparr>pi_assigned_to := Some assignee, pi_status := ''queued''\<rparr>)
            (\<lambda>pr. pr\<lparr>assigned_session_id := Some assignee, assignment_summary := Some (truncate_detail summary 120),
               assigned_at_unix_ms := Some now, completed_at_unix_ms := None, stale_since_unix_ms := None\<rparr>) p)
            \<lparr>participants := finsert assignee (finsert req (participants p))\<rparr>)))"

section \<open>The turn of a worker\<close>

definition start_run :: "u64 \<Rightarrow> string \<Rightarrow> string \<Rightarrow> string \<Rightarrow> versioned_plan \<Rightarrow> versioned_plan" where
  "start_run now target t run_prompt p =
     (case find_item (plan_items p) t of
        None \<Rightarrow> p
      | Some _ \<Rightarrow>
          bump_version (update_task t (\<lambda>i. i\<lparr>pi_status := ''running''\<rparr>)
            (\<lambda>pr. pr\<lparr>assigned_session_id := Some target, assignment_summary := Some (truncate_detail run_prompt 120),
               started_at_unix_ms := Some now, last_heartbeat_unix_ms := Some now,
               last_detail := Some (truncate_detail run_prompt 120), last_checkpoint_unix_ms := Some now,
               checkpoint_summary := Some ''task started'', completed_at_unix_ms := None,
               stale_since_unix_ms := None, heartbeat_count := bump_count (heartbeat_count pr),
               checkpoint_count := bump_count (checkpoint_count pr)\<rparr>) p))"

datatype turn_end_disposition = AutoComplete | RequeueNoArtifact | FailNoArtifact | LeaveAlone

definition decide_turn_end :: "bool \<Rightarrow> string \<Rightarrow> bool \<Rightarrow> u32 \<Rightarrow> turn_end_disposition" where
  "decide_turn_end is_deep st composite prior =
     (if st \<notin> {''running'', ''running_stale''} then LeaveAlone
      else if is_deep then (if prior = 0 then RequeueNoArtifact else FailNoArtifact)
      else if composite then LeaveAlone
      else AutoComplete)"

definition is_deep_plan :: "versioned_plan \<Rightarrow> bool" where
  "is_deep_plan p \<longleftrightarrow> eq_ignore_ascii_case (plan_mode p) ''deep''"

definition is_open_composite :: "versioned_plan \<Rightarrow> string \<Rightarrow> bool" where
  "is_open_composite p t \<longleftrightarrow>
     (case node_meta_map p t of None \<Rightarrow> False | Some m \<Rightarrow> meta_expanded m \<and> \<not> meta_is_gate m)"

definition prior_requeues :: "versioned_plan \<Rightarrow> string \<Rightarrow> u32" where
  "prior_requeues p t = unwrap_or (Option.bind (task_progress p t) no_artifact_requeues) 0"

definition checkpoint :: "u64 \<Rightarrow> string \<Rightarrow> swarm_task_progress \<Rightarrow> swarm_task_progress" where
  "checkpoint now summary pr =
     pr\<lparr>last_heartbeat_unix_ms := Some now, last_checkpoint_unix_ms := Some now,
        checkpoint_summary := Some summary, stale_since_unix_ms := None,
        checkpoint_count := bump_count (checkpoint_count pr)\<rparr>"

definition apply_turn_end :: "u64 \<Rightarrow> string \<Rightarrow> turn_end_disposition \<Rightarrow> versioned_plan \<Rightarrow> versioned_plan" where
  "apply_turn_end now t d p =
     (case d of
        AutoComplete \<Rightarrow>
          bump_version (update_task t (\<lambda>i. i\<lparr>pi_status := ''done''\<rparr>)
            (\<lambda>pr. (checkpoint now ''task completed'' pr)\<lparr>completed_at_unix_ms := Some now\<rparr>) p)
      | RequeueNoArtifact \<Rightarrow>
          bump_version (update_task t (\<lambda>i. i\<lparr>pi_status := ''queued'', pi_assigned_to := None\<rparr>)
            (\<lambda>pr. (checkpoint now ''requeued: deep-mode turn ended without a complete_node artifact'' pr)
               \<lparr>assigned_session_id := None, no_artifact_requeues := Some (prior_requeues p t + 1)\<rparr>) p)
      | FailNoArtifact \<Rightarrow>
          bump_version (update_task t (\<lambda>i. i\<lparr>pi_status := ''failed''\<rparr>)
            (\<lambda>pr. (checkpoint now
               ''failed: repeated deep-mode turns ended without a complete_node artifact'' pr)
               \<lparr>completed_at_unix_ms := Some now\<rparr>) p)
      | LeaveAlone \<Rightarrow> p)"

definition end_run_ok :: "u64 \<Rightarrow> string \<Rightarrow> versioned_plan \<Rightarrow> versioned_plan" where
  "end_run_ok now t p =
     (case find_item (plan_items p) t of
        None \<Rightarrow> p
      | Some i \<Rightarrow>
          apply_turn_end now t
            (decide_turn_end (is_deep_plan p) (pi_status i) (is_open_composite p t) (prior_requeues p t)) p)"

definition end_run_error :: "u64 \<Rightarrow> string \<Rightarrow> string \<Rightarrow> versioned_plan \<Rightarrow> versioned_plan" where
  "end_run_error now t e p =
     (case find_item (plan_items p) t of
        None \<Rightarrow> p
      | Some _ \<Rightarrow>
          bump_version (update_task t (\<lambda>i. i\<lparr>pi_status := ''failed''\<rparr>)
            (\<lambda>pr. (checkpoint now (truncate_detail (''task failed: '' @ e) 120) pr)
               \<lparr>completed_at_unix_ms := Some now\<rparr>) p))"

section \<open>Heartbeats and staleness\<close>

definition touch_progress ::
  "u64 \<Rightarrow> string option \<Rightarrow> string option \<Rightarrow> string option \<Rightarrow> swarm_task_progress \<Rightarrow> swarm_task_progress" where
  "touch_progress now session detail summary pr =
     (let p1 = (case session of None \<Rightarrow> pr | Some s \<Rightarrow> pr\<lparr>assigned_session_id := Some s\<rparr>);
          p2 = p1\<lparr>last_heartbeat_unix_ms := Some now, heartbeat_count := bump_count (heartbeat_count pr)\<rparr>;
          p3 = (case detail of None \<Rightarrow> p2 | Some d \<Rightarrow> p2\<lparr>last_detail := Some (truncate_detail d 120)\<rparr>)
      in case summary of None \<Rightarrow> p3
         | Some s \<Rightarrow> p3\<lparr>last_checkpoint_unix_ms := Some now, checkpoint_summary := Some (truncate_detail s 120),
             checkpoint_count := bump_count (checkpoint_count pr)\<rparr>)"

definition touch_swarm_task_progress ::
  "u64 \<Rightarrow> string \<Rightarrow> string option \<Rightarrow> string option \<Rightarrow> string option \<Rightarrow> versioned_plan \<Rightarrow> versioned_plan \<times> bool" where
  "touch_swarm_task_progress now t session detail summary p =
     (case find_item (plan_items p) t of
        None \<Rightarrow> (p, False)
      | Some i \<Rightarrow>
          (if pi_status i = ''running_stale''
           then (bump_version (update_task t (\<lambda>i. i\<lparr>pi_status := ''running''\<rparr>)
                   (\<lambda>pr. (touch_progress now session detail summary pr)\<lparr>stale_since_unix_ms := None\<rparr>) p), True)
           else (update_task t (\<lambda>i. i) (touch_progress now session detail summary) p, False)))"

text \<open>One item of the sweep, over the progress map and the version.\<close>

definition sweep_item ::
  "u64 \<Rightarrow> u64 \<Rightarrow> plan_item \<Rightarrow> (string \<rightharpoonup> swarm_task_progress) \<times> u64 \<Rightarrow>
   plan_item \<times> (string \<rightharpoonup> swarm_task_progress) \<times> u64" where
  "sweep_item now stale_ms i s =
     (case s of (progress, v) \<Rightarrow>
        (if \<not> is_active_status (pi_status i) then (i, progress, v)
         else
           let pr = unwrap_or (progress (pi_id i)) default_progress;
               is_stale = (case last_activity pr of None \<Rightarrow> True | Some t \<Rightarrow> stale_ms \<le> u64_sub now t);
               progress' = progress(pi_id i \<mapsto> pr)
           in if pi_status i = ''running'' \<and> is_stale then
                (i\<lparr>pi_status := ''running_stale''\<rparr>,
                 progress'(pi_id i \<mapsto> pr\<lparr>stale_since_unix_ms := Some (unwrap_or (stale_since_unix_ms pr) now)\<rparr>), v + 1)
              else if pi_status i = ''running_stale'' \<and> \<not> is_stale then
                (i\<lparr>pi_status := ''running''\<rparr>, progress'(pi_id i \<mapsto> pr\<lparr>stale_since_unix_ms := None\<rparr>), v + 1)
              else (i, progress', v)))"

fun sweep_items ::
  "u64 \<Rightarrow> u64 \<Rightarrow> plan_item list \<Rightarrow> (string \<rightharpoonup> swarm_task_progress) \<times> u64 \<Rightarrow>
   plan_item list \<times> (string \<rightharpoonup> swarm_task_progress) \<times> u64" where
  "sweep_items now stale_ms [] s = ([], s)"
| "sweep_items now stale_ms (i # is) s =
     (case sweep_item now stale_ms i s of
        (i', s') \<Rightarrow> (case sweep_items now stale_ms is s' of (is', s'') \<Rightarrow> (i' # is', s'')))"

definition refresh_swarm_task_staleness :: "u64 \<Rightarrow> u64 \<Rightarrow> versioned_plan \<Rightarrow> versioned_plan" where
  "refresh_swarm_task_staleness now stale_ms p =
     (case sweep_items now stale_ms (plan_items p) (task_progress p, plan_version p) of
        (items, progress, v) \<Rightarrow> p\<lparr>plan_items := items, task_progress := progress, plan_version := v\<rparr>)"

section \<open>Dead workers\<close>

definition member_status_is_dead :: "string \<Rightarrow> bool" where
  "member_status_is_dead s \<longleftrightarrow> s \<in> {''failed'', ''stopped'', ''crashed''}"

record dead_member_salvage =
  requeued_task_ids :: "string list"
  failed_task_ids :: "string list"

definition salvage_task ::
  "u64 \<Rightarrow> string \<Rightarrow> string \<Rightarrow> versioned_plan \<times> dead_member_salvage \<Rightarrow> versioned_plan \<times> dead_member_salvage" where
  "salvage_task now session t s =
     (case s of (p, out) \<Rightarrow>
        (if max_dead_assignee_reclaims \<le> reclaims p t then
           (bump_version (update_task t (\<lambda>i. i\<lparr>pi_status := ''failed'', pi_assigned_to := None\<rparr>)
              (\<lambda>pr. pr\<lparr>assigned_session_id := None, completed_at_unix_ms := Some now, stale_since_unix_ms := None,
                 checkpoint_summary := Some (truncate_detail (''failed: assigned worker '' @ session @
                   '' died and the automatic reclaim cap was reached'') 120)\<rparr>) p),
            out\<lparr>failed_task_ids := failed_task_ids out @ [t]\<rparr>)
         else (case reclaim_stranded_assignment p t of
                 (p', True) \<Rightarrow>
                   (update_task t (\<lambda>i. i\<lparr>pi_status := ''queued''\<rparr>) (\<lambda>pr. pr\<lparr>stale_since_unix_ms := None\<rparr>) p',
                    out\<lparr>requeued_task_ids := requeued_task_ids out @ [t]\<rparr>)
               | (p', False) \<Rightarrow> (p', out))))"

definition held_by :: "string \<Rightarrow> plan_item \<Rightarrow> bool" where
  "held_by session i \<longleftrightarrow> pi_assigned_to i = Some session \<and> \<not> is_terminal_status (pi_status i)"

definition salvage_plan_assignments_of ::
  "u64 \<Rightarrow> string \<Rightarrow> versioned_plan \<Rightarrow> versioned_plan \<times> dead_member_salvage" where
  "salvage_plan_assignments_of now session p =
     fold (salvage_task now session) (map pi_id (filter (held_by session) (plan_items p)))
       (p, \<lparr>requeued_task_ids = [], failed_task_ids = []\<rparr>)"

section \<open>The next task, with stranded ones reclaimed\<close>

definition assignee_is_dead :: "(string \<rightharpoonup> swarm_member) \<Rightarrow> string \<Rightarrow> string \<Rightarrow> bool" where
  "assignee_is_dead members swarm session =
     (case members session of
        Some m \<Rightarrow> (if sm_swarm_id m = Some swarm then member_status_is_dead (sm_status m) else True)
      | None \<Rightarrow> True)"

definition next_runnable_task_id_reclaiming_stranded ::
  "(string \<rightharpoonup> swarm_member) \<Rightarrow> string \<Rightarrow> versioned_plan \<Rightarrow> versioned_plan \<times> string option" where
  "next_runnable_task_id_reclaiming_stranded members swarm p =
     (case next_unassigned_runnable_item_id p of
        Some t \<Rightarrow> (p, Some t)
      | None \<Rightarrow>
          (case next_stranded_runnable_item_id p (assignee_is_dead members swarm) of
             None \<Rightarrow> (p, None)
           | Some t \<Rightarrow>
               (case reclaim_stranded_assignment p t of (p', r) \<Rightarrow> (p', if r then Some t else None))))"

section \<open>All steps\<close>

text \<open>The operations in any order, with any arguments.\<close>

inductive dispatch_step :: "versioned_plan \<Rightarrow> versioned_plan \<Rightarrow> bool" where
  assigning: "dispatch_step p (fst (assign_task_plan md now stale_ms req target task message prompt p))"
| requeueing: "requeue_existing_assignment now req a t summary p = Some p' \<Longrightarrow> dispatch_step p p'"
| starting: "dispatch_step p (start_run now target t prompt p)"
| ending: "dispatch_step p (end_run_ok now t p)"
| failing: "dispatch_step p (end_run_error now t e p)"
| touching: "dispatch_step p (fst (touch_swarm_task_progress now t session detail summary p))"
| sweeping: "dispatch_step p (refresh_swarm_task_staleness now stale_ms p)"
| salvaging: "dispatch_step p (fst (salvage_plan_assignments_of now session p))"
| reclaiming: "dispatch_step p (fst (next_runnable_task_id_reclaiming_stranded members swarm p))"

end
