(* ===== verification/Dispatch_Facts.thy ===== *)
theory Dispatch_Facts
  imports Dispatch_Plan Live_Refinement
begin

text \<open>
  Laws of dispatching: no operation on a deep plan closes an item, assignment and start are
  one dispatch of the engine, an assignment that is active is not taken over, and the exact
  effect of a salvage.
\<close>

section \<open>Updating one item\<close>

lemma update_task_fields [simp]:
  "plan_items (update_task t f g p) = update_first_item t f (plan_items p)"
  "plan_mode (update_task t f g p) = plan_mode p"
  "node_meta_map (update_task t f g p) = node_meta_map p"
  "plan_version (update_task t f g p) = plan_version p"
  "participants (update_task t f g p) = participants p"
  by (simp_all add: update_task_def)

lemma update_task_progress:
  "task_progress (update_task t f g p) i
     = (if i = t then Some (g (unwrap_or (task_progress p t) default_progress)) else task_progress p i)"
  by (simp add: update_task_def)

lemma bump_fields [simp]:
  "plan_items (bump_version p) = plan_items p" "plan_mode (bump_version p) = plan_mode p"
  "node_meta_map (bump_version p) = node_meta_map p" "task_progress (bump_version p) = task_progress p"
  "participants (bump_version p) = participants p"
  by (simp_all add: bump_version_def)

lemma update_first_item_ids [simp]:
  "(\<And>x. pi_id (f x) = pi_id x) \<Longrightarrow> map pi_id (update_first_item t f items) = map pi_id items"
  by (induction items) auto

lemma update_first_item_eq:
  "distinct (map pi_id items) \<Longrightarrow>
     update_first_item t f items = map (\<lambda>i. if pi_id i = t then f i else i) items"
proof (induction items)
  case (Cons a items)
  have "map (\<lambda>i. if pi_id i = pi_id a then f i else i) items = items"
    using Cons.prems by (intro map_idI) (auto, metis image_eqI)
  then show ?case using Cons by auto
qed simp

lemma update_first_item_twice:
  "(\<And>x. pi_id (f x) = pi_id x) \<Longrightarrow>
     update_first_item t h (update_first_item t f items) = update_first_item t (\<lambda>x. h (f x)) items"
  by (induction items) auto

section \<open>Nothing is closed\<close>

definition closes_nothing :: "versioned_plan \<Rightarrow> versioned_plan \<Rightarrow> bool" where
  "closes_nothing p p' \<longleftrightarrow> plan_mode p' = plan_mode p \<and> map pi_id (plan_items p') = map pi_id (plan_items p)
     \<and> completed_item_ids (plan_items p') \<subseteq> completed_item_ids (plan_items p)"

lemma closes_nothing_refl [simp]: "closes_nothing p p"
  by (simp add: closes_nothing_def)

lemma closes_nothing_trans: "closes_nothing p q \<Longrightarrow> closes_nothing q r \<Longrightarrow> closes_nothing p r"
  by (auto simp: closes_nothing_def)

lemma closes_nothing_deep: "closes_nothing p p' \<Longrightarrow> is_deep_plan p' \<longleftrightarrow> is_deep_plan p"
  by (simp add: closes_nothing_def is_deep_plan_def)

text \<open>What matters of an item: its id is kept and it is not completed by the update.\<close>

definition opens :: "(plan_item \<Rightarrow> plan_item) \<Rightarrow> bool" where
  "opens f \<longleftrightarrow> (\<forall>x. pi_id (f x) = pi_id x
     \<and> (is_completed_status (pi_status (f x)) \<longrightarrow> is_completed_status (pi_status x)))"

lemma completed_Cons:
  "completed_item_ids (i # is)
     = (if is_completed_status (pi_status i) then {pi_id i} else {}) \<union> completed_item_ids is"
  by (auto simp: completed_item_ids_def)

lemma opens_completed: "opens f \<Longrightarrow> completed_item_ids (update_first_item t f items) \<subseteq> completed_item_ids items"
  by (induction items) (auto simp: completed_Cons opens_def)

lemma opens_update: "opens f \<Longrightarrow> closes_nothing p (update_task t f g p)"
  using opens_completed by (auto simp: closes_nothing_def opens_def)

lemma opens_bump: "closes_nothing p q \<Longrightarrow> closes_nothing p (bump_version q)"
  by (simp add: closes_nothing_def)

lemma opens_participants: "closes_nothing p q \<Longrightarrow> closes_nothing p (q\<lparr>participants := ps\<rparr>)"
  by (simp add: closes_nothing_def)

named_theorems opens_intro \<open>operations that close nothing\<close>
declare opens_bump [opens_intro] opens_participants [opens_intro] opens_update [opens_intro]

lemma opens_status [opens_intro]:
  "\<not> is_completed_status s \<Longrightarrow> opens (\<lambda>i. i\<lparr>pi_status := s\<rparr>)"
  "\<not> is_completed_status s \<Longrightarrow> opens (\<lambda>i. i\<lparr>pi_status := s, pi_assigned_to := a\<rparr>)"
  "\<not> is_completed_status s \<Longrightarrow> opens (\<lambda>i. i\<lparr>pi_assigned_to := a, pi_status := s\<rparr>)"
  "opens (\<lambda>i. i)"
  by (simp_all add: opens_def)

lemma open_words [simp]:
  "\<not> is_completed_status ''queued''" "\<not> is_completed_status ''running''"
  "\<not> is_completed_status ''running_stale''" "\<not> is_completed_status ''failed''"
  by (simp_all add: is_completed_status_def)

lemma assign_opens: "closes_nothing p (fst (assign_task_plan md now stale_ms req target task message prompt p))"
  by (auto simp: assign_task_plan_def assign_item_def Let_def intro!: opens_intro split: option.split)

lemma requeue_opens: "requeue_existing_assignment now req a t summary p = Some p' \<Longrightarrow> closes_nothing p p'"
  by (auto simp: requeue_existing_assignment_def intro!: opens_intro split: option.splits)

lemma start_opens: "closes_nothing p (start_run now target t prompt p)"
  by (auto simp: start_run_def intro!: opens_intro split: option.split)

lemma error_opens: "closes_nothing p (end_run_error now t e p)"
  by (auto simp: end_run_error_def intro!: opens_intro split: option.split)

lemma deep_never_completes: "decide_turn_end True st composite prior \<noteq> AutoComplete"
  by (simp add: decide_turn_end_def)

lemma turn_end_opens: "d \<noteq> AutoComplete \<Longrightarrow> closes_nothing p (apply_turn_end now t d p)"
  by (cases d) (auto simp: apply_turn_end_def intro!: opens_intro)

lemma end_opens: "is_deep_plan p \<Longrightarrow> closes_nothing p (end_run_ok now t p)"
  by (auto simp: end_run_ok_def intro!: turn_end_opens deep_never_completes split: option.split)

lemma touch_opens: "closes_nothing p (fst (touch_swarm_task_progress now t session detail summary p))"
  by (auto simp: touch_swarm_task_progress_def intro!: opens_intro split: option.split)

lemma sweep_item_open:
  assumes "sweep_item now stale_ms i s = (i', s')"
  shows "pi_id i' = pi_id i \<and> pi_blocked_by i' = pi_blocked_by i \<and> pi_assigned_to i' = pi_assigned_to i
    \<and> (pi_status i' = pi_status i \<or> pi_status i' \<in> {''running'', ''running_stale''})"
  using assms by (cases s) (auto simp: sweep_item_def Let_def split: if_splits)

lemma sweep_items_open:
  "sweep_items now stale_ms is s = (is', s') \<Longrightarrow>
     map pi_id is' = map pi_id is \<and> completed_item_ids is' \<subseteq> completed_item_ids is"
proof (induction "is" arbitrary: s is' s')
  case (Cons i "is")
  obtain i1 s1 where 1: "sweep_item now stale_ms i s = (i1, s1)" by (rule prod.exhaust)
  obtain is2 s2 where 2: "sweep_items now stale_ms is s1 = (is2, s2)" by (rule prod.exhaust)
  have "is' = i1 # is2" using Cons.prems 1 2 by simp
  then show ?case
    using sweep_item_open [OF 1] Cons.IH [OF 2] by (auto simp: completed_Cons)
qed simp

lemma sweep_opens: "closes_nothing p (refresh_swarm_task_staleness now stale_ms p)"
proof -
  obtain "is" pr v where s: "sweep_items now stale_ms (plan_items p) (task_progress p, plan_version p) = (is, pr, v)"
    by (metis prod_cases3)
  show ?thesis
    using sweep_items_open [OF s] by (simp add: refresh_swarm_task_staleness_def s closes_nothing_def)
qed

lemma reclaim_opens: "closes_nothing p (fst (reclaim_stranded_assignment p t))"
proof -
  have "opens (\<lambda>x. x\<lparr>pi_assigned_to := None\<rparr>)" by (simp add: opens_def)
  then show ?thesis
    using opens_completed by (auto simp: reclaim_stranded_assignment_def closes_nothing_def split: option.split)
qed

lemma salvage_task_opens: "closes_nothing (fst s) (fst (salvage_task now session t s))"
proof (cases s)
  case (Pair p out)
  have r: "closes_nothing p p'" if "reclaim_stranded_assignment p t = (p', b)" for p' b
    using reclaim_opens [of p t] that by simp
  have q: "closes_nothing p (update_task t (\<lambda>i. i\<lparr>pi_status := ''queued''\<rparr>) g p')"
    if "reclaim_stranded_assignment p t = (p', b)" for p' b g
    using closes_nothing_trans [OF r [OF that] opens_update [OF opens_status(1)]] by simp
  show ?thesis
    unfolding Pair salvage_task_def prod.case fst_conv
    by (cases "reclaim_stranded_assignment p t"; cases "snd (reclaim_stranded_assignment p t)")
      (simp_all add: opens_intro q r)
qed

lemma salvage_opens: "closes_nothing p (fst (salvage_plan_assignments_of now session p))"
proof -
  have "closes_nothing (fst s) (fst (fold (salvage_task now session) ts s))" for ts s
  proof (induction ts arbitrary: s)
    case (Cons t ts)
    show ?case using closes_nothing_trans [OF salvage_task_opens [of s] Cons.IH] by simp
  qed simp
  then show ?thesis by (metis salvage_plan_assignments_of_def fst_conv)
qed

lemma next_task_opens: "closes_nothing p (fst (next_runnable_task_id_reclaiming_stranded members swarm p))"
proof -
  have "closes_nothing p p'" if "reclaim_stranded_assignment p t = (p', b)" for t p' b
    using reclaim_opens [of p t] that by simp
  then show ?thesis
    by (auto simp: next_runnable_task_id_reclaiming_stranded_def split: option.split prod.split)
qed

lemma dispatch_step_opens: "dispatch_step p p' \<Longrightarrow> is_deep_plan p \<Longrightarrow> closes_nothing p p'"
  by (induction rule: dispatch_step.induct)
    (auto intro: assign_opens requeue_opens start_opens error_opens end_opens touch_opens sweep_opens
      salvage_opens next_task_opens)

lemma dispatch_steps_open: "dispatch_step\<^sup>*\<^sup>* p p' \<Longrightarrow> is_deep_plan p \<Longrightarrow> closes_nothing p p'"
proof (induction rule: rtranclp_induct)
  case (step q r)
  then show ?case
    using closes_nothing_trans closes_nothing_deep dispatch_step_opens by blast
qed simp

section \<open>Assignment and start\<close>

text \<open>The lifted graph of a plan one item of which is updated.\<close>

lemma lift_update_first:
  assumes "\<And>x. pi_id (f x) = pi_id x" "\<And>x. item_to_node dec p (f x) = h (item_to_node dec p x)"
  shows "map (item_to_node dec p) (update_first_item t f items)
    = update_first t h (map (item_to_node dec p) items)"
  using assms by (induction items) auto

lemma lift_congr:
  "node_meta_map p' = node_meta_map p \<Longrightarrow> item_to_node dec p' = item_to_node dec p"
  by (simp add: item_to_node_def item_meta_def fun_eq_iff)

lemma lift_updated:
  assumes "plan_items p' = update_first_item t f (plan_items p)" "plan_mode p' = plan_mode p"
    "node_meta_map p' = node_meta_map p" "\<And>x. pi_id (f x) = pi_id x"
    "\<And>x. item_to_node dec p (f x) = h (item_to_node dec p x)"
  shows "to_task_graph dec p' = modify (to_task_graph dec p) t h"
  using assms lift_update_first [of f dec p h] lift_congr [OF assms(3), of dec]
  by (simp add: to_task_graph_eq modify_def)

lemma lift_running:
  "item_to_node dec p (i\<lparr>pi_assigned_to := Some w, pi_status := ''running''\<rparr>)
     = (item_to_node dec p i)\<lparr>owner := Some w, status := Running\<rparr>"
  by (simp add: item_to_node_def Let_def status_from_plan_def)

lemma assign_okD:
  assumes "assign_task_plan md now stale_ms req target task message prompt p = (p1, Inr t)"
  obtains i where "find_item (plan_items p) t = Some i" "pi_id i = t"
    "p1 = assign_item now req target (prompt p t) message t p"
    "task = Some t \<and> explicit_task_blocked_reason p t = None
      \<or> task = None \<and> next_unassigned_runnable_item_id p = Some t"
    "assign_conflict md now stale_ms task p = None"
proof -
  let ?sel = "case task of Some t \<Rightarrow> Some t | None \<Rightarrow> next_unassigned_runnable_item_id p"
  let ?blocked = "case assign_conflict md now stale_ms task p of
      Some m \<Rightarrow> Some m | None \<Rightarrow> Option.bind task (explicit_task_blocked_reason p)"
  let ?found = "if ?blocked \<noteq> None then None else Option.bind ?sel (find_item (plan_items p))"
  have a: "(case ?found of
        Some i \<Rightarrow> (assign_item now req target (prompt p (pi_id i)) message (pi_id i) p, ok (pi_id i))
      | None \<Rightarrow> (p, err e)) = (p1, Inr t)" for e
    using assms unfolding assign_task_plan_def Let_def by (cases ?found) (simp_all, metis)
  obtain i where i: "?found = Some i" using a by (cases ?found) auto
  have f: "?blocked = None" "Option.bind ?sel (find_item (plan_items p)) = Some i"
    "p1 = assign_item now req target (prompt p (pi_id i)) message (pi_id i) p" "t = pi_id i"
    using a i by (simp_all split: if_splits)
  then have s: "?sel = Some t" "find_item (plan_items p) t = Some i"
    by (auto simp: bind_eq_Some_conv dest: find_item_SomeD)
  have b: "assign_conflict md now stale_ms task p = None" "Option.bind task (explicit_task_blocked_reason p) = None"
    using f(1) by (auto split: option.splits)
  show ?thesis using that [OF s(2)] f(3,4) s(1) b by (cases task) auto
qed

lemma assigned_then_started:
  assumes "find_item (plan_items p) t = Some i"
  shows "plan_items (start_run now' target t run_prompt (assign_item now req target c message t p))
      = update_first_item t (\<lambda>i. i\<lparr>pi_assigned_to := Some target, pi_status := ''running''\<rparr>) (plan_items p)"
    "plan_mode (start_run now' target t run_prompt (assign_item now req target c message t p)) = plan_mode p"
    "node_meta_map (start_run now' target t run_prompt (assign_item now req target c message t p)) = node_meta_map p"
  using assms
  by (simp_all add: start_run_def assign_item_def find_update_first_item update_first_item_twice)

lemma explicit_unblocked:
  assumes "explicit_task_blocked_reason p t = None" "find_item (plan_items p) t = Some i"
  shows "set (pi_blocked_by i) \<subseteq> completed_item_ids (plan_items p)"
  using assms unresolved_Nil_iff missing_Nil_iff
  by (fastforce simp: explicit_task_blocked_reason_def Let_def split: if_splits)

lemma next_unassigned_ready:
  assumes "distinct (map pi_id (plan_items p))" "next_unassigned_runnable_item_id p = Some t"
    "find_item (plan_items p) t = Some i"
  shows "is_runnable_status (pi_status i) \<and> set (pi_blocked_by i) \<subseteq> completed_item_ids (plan_items p)"
proof -
  have "t \<in> set (next_runnable_item_ids (plan_items p) None)"
    using assms(2) unfolding next_unassigned_runnable_item_id_def by (auto dest: find_SomeD)
  then obtain j where j: "ready_item (plan_items p) j" "pi_id j = t"
    by (auto simp: set_next_runnable set_ready_ids)
  then have "j = i" using find_item_unique [OF assms(1)] assms(3) by (force simp: ready_item_def)
  then show ?thesis using j(1) by (simp add: ready_item_def)
qed

lemma runnable_lifts_queued: "is_runnable_status s \<Longrightarrow> status_from_plan s = Queued"
  by (auto simp: is_runnable_status_def status_from_plan_def)

lemma completed_lifts_done: "is_completed_status s \<Longrightarrow> status_from_plan s = Done"
  by (auto simp: is_completed_status_def status_from_plan_def)

lemma get_lift: "get (to_task_graph dec p) t = map_option (item_to_node dec p) (find_item (plan_items p) t)"
proof -
  have "find (\<lambda>n. nid n = t) (map (item_to_node dec p) is)
      = map_option (item_to_node dec p) (find (\<lambda>it. pi_id it = t) is)" for "is"
    by (induction "is") auto
  then show ?thesis by (simp add: get_def to_task_graph_eq find_item_def)
qed

lemma unblocked_deps_satisfied:
  assumes u: "distinct (map pi_id (plan_items p))"
    and b: "set (pi_blocked_by i) \<subseteq> completed_item_ids (plan_items p)"
  shows "deps_satisfied (to_task_graph dec p) (item_to_node dec p i)"
  unfolding deps_satisfied_iff
proof
  fix d assume "d \<in> set (depends_on (item_to_node dec p i))"
  then have "d \<in> completed_item_ids (plan_items p)" using b by (auto simp: item_to_node_def Let_def)
  then obtain j where j: "j \<in> set (plan_items p)" "pi_id j = d" "is_completed_status (pi_status j)"
    by (auto simp: completed_item_ids_def)
  then have "get (to_task_graph dec p) d = Some (item_to_node dec p j)"
    using find_item_unique [OF u j(1)] by (simp add: get_lift)
  then show "\<exists>c. get (to_task_graph dec p) d = Some c \<and> status c = Done"
    using completed_lifts_done [OF j(3)] by (auto simp: item_to_node_def Let_def)
qed

definition lifts_queued :: "versioned_plan \<Rightarrow> string \<Rightarrow> bool" where
  "lifts_queued p t \<longleftrightarrow>
     (case find_item (plan_items p) t of None \<Rightarrow> False | Some i \<Rightarrow> status_from_plan (pi_status i) = Queued)"

lemma assign_start_dispatches:
  assumes u: "distinct (map pi_id (plan_items p))"
    and a: "assign_task_plan md now stale_ms req target task message prompt p = (p1, Inr t)"
    and q: "task = None \<or> lifts_queued p t"
  shows "dispatch (to_task_graph dec p) t target = (to_task_graph dec (start_run now' target t run_prompt p1), True)"
proof -
  from assign_okD [OF a] obtain i where i: "find_item (plan_items p) t = Some i"
    and p1: "p1 = assign_item now req target (prompt p t) message t p"
    and c: "task = Some t \<and> explicit_task_blocked_reason p t = None
      \<or> task = None \<and> next_unassigned_runnable_item_id p = Some t" by blast
  have s: "status_from_plan (pi_status i) = Queued \<and> set (pi_blocked_by i) \<subseteq> completed_item_ids (plan_items p)"
    using c
  proof
    assume "task = Some t \<and> explicit_task_blocked_reason p t = None"
    then show ?thesis using q i explicit_unblocked [OF _ i] by (auto simp: lifts_queued_def)
  next
    assume "task = None \<and> next_unassigned_runnable_item_id p = Some t"
    then show ?thesis using next_unassigned_ready [OF u _ i] runnable_lifts_queued by blast
  qed
  have "dispatchable (to_task_graph dec p) t"
    using s unblocked_deps_satisfied [OF u, of i] i
    by (simp add: dispatchable_def get_lift item_to_node_def Let_def)
  moreover have "to_task_graph dec (start_run now' target t run_prompt p1)
      = modify (to_task_graph dec p) t (\<lambda>n. n\<lparr>owner := Some target, status := Running\<rparr>)"
    unfolding p1 by (rule lift_updated [OF assigned_then_started [OF i] _ lift_running]) simp
  ultimately show ?thesis by (simp add: dispatch_def)
qed

section \<open>Active assignments\<close>

lemma find_after_assign:
  "find_item (plan_items p) t = Some i \<Longrightarrow>
     find_item (plan_items (assign_item now req target c message t p)) t
       = Some (i\<lparr>pi_assigned_to := Some target, pi_status := ''queued''\<rparr>)"
  by (simp add: assign_item_def find_update_first_item)

lemma progress_after_assign:
  "task_progress (assign_item now req target c message t p) t
     = Some (assignment_progress target (combine_assignment_text c message) now)"
  by (simp add: assign_item_def update_task_progress)

lemma assigned_is_active:
  assumes "find_item (plan_items p) t = Some i" "u64_sub now' now < stale_ms"
  shows "assign_conflict ReplayFinal now' stale_ms (Some t) (assign_item now req target c message t p)
    = Some (active_assignment_error t (target, u64_sub now' now))"
  using assms
  by (simp add: assign_conflict_def find_after_assign progress_after_assign active_assignment_conflict_def
      assignment_progress_def default_progress_def last_activity_def)

lemma find_after_start:
  "find_item (plan_items p) t = Some i \<Longrightarrow>
     find_item (plan_items (start_run now target t prompt p)) t = Some (i\<lparr>pi_status := ''running''\<rparr>)"
  by (simp add: start_run_def find_update_first_item)

lemma progress_after_start:
  assumes "find_item (plan_items p) t = Some i"
  shows "\<exists>pr. task_progress (start_run now target t prompt p) t = Some pr \<and> last_heartbeat_unix_ms pr = Some now
    \<and> no_artifact_requeues pr = Option.bind (task_progress p t) no_artifact_requeues
    \<and> dead_assignee_reclaims pr = Option.bind (task_progress p t) dead_assignee_reclaims"
  using assms
  by (cases "task_progress p t") (simp_all add: start_run_def update_task_progress default_progress_def)

lemma started_is_active:
  assumes i: "find_item (plan_items p) t = Some i" "pi_assigned_to i = Some a" "u64_sub now' now < stale_ms"
  shows "assign_conflict ReplayFinal now' stale_ms (Some t) (start_run now target t prompt p)
    = Some (active_assignment_error t (a, u64_sub now' now))"
  using i progress_after_start [OF i(1), of now target prompt]
  by (auto simp: assign_conflict_def find_after_start active_assignment_conflict_def last_activity_def)

lemma conflict_refuses:
  "assign_conflict md now stale_ms task p = Some m \<Longrightarrow>
     assign_task_plan md now stale_ms req target task message prompt p = (p, Inl m)"
  by (simp add: assign_task_plan_def)

section \<open>Salvage\<close>

definition salvaged_item :: "versioned_plan \<Rightarrow> plan_item \<Rightarrow> plan_item" where
  "salvaged_item p i =
     i\<lparr>pi_status := (if max_dead_assignee_reclaims \<le> reclaims p (pi_id i) then ''failed'' else ''queued''),
       pi_assigned_to := None\<rparr>"

text \<open>One task: its item, its counter, and the list it goes to.\<close>

lemma salvage_one:
  assumes u: "distinct (map pi_id (plan_items p))"
    and i: "i \<in> set (plan_items p)" "pi_id i = t" "pi_assigned_to i \<noteq> None"
    and s: "salvage_task now session t (p, out) = (p', out')"
  shows "plan_items p' = map (\<lambda>j. if pi_id j = t then salvaged_item p j else j) (plan_items p)
    \<and> (\<forall>j. reclaims p' j = (if j = t \<and> reclaims p t < max_dead_assignee_reclaims then reclaims p j + 1 else reclaims p j))
    \<and> requeued_task_ids out' = requeued_task_ids out @ (if reclaims p t < max_dead_assignee_reclaims then [t] else [])
    \<and> failed_task_ids out' = failed_task_ids out @ (if reclaims p t < max_dead_assignee_reclaims then [] else [t])"
proof (cases "max_dead_assignee_reclaims \<le> reclaims p t")
  case True
  have "reclaims p' j = reclaims p j" for j
    using True s by (cases "task_progress p t")
      (auto simp: salvage_task_def reclaims_def update_task_progress default_progress_def)
  moreover have "plan_items p' = map (\<lambda>j. if pi_id j = t then salvaged_item p j else j) (plan_items p)"
    using True s by (auto simp: salvage_task_def update_first_item_eq [OF u] salvaged_item_def)
  ultimately show ?thesis using True s by (auto simp: salvage_task_def)
next
  case False
  have "find_item (plan_items p) t = Some i" using find_item_unique [OF u i(1)] i(2) by simp
  then obtain p1 where r: "reclaim_stranded_assignment p t = (p1, True)"
    using i(3) by (auto simp: reclaim_stranded_assignment_def split: option.split)
  then have items: "plan_items p1 = update_first_item t (\<lambda>x. x\<lparr>pi_assigned_to := None\<rparr>) (plan_items p)"
    by (auto simp: reclaim_True)
  have p': "p' = update_task t (\<lambda>i. i\<lparr>pi_status := ''queued''\<rparr>) (\<lambda>pr. pr\<lparr>stale_since_unix_ms := None\<rparr>) p1"
    and o: "out' = out\<lparr>requeued_task_ids := requeued_task_ids out @ [t]\<rparr>"
    using False s r by (auto simp: salvage_task_def)
  have "plan_items p' = map (\<lambda>j. if pi_id j = t then salvaged_item p j else j) (plan_items p)"
    using False by (simp add: p' items update_first_item_twice) (auto simp: update_first_item_eq [OF u] salvaged_item_def)
  moreover have "reclaims p' j = reclaims p1 j" for j
    by (cases "task_progress p1 t") (simp_all add: p' reclaims_def update_task_progress default_progress_def)
  ultimately show ?thesis using False o reclaims_after [OF r] by (auto simp: not_le)
qed

lemma salvage_many:
  assumes "distinct (map pi_id (plan_items p))" "distinct ts"
    "\<forall>t \<in> set ts. \<exists>i \<in> set (plan_items p). pi_id i = t \<and> pi_assigned_to i \<noteq> None"
    "fold (salvage_task now session) ts (p, out) = (p', out')"
  shows "plan_items p' = map (\<lambda>i. if pi_id i \<in> set ts then salvaged_item p i else i) (plan_items p)
    \<and> (\<forall>j. reclaims p' j = (if j \<in> set ts \<and> reclaims p j < max_dead_assignee_reclaims then reclaims p j + 1 else reclaims p j))
    \<and> requeued_task_ids out' = requeued_task_ids out @ filter (\<lambda>t. reclaims p t < max_dead_assignee_reclaims) ts
    \<and> failed_task_ids out' = failed_task_ids out @ filter (\<lambda>t. \<not> reclaims p t < max_dead_assignee_reclaims) ts"
  using assms
proof (induction ts arbitrary: p out)
  case (Cons t ts)
  obtain p1 out1 where s: "salvage_task now session t (p, out) = (p1, out1)" by (rule prod.exhaust)
  obtain i where i: "i \<in> set (plan_items p)" "pi_id i = t" "pi_assigned_to i \<noteq> None"
    using Cons.prems(3) by auto
  note one = salvage_one [OF Cons.prems(1) i s]
  have same: "reclaims p1 j = reclaims p j" if "j \<in> set ts" for j using one that Cons.prems(2) by auto
  have items: "plan_items p1 = map (\<lambda>j. if pi_id j = t then salvaged_item p j else j) (plan_items p)"
    using one by blast
  have ids: "map pi_id (plan_items p1) = map pi_id (plan_items p)"
    unfolding items by (simp add: salvaged_item_def)
  have h: "\<forall>t' \<in> set ts. \<exists>j \<in> set (plan_items p1). pi_id j = t' \<and> pi_assigned_to j \<noteq> None"
  proof
    fix t' assume t': "t' \<in> set ts"
    then have "t' \<in> set (t # ts)" by simp
    from bspec [OF Cons.prems(3) this]
    obtain j where "j \<in> set (plan_items p)" "pi_id j = t'" "pi_assigned_to j \<noteq> None" by blast
    then show "\<exists>j \<in> set (plan_items p1). pi_id j = t' \<and> pi_assigned_to j \<noteq> None"
      using t' Cons.prems(2) unfolding items by force
  qed
  have f: "fold (salvage_task now session) ts (p1, out1) = (p', out')" using Cons.prems(4) s by simp
  have ih: "plan_items p' = map (\<lambda>i. if pi_id i \<in> set ts then salvaged_item p1 i else i) (plan_items p1)
    \<and> (\<forall>j. reclaims p' j = (if j \<in> set ts \<and> reclaims p1 j < max_dead_assignee_reclaims then reclaims p1 j + 1 else reclaims p1 j))
    \<and> requeued_task_ids out' = requeued_task_ids out1 @ filter (\<lambda>t. reclaims p1 t < max_dead_assignee_reclaims) ts
    \<and> failed_task_ids out' = failed_task_ids out1 @ filter (\<lambda>t. \<not> reclaims p1 t < max_dead_assignee_reclaims) ts"
    using Cons.prems(1,2) h f by (intro Cons.IH) (simp_all add: ids)
  have filters: "filter (\<lambda>t. reclaims p1 t < max_dead_assignee_reclaims) ts
      = filter (\<lambda>t. reclaims p t < max_dead_assignee_reclaims) ts"
    "filter (\<lambda>t. \<not> reclaims p1 t < max_dead_assignee_reclaims) ts
      = filter (\<lambda>t. \<not> reclaims p t < max_dead_assignee_reclaims) ts"
    using same by (auto intro: filter_cong)
  have "plan_items p' = map (\<lambda>i. if pi_id i \<in> set (t # ts) then salvaged_item p i else i) (plan_items p)"
    using ih same Cons.prems(2) unfolding items by (auto simp: salvaged_item_def)
  moreover have "reclaims p' j = (if j \<in> set (t # ts) \<and> reclaims p j < max_dead_assignee_reclaims
      then reclaims p j + 1 else reclaims p j)" for j
    using ih one Cons.prems(2) by auto
  ultimately show ?case using ih one filters by auto
qed simp

end
