(* ===== verification/Dispatch_Targets.thy ===== *)
theory Dispatch_Targets
  imports Dispatch_Plan
begin

text \<open>
  Who gets a task (\<open>comm_control.rs\<close>): the workers automatic assignment may use, their
  ranking, and the claims that keep concurrent requests from picking the same one. The
  members of a hash map come in any order, the argument \<open>order\<close>; \<open>clock\<close> is the reading of
  the monotonic clock, in milliseconds, when a worker is tried.
\<close>

section \<open>Candidates\<close>

definition is_drivable_auto_worker :: "swarm_member \<Rightarrow> string \<Rightarrow> bool" where
  "is_drivable_auto_worker m req \<longleftrightarrow> sm_is_headless m \<or> sm_report_back_to m = Some req"

definition is_candidate :: "(string \<rightharpoonup> swarm_member) \<Rightarrow> string \<Rightarrow> string \<Rightarrow> string \<Rightarrow> bool" where
  "is_candidate members req swarm session =
     (case members session of
        None \<Rightarrow> False
      | Some m \<Rightarrow> session \<noteq> req \<and> sm_swarm_id m = Some swarm \<and> sm_role m = ''agent'' \<and>
          sm_status m \<in> {''ready'', ''completed''} \<and> is_drivable_auto_worker m req)"

definition filter_swarm_agent_candidates ::
  "(string \<rightharpoonup> swarm_member) \<Rightarrow> string list \<Rightarrow> string \<Rightarrow> string \<Rightarrow> string list" where
  "filter_swarm_agent_candidates members order req swarm = filter (is_candidate members req swarm) order"

definition load_of :: "(string \<rightharpoonup> nat) \<Rightarrow> string \<Rightarrow> nat" where
  "load_of m s = unwrap_or (m s) 0"

definition member_has_active_assignment :: "string \<Rightarrow> (string \<rightharpoonup> nat) \<Rightarrow> bool" where
  "member_has_active_assignment s loads \<longleftrightarrow> load_of loads s > 0"

section \<open>Claims\<close>

definition auto_assign_claim_ttl :: nat where "auto_assign_claim_ttl = 15 * 1000"

type_synonym claims = "string \<rightharpoonup> nat"

definition auto_assign_claim_key :: "string \<Rightarrow> string \<Rightarrow> string" where
  "auto_assign_claim_key swarm session = swarm @ nl @ session"

definition live_claims :: "nat \<Rightarrow> claims \<Rightarrow> claims" where
  "live_claims now cl =
     (\<lambda>k. case cl k of None \<Rightarrow> None | Some at \<Rightarrow> (if now - at < auto_assign_claim_ttl then Some at else None))"

definition try_claim_auto_assign_target :: "nat \<Rightarrow> string \<Rightarrow> string \<Rightarrow> claims \<Rightarrow> claims \<times> bool" where
  "try_claim_auto_assign_target now swarm session cl =
     (let live = live_claims now cl; k = auto_assign_claim_key swarm session
      in if live k = None then (live(k \<mapsto> now), True) else (live, False))"

definition release_auto_assign_claim :: "string \<Rightarrow> string \<Rightarrow> claims \<Rightarrow> claims" where
  "release_auto_assign_claim swarm session cl = cl(auto_assign_claim_key swarm session := None)"

definition no_auto_target_error :: "nat \<Rightarrow> string" where
  "no_auto_target_error busy_skipped =
     ''No ready or completed swarm agents are available for automatic task assignment.'' @
     (if busy_skipped > 0
      then '' Skipped '' @ show_nat busy_skipped @ '' worker(s) that already have an active assignment or an '' @
        ''in-flight pick; spawn a fresh agent (spawn_if_needed/prefer_spawn) or wait for one to finish.''
      else [])"

fun select_loop ::
  "(string \<Rightarrow> nat) \<Rightarrow> string \<Rightarrow> (string \<rightharpoonup> nat) \<Rightarrow> string list \<Rightarrow> nat \<Rightarrow> claims \<Rightarrow> claims \<times> (string + string)" where
  "select_loop clock swarm loads [] busy cl = (cl, err (no_auto_target_error busy))"
| "select_loop clock swarm loads (s # ss) busy cl =
     (if member_has_active_assignment s loads then select_loop clock swarm loads ss (busy + 1) cl
      else (case try_claim_auto_assign_target (clock s) swarm s cl of
              (cl', True) \<Rightarrow> (cl', ok s)
            | (cl', False) \<Rightarrow> select_loop clock swarm loads ss (busy + 1) cl'))"

definition select_and_claim_auto_target ::
  "(string \<Rightarrow> nat) \<Rightarrow> string \<Rightarrow> string list \<Rightarrow> (string \<rightharpoonup> nat) \<Rightarrow> claims \<Rightarrow> claims \<times> (string + string)" where
  "select_and_claim_auto_target clock swarm cands loads cl = select_loop clock swarm loads cands 0 cl"

section \<open>Ranking\<close>

definition ready_rank :: "(string \<rightharpoonup> swarm_member) \<Rightarrow> string \<Rightarrow> nat" where
  "ready_rank members s = (case members s of None \<Rightarrow> 1 | Some m \<Rightarrow> (if sm_status m = ''ready'' then 0 else 1))"

text \<open>
  A stable sort by the last key first sorts by the keys in lexicographic order; a carry
  counts for its worker, so it sorts downwards.
\<close>

definition rank_by_load :: "(string \<rightharpoonup> swarm_member) \<Rightarrow> (string \<rightharpoonup> nat) \<Rightarrow> string list \<Rightarrow> string list" where
  "rank_by_load members loads cands =
     sort_key (load_of loads) (sort_key (ready_rank members) (sort_key (\<lambda>s. s) cands))"

definition rank_by_affinity ::
  "(string \<rightharpoonup> swarm_member) \<Rightarrow> assignment_affinities \<Rightarrow> string list \<Rightarrow> string list" where
  "rank_by_affinity members aff cands =
     sort_key (\<lambda>s. - int (load_of (dependency_carryover aff) s))
       (sort_key (\<lambda>s. - int (load_of (metadata_carryover aff) s)) (rank_by_load members (aff_loads aff) cands))"

section \<open>Resolving the target\<close>

definition check_requested_target ::
  "(string \<rightharpoonup> swarm_member) \<Rightarrow> string \<Rightarrow> string \<Rightarrow> string \<Rightarrow> string + string" where
  "check_requested_target members req swarm target =
     (if target = req then err ''Coordinator cannot assign a swarm task to itself.''
      else (case members target of
              None \<Rightarrow> err (''Unknown session '' @ tc_quote target)
            | Some m \<Rightarrow>
                (if sm_swarm_id m \<noteq> Some swarm
                 then err (''Session '' @ tc_quote target @ '' is not in swarm '' @ tc_quote swarm @
                   '' and cannot receive this task.'')
                 else ok target)))"

definition resolve_assignment_target_session ::
  "(string \<Rightarrow> nat) \<Rightarrow> (string \<rightharpoonup> swarm_member) \<Rightarrow> string list \<Rightarrow> string \<Rightarrow> string \<Rightarrow> string option \<Rightarrow>
   versioned_plan option \<Rightarrow> claims \<Rightarrow> claims \<times> (string + string)" where
  "resolve_assignment_target_session clock members order req swarm requested plan cl =
     (case requested of
        Some target \<Rightarrow> (cl, check_requested_target members req swarm target)
      | None \<Rightarrow>
          (let loads = (case plan of None \<Rightarrow> Map.empty | Some p \<Rightarrow> assignment_loads p);
               cands = filter_swarm_agent_candidates members order req swarm
           in select_and_claim_auto_target clock swarm (rank_by_load members loads cands) loads cl))"

definition planner_of :: "versioned_plan \<Rightarrow> string \<Rightarrow> string option" where
  "planner_of p t =
     (case node_meta_map p t of
        None \<Rightarrow> None
      | Some m \<Rightarrow> (if meta_expanded m \<and> \<not> meta_is_gate m then meta_planner m else None))"

definition rewake_planner ::
  "(string \<Rightarrow> nat) \<Rightarrow> (string \<rightharpoonup> swarm_member) \<Rightarrow> string list \<Rightarrow> string \<Rightarrow> string \<Rightarrow> string \<Rightarrow>
   versioned_plan option \<Rightarrow> claims \<Rightarrow> claims \<times> string option" where
  "rewake_planner clock members order req swarm t plan cl =
     (case Option.bind plan (\<lambda>p. planner_of p t) of
        None \<Rightarrow> (cl, None)
      | Some owner' \<Rightarrow>
          (if owner' \<noteq> req \<and> owner' \<in> set (filter_swarm_agent_candidates members order req swarm)
           then (case try_claim_auto_assign_target (clock owner') swarm owner' cl of
                   (cl', r) \<Rightarrow> (cl', if r then Some owner' else None))
           else (cl, None)))"

definition resolve_assignment_target_for_task ::
  "(string \<Rightarrow> nat) \<Rightarrow> (string \<rightharpoonup> swarm_member) \<Rightarrow> string list \<Rightarrow> string \<Rightarrow> string \<Rightarrow> string \<Rightarrow> string option \<Rightarrow>
   versioned_plan option \<Rightarrow> claims \<Rightarrow> claims \<times> (string + string)" where
  "resolve_assignment_target_for_task clock members order req swarm t requested plan cl =
     (if requested \<noteq> None then resolve_assignment_target_session clock members order req swarm requested plan cl
      else (case rewake_planner clock members order req swarm t plan cl of
              (cl', Some owner') \<Rightarrow> (cl', ok owner')
            | (cl', None) \<Rightarrow>
                (case plan of
                   None \<Rightarrow> (cl', err ''No runnable unassigned tasks are available in the swarm plan'')
                 | Some p \<Rightarrow>
                     (case assignment_affinities_for_task p t of
                        Inl e \<Rightarrow> (cl', err e)
                      | Inr aff \<Rightarrow>
                          (let cands = filter_swarm_agent_candidates members order req swarm
                           in select_and_claim_auto_target clock swarm (rank_by_affinity members aff cands)
                                (aff_loads aff) cl')))))"

section \<open>Task control\<close>

datatype control_decision =
    Continue string
  | Redispatch string "string option"

text \<open>
  The checks of a task-control request on the snapshot of its task, up to the availability
  of the session: an error with its delay, continuing with the assignee, or dispatching to
  a session again, with the text the coordinator sends along (\<open>salvage\<close> is the text about
  the prior worker).
\<close>

definition not_assigned :: "string \<Rightarrow> string" where
  "not_assigned t = ''Task '' @ tc_quote t @
     '' is not currently assigned. Use assign_task to create the first assignment.''"

definition extra_instructions :: "string option \<Rightarrow> string" where
  "extra_instructions message =
     (case message of None \<Rightarrow> [] | Some extra \<Rightarrow> nl @ nl @ ''Additional coordinator instructions:'' @ nl @ extra)"

definition hand_off ::
  "task_control_action \<Rightarrow> string \<Rightarrow> string \<Rightarrow> string \<Rightarrow> string option \<Rightarrow> string option \<Rightarrow> string \<Rightarrow>
   (string \<times> nat option) + control_decision" where
  "hand_off action t st assignee target message salvage =
     (case target of
        None \<Rightarrow> err (tc_quote ''target_session'' @ '' is required for '' @ tc_str action @ ''.'', None)
      | Some new_target \<Rightarrow>
          (if new_target = assignee
           then err (''Task '' @ tc_quote t @ '' is already assigned to '' @ tc_quote assignee @ ''.'', None)
           else if st = ''running''
           then err (''Task '' @ tc_quote t @ '' is actively running on '' @ tc_quote assignee @
             ''. Wait, wake, or stop that agent before handing the task off.'', Some 1)
           else if action = Replace \<and>
             st \<notin> {''queued'', ''failed'', ''stopped'', ''crashed'', ''running_stale''}
           then err (''Task '' @ tc_quote t @ '' is '' @ tc_quote st @ '' and cannot be safely replaced.'', None)
           else ok (Redispatch new_target
             (case action of
                Salvage \<Rightarrow> Some salvage
              | Replace \<Rightarrow> Some (''This task is replacing prior assignee '' @ tc_quote assignee @ ''.'' @
                  extra_instructions message)
              | _ \<Rightarrow> message))))"

definition continue_with :: "string \<Rightarrow> string \<Rightarrow> string option \<Rightarrow> (string \<times> nat option) + control_decision" where
  "continue_with t assignee target =
     (case target of
        None \<Rightarrow> ok (Continue assignee)
      | Some requested \<Rightarrow>
          (if requested = assignee then ok (Continue assignee)
           else err (''Task '' @ tc_quote t @ '' is assigned to '' @ tc_quote assignee @ '', not '' @
             tc_quote requested @ ''. Use reassign or replace to change ownership.'', None)))"

definition control_task ::
  "task_control_action \<Rightarrow> string \<Rightarrow> string option \<Rightarrow> string option \<Rightarrow> string \<Rightarrow> versioned_plan \<Rightarrow>
   (string \<times> nat option) + control_decision" where
  "control_task action t target message salvage p =
     (case find_item (plan_items p) t of
        None \<Rightarrow> err (''Task '' @ tc_quote t @ '' not found in swarm plan'', None)
      | Some i \<Rightarrow>
          (if \<not> task_control_action_allows_status action (pi_status i)
           then err (task_control_status_error action (pi_status i) t, None)
           else (case pi_assigned_to i of
                   None \<Rightarrow> err (not_assigned t, None)
                 | Some assignee \<Rightarrow>
                     (case action of
                        Start \<Rightarrow> continue_with t assignee target
                      | Wake \<Rightarrow> continue_with t assignee target
                      | Resume \<Rightarrow> continue_with t assignee target
                      | Retry \<Rightarrow> ok (Redispatch assignee (Some (''Retry this assignment.'' @ extra_instructions message)))
                      | _ \<Rightarrow> hand_off action t (pi_status i) assignee target message salvage))))"

end
