(* ===== verification/Dispatch_Target_Facts.thy ===== *)
theory Dispatch_Target_Facts
  imports Dispatch_Targets "HOL-Library.Product_Lexorder"
begin

text \<open>
  Laws of the choice of a worker: a claim stands until it is released or its time to live
  is over, the ranking is a lexicographic order, and the loop takes the first worker of it
  that is idle and unclaimed.
\<close>

section \<open>Claims\<close>

datatype claim_event = TryClaim nat string string | ReleaseClaim string string

fun claim_event_step :: "claim_event \<Rightarrow> claims \<Rightarrow> claims" where
  "claim_event_step (TryClaim now swarm session) cl = fst (try_claim_auto_assign_target now swarm session cl)"
| "claim_event_step (ReleaseClaim swarm session) cl = release_auto_assign_claim swarm session cl"

fun event_time :: "claim_event \<Rightarrow> nat option" where
  "event_time (TryClaim now _ _) = Some now"
| "event_time (ReleaseClaim _ _) = None"

fun releases :: "string \<Rightarrow> claim_event \<Rightarrow> bool" where
  "releases k (ReleaseClaim swarm session) = (auto_assign_claim_key swarm session = k)"
| "releases k (TryClaim _ _ _) = False"

text \<open>A claim that was made at time \<open>t\<close> stands, or \<open>t'\<close> is past its life.\<close>

definition claim_stands :: "string \<Rightarrow> nat \<Rightarrow> nat \<Rightarrow> claims \<Rightarrow> bool" where
  "claim_stands k t t' cl \<longleftrightarrow> cl k = Some t \<or> t + auto_assign_claim_ttl \<le> t'"

lemma claimed:
  "try_claim_auto_assign_target now swarm session cl = (cl', True) \<Longrightarrow>
     cl' (auto_assign_claim_key swarm session) = Some now
     \<and> live_claims now cl (auto_assign_claim_key swarm session) = None"
  by (auto simp: try_claim_auto_assign_target_def Let_def split: if_splits)

lemma claim_stands_try:
  assumes "claim_stands k t t0 cl" "t \<le> t0" "t0 \<le> now"
  shows "claim_stands k t now (fst (try_claim_auto_assign_target now swarm session cl))"
  using assms
  by (auto simp: claim_stands_def try_claim_auto_assign_target_def live_claims_def Let_def split: if_splits)

lemma claim_stands_later: "claim_stands k t t0 cl \<Longrightarrow> t0 \<le> t1 \<Longrightarrow> claim_stands k t t1 cl"
  by (auto simp: claim_stands_def)

lemma claim_stands_events:
  assumes "claim_stands k t t0 cl" "t \<le> t0" "sorted (t0 # List.map_filter event_time es @ [t1])"
    "\<not> list_ex (releases k) es"
  shows "claim_stands k t t1 (fold claim_event_step es cl)"
  using assms
proof (induction es arbitrary: cl t0)
  case Nil
  then show ?case by (auto intro: claim_stands_later simp: map_filter_simps)
next
  case (Cons e es)
  show ?case
  proof (cases e)
    case (TryClaim now swarm session)
    then have "claim_stands k t t1 (fold claim_event_step es (claim_event_step e cl))"
      using Cons.prems claim_stands_try [OF Cons.prems(1,2), of now swarm session]
      by (intro Cons.IH [of now]) (auto simp: map_filter_simps)
    then show ?thesis by simp
  next
    case (ReleaseClaim swarm session)
    then have "claim_stands k t t1 (fold claim_event_step es (claim_event_step e cl))"
      using Cons.prems
      by (intro Cons.IH [of t0]) (auto simp: map_filter_simps claim_stands_def release_auto_assign_claim_def)
    then show ?thesis by simp
  qed
qed

section \<open>Ranking\<close>

lemma sort_key_pair: "sorted (map k xs) \<Longrightarrow> sorted (map (\<lambda>x. (f x, k x)) (sort_key f xs))"
  using sort_key_lex [of k xs f]
  by (auto simp: sorted_map lex_le_def less_eq_prod_def elim!: sorted_wrt_mono_rel [rotated])

definition load_rank ::
  "(string \<rightharpoonup> swarm_member) \<Rightarrow> (string \<rightharpoonup> nat) \<Rightarrow> string \<Rightarrow> nat \<times> nat \<times> string" where
  "load_rank members loads s = (load_of loads s, ready_rank members s, s)"

definition affinity_rank ::
  "(string \<rightharpoonup> swarm_member) \<Rightarrow> assignment_affinities \<Rightarrow> string \<Rightarrow> int \<times> int \<times> nat \<times> nat \<times> string" where
  "affinity_rank members aff s =
     (- int (load_of (dependency_carryover aff) s), - int (load_of (metadata_carryover aff) s),
      load_rank members (aff_loads aff) s)"

lemma ranked_by_load: "sorted (map (load_rank members loads) (rank_by_load members loads cands))"
  unfolding load_rank_def rank_by_load_def by (intro sort_key_pair) simp

lemma ranked_by_affinity: "sorted (map (affinity_rank members aff) (rank_by_affinity members aff cands))"
  unfolding affinity_rank_def rank_by_affinity_def by (intro sort_key_pair ranked_by_load)

lemma set_ranked [simp]:
  "set (rank_by_load members loads cands) = set cands"
  "set (rank_by_affinity members aff cands) = set cands"
  by (simp_all add: rank_by_load_def rank_by_affinity_def)

section \<open>The loop\<close>

definition available :: "nat \<Rightarrow> string \<Rightarrow> (string \<rightharpoonup> nat) \<Rightarrow> claims \<Rightarrow> string \<Rightarrow> bool" where
  "available now swarm loads cl s \<longleftrightarrow>
     load_of loads s = 0 \<and> live_claims now cl (auto_assign_claim_key swarm s) = None"

lemma live_live [simp]: "live_claims now (live_claims now cl) = live_claims now cl"
  by (auto simp: live_claims_def fun_eq_iff split: option.split)

lemma try_claim_eq:
  "try_claim_auto_assign_target now swarm s cl =
     (if live_claims now cl (auto_assign_claim_key swarm s) = None
      then ((live_claims now cl)(auto_assign_claim_key swarm s \<mapsto> now), True) else (live_claims now cl, False))"
  by (simp add: try_claim_auto_assign_target_def Let_def)

lemma available_live [simp]: "available now swarm loads (live_claims now cl) s = available now swarm loads cl s"
  by (simp add: available_def)

lemma select_loop_first:
  "select_loop (\<lambda>_. now) swarm loads cands busy cl = (cl', Inr w) \<Longrightarrow>
     find (available now swarm loads cl) cands = Some w
     \<and> cl' = (live_claims now cl)(auto_assign_claim_key swarm w \<mapsto> now)"
proof (induction cands arbitrary: busy cl)
  case (Cons s ss)
  show ?case
  proof (cases "available now swarm loads cl s")
    case True
    then show ?thesis
      using Cons.prems by (auto simp: available_def member_has_active_assignment_def try_claim_eq)
  next
    case False
    show ?thesis
    proof (cases "load_of loads s > 0")
      case True
      then show ?thesis using False Cons by (auto simp: member_has_active_assignment_def)
    next
      case load: False
      then have "select_loop (\<lambda>_. now) swarm loads ss (busy + 1) (live_claims now cl) = (cl', Inr w)"
        using False Cons.prems by (auto simp: available_def member_has_active_assignment_def try_claim_eq)
      from Cons.IH [OF this] False show ?thesis by simp
    qed
  qed
qed simp

lemma select_loop_fails:
  "select_loop (\<lambda>_. now) swarm loads cands busy cl = (cl', Inl e) \<Longrightarrow>
     (\<forall>s \<in> set cands. \<not> available now swarm loads cl s) \<and> e = no_auto_target_error (busy + length cands)"
proof (induction cands arbitrary: busy cl)
  case (Cons s ss)
  show ?case
  proof (cases "available now swarm loads cl s")
    case True
    then show ?thesis
      using Cons.prems by (auto simp: available_def member_has_active_assignment_def try_claim_eq)
  next
    case False
    show ?thesis
    proof (cases "load_of loads s > 0")
      case True
      then show ?thesis using False Cons.prems Cons.IH [of "busy + 1" cl]
        by (auto simp: member_has_active_assignment_def)
    next
      case load: False
      then have "select_loop (\<lambda>_. now) swarm loads ss (busy + 1) (live_claims now cl) = (cl', Inl e)"
        using False Cons.prems by (auto simp: available_def member_has_active_assignment_def try_claim_eq)
      from Cons.IH [OF this] False show ?thesis by simp
    qed
  qed
qed simp

lemma sorted_find_least:
  "sorted (map k xs) \<Longrightarrow> find P xs = Some x \<Longrightarrow> y \<in> set xs \<Longrightarrow> P y \<Longrightarrow> k x \<le> k y"
  by (induction xs) (auto split: if_splits)

text \<open>The planner a task goes back to, when it may be used and nobody has claimed it.\<close>

definition free_planner ::
  "nat \<Rightarrow> (string \<rightharpoonup> swarm_member) \<Rightarrow> string list \<Rightarrow> string \<Rightarrow> string \<Rightarrow> string \<Rightarrow> versioned_plan \<Rightarrow> claims \<Rightarrow> string option" where
  "free_planner now members order req swarm t p cl =
     (case planner_of p t of
        None \<Rightarrow> None
      | Some w \<Rightarrow>
          (if w \<in> set order \<and> is_candidate members req swarm w
              \<and> live_claims now cl (auto_assign_claim_key swarm w) = None then Some w else None))"

lemma rewake_cases:
  assumes "rewake_planner (\<lambda>_. now) members order req swarm t (Some p) cl = (cl', r)"
  shows "r = free_planner now members order req swarm t p cl
    \<and> (case r of None \<Rightarrow> cl' = cl \<or> cl' = live_claims now cl
       | Some w \<Rightarrow> cl' = (live_claims now cl)(auto_assign_claim_key swarm w \<mapsto> now))"
  using assms
  by (cases "planner_of p t")
    (auto simp: rewake_planner_def free_planner_def try_claim_eq filter_swarm_agent_candidates_def is_candidate_def
      split: option.splits if_splits, metis+)

end
