(* ===== verification/Dispatch_Properties.thy ===== *)
theory Dispatch_Properties
  imports Dispatch_Facts Dispatch_Target_Facts Json_Demo
begin

text \<open>
  The properties of the dispatch of tasks to workers.
\<close>

section \<open>A plan and two workers\<close>

text \<open>A deep plan with one task and its gate, and a light one whose task a worker holds.\<close>

definition demo_open_plan :: versioned_plan where
  "demo_open_plan = fst (seed_plan demo_enc demo_dec (Some ''deep'') ''s1'' [spec_from_wire (demo_wire ''a'')] new_plan)"

lemma demo_open_plan_ok: "plan_ok demo_dec demo_open_plan"
  unfolding demo_open_plan_def
  by (rule plan_ok_seed [OF demo_json_law plan_ok_new])
    (simp_all add: storable_def spec_from_wire_def demo_wire_def same_rigor_def new_plan_def)

lemma demo_open_plan_eq:
  "plan_items demo_open_plan = [\<lparr>pi_content = ''a'', pi_status = ''queued'', pi_priority = ''high'', pi_id = ''a'',
     pi_subsystem = None, pi_file_scope = [], pi_blocked_by = [], pi_assigned_to = None\<rparr>,
     plan_items demo_open_plan ! 1]"
  "is_deep_plan demo_open_plan" "next_unassigned_runnable_item_id demo_open_plan = Some ''a''"
  by code_simp+

definition demo_assigned :: versioned_plan where
  "demo_assigned = assign_item 1000 ''s1'' ''w'' ''a'' None ''a'' demo_open_plan"

lemma demo_assign:
  "assign_task_plan ReplayFinal 1000 5000 ''s1'' ''w'' None None (\<lambda>_ t. t) demo_open_plan = (demo_assigned, Inr ''a'')"
proof -
  have "find_item (plan_items demo_open_plan) ''a'' = Some (hd (plan_items demo_open_plan))"
    unfolding find_item_def by (subst (1 2) demo_open_plan_eq(1)) simp
  moreover have "pi_id (hd (plan_items demo_open_plan)) = ''a''" by (subst demo_open_plan_eq(1)) simp
  ultimately show ?thesis
    by (simp add: assign_task_plan_def assign_conflict_def demo_open_plan_eq(3) demo_assigned_def)
qed

definition demo_work :: "string \<Rightarrow> string \<Rightarrow> string option \<Rightarrow> plan_item" where
  "demo_work i st a = \<lparr>pi_content = i, pi_status = st, pi_priority = ''high'', pi_id = i,
     pi_subsystem = None, pi_file_scope = [], pi_blocked_by = [], pi_assigned_to = a\<rparr>"

definition demo_held_plan :: versioned_plan where
  "demo_held_plan = new_plan\<lparr>plan_items := [demo_work ''a'' ''running'' (Some ''w''), demo_work ''b'' ''queued'' (Some ''w''),
       demo_work ''c'' ''done'' (Some ''w''), demo_work ''d'' ''queued'' None],
     task_progress := [''b'' \<mapsto> default_progress\<lparr>dead_assignee_reclaims := Some 3\<rparr>]\<rparr>"


section \<open>Plans\<close>

text \<open>
  C35: Assignments, restarts, ends and failures of turns, heartbeats, staleness sweeps, salvages
  and reclaims, in any order and with any arguments, never close an item of a deep plan:
  deep work is closed only by an artifact. They keep the items and the mode.
\<close>

theorem deep_work_closes_only_by_artifact:
  assumes "is_deep_plan p" "dispatch_step\<^sup>*\<^sup>* p p'"
  shows "completed_item_ids (plan_items p') \<subseteq> completed_item_ids (plan_items p)
    \<and> map pi_id (plan_items p') = map pi_id (plan_items p) \<and> is_deep_plan p'"
  using dispatch_steps_open [OF assms(2,1)] closes_nothing_deep assms(1)
  by (auto simp: closes_nothing_def)

theorem deep_work_closes_only_by_artifact_witness:
  "completed_item_ids (plan_items (end_run_ok 3000 ''a'' (start_run 2000 ''w'' ''a'' ''go'' demo_assigned))) = {}"
proof -
  have "dispatch_step demo_open_plan demo_assigned"
    using dispatch_step.assigning [of demo_open_plan] demo_assign by (metis fst_conv)
  then have "dispatch_step\<^sup>*\<^sup>* demo_open_plan (end_run_ok 3000 ''a'' (start_run 2000 ''w'' ''a'' ''go'' demo_assigned))"
    using dispatch_step.starting dispatch_step.ending by (meson rtranclp.rtrancl_into_rtrancl rtranclp.rtrancl_refl)
  from deep_work_closes_only_by_artifact [OF demo_open_plan_eq(2) this]
  have "completed_item_ids (plan_items (end_run_ok 3000 ''a'' (start_run 2000 ''w'' ''a'' ''go'' demo_assigned)))
      \<subseteq> completed_item_ids (plan_items demo_open_plan)" by blast
  also have "\<dots> = {}" by code_simp
  finally show ?thesis by simp
qed

text \<open>
  C36: Refinement: assigning a task and starting its worker is one dispatch of the engine on the
  lifted plan, which succeeds, and leaves a plan the engine can reach. An automatic choice
  needs nothing more; a task named in the request must be waiting.
\<close>

theorem assign_and_start_is_dispatch:
  assumes "plan_ok dec p" "assign_task_plan md now stale_ms req target task message prompt p = (p1, Inr t)"
    "task = None \<or> lifts_queued p t"
  shows "dispatch (to_task_graph dec p) t target = (to_task_graph dec (start_run now' target t run_prompt p1), True)
    \<and> plan_ok dec (start_run now' target t run_prompt p1)"
proof -
  have r: "reachable (parse_mode (plan_mode p)) (to_task_graph dec p)" using assms(1) by (simp add: plan_ok_def)
  then have "distinct (map pi_id (plan_items p))"
    using reachable_struct struct_unique unfolding distinct_items_lift [of p dec] by blast
  note d = assign_start_dispatches [OF this assms(2,3), of dec now' run_prompt]
  show ?thesis using d plan_okI [OF reach_step [OF r step_dispatch [OF d]]] by blast
qed

theorem assign_and_start_is_dispatch_witness:
  "dispatch (to_task_graph demo_dec demo_open_plan) ''a'' ''w''
     = (to_task_graph demo_dec (start_run 2000 ''w'' ''a'' ''go'' demo_assigned), True)"
  using assign_and_start_is_dispatch [OF demo_open_plan_ok demo_assign] by blast

text \<open>
  What keeps a worker active on its task: the assignment, the start of its turn, its
  heartbeats; the last argument is the time of the last of them.
\<close>

inductive active_on :: "string \<Rightarrow> string \<Rightarrow> versioned_plan \<Rightarrow> u64 \<Rightarrow> bool" for target t where
  on_assignment: "assign_task_plan md now stale_ms req target task message prompt p = (p', Inr t) \<Longrightarrow>
    active_on target t p' now"
| on_start: "active_on target t p since \<Longrightarrow> active_on target t (start_run now target t run_prompt p) now"
| on_heartbeat: "active_on target t p since \<Longrightarrow>
    active_on target t (fst (touch_swarm_task_progress now t session detail summary p)) now"

lemma active_on_fields:
  assumes "active_on target t p since"
  shows "\<exists>i pr. find_item (plan_items p) t = Some i \<and> pi_assigned_to i = Some target
    \<and> pi_status i \<in> {''queued'', ''running''} \<and> task_progress p t = Some pr \<and> last_activity pr = Some since"
  using assms
proof (induction rule: active_on.induct)
  case (on_assignment md now stale_ms req task message prompt p p')
  then show ?case
    by (elim assign_okD) (simp add: find_after_assign progress_after_assign assignment_progress_def
        default_progress_def last_activity_def)
next
  case (on_start p since now run_prompt)
  then obtain i where i: "find_item (plan_items p) t = Some i" "pi_assigned_to i = Some target" by blast
  obtain pr where "task_progress (start_run now target t run_prompt p) t = Some pr"
    "last_heartbeat_unix_ms pr = Some now" using progress_after_start [OF i(1)] by blast
  then show ?case using i by (auto simp: find_after_start last_activity_def)
next
  case (on_heartbeat p since now session detail summary)
  then obtain i where i: "find_item (plan_items p) t = Some i" "pi_assigned_to i = Some target"
    "pi_status i \<in> {''queued'', ''running''}" by blast
  then have "pi_status i \<noteq> ''running_stale''" by auto
  then show ?case
    using i by (auto simp: touch_swarm_task_progress_def find_update_first_item update_task_progress
        touch_progress_def last_activity_def Let_def split: option.split)
qed

text \<open>
  C37: while a worker was active on its task within the staleness window, every direct
  request that assigns the task (\<open>assign_task\<close>, the mode \<open>ReplayFinal\<close>) is refused and
  leaves the plan as it is; the refusal names the worker. Task control is exempt: its
  retries and hand-offs (\<open>AlwaysDispatch\<close>) take over on purpose.
\<close>

theorem active_assignment_is_kept:
  assumes "active_on target t p since" "u64_sub now since < stale_ms"
  shows "assign_task_plan ReplayFinal now stale_ms req other (Some t) message prompt p
    = (p, Inl (active_assignment_error t (target, u64_sub now since)))"
  using active_on_fields [OF assms(1)] assms(2)
  by (auto intro!: conflict_refuses simp: assign_conflict_def active_assignment_conflict_def)

theorem active_assignment_is_kept_witness:
  "assign_task_plan ReplayFinal 3000 5000 ''s2'' ''v'' (Some ''a'') None (\<lambda>_ t. t) demo_assigned
    = (demo_assigned, Inl (active_assignment_error ''a'' (''w'', 2000)))"
proof -
  have "u64_sub 3000 1000 = 2000" by (simp add: u64_sub_def)
  then show ?thesis
    using active_assignment_is_kept [OF active_on.on_assignment [OF demo_assign], of 3000 5000 "''s2''" "''v''" None]
    by simp
qed

text \<open>
  C38: A salvage frees exactly the unfinished tasks of the dead worker: each goes back to the
  queue without an assignee and its counter of reclaims rises by one, unless the counter
  has reached its cap; then it fails. Nothing else changes among items and counters.
\<close>

theorem salvage_frees_dead_assignments:
  assumes "distinct (map pi_id (plan_items p))" "salvage_plan_assignments_of now session p = (p', out)"
  shows "plan_items p' = map (\<lambda>i. if held_by session i then salvaged_item p i else i) (plan_items p)
    \<and> requeued_task_ids out = map pi_id (filter
        (\<lambda>i. held_by session i \<and> reclaims p (pi_id i) < max_dead_assignee_reclaims) (plan_items p))
    \<and> failed_task_ids out = map pi_id (filter
        (\<lambda>i. held_by session i \<and> \<not> reclaims p (pi_id i) < max_dead_assignee_reclaims) (plan_items p))
    \<and> reclaims p' = (\<lambda>t. if t \<in> set (requeued_task_ids out) then reclaims p t + 1 else reclaims p t)"
proof -
  let ?ts = "map pi_id (filter (held_by session) (plan_items p))"
  have ts: "distinct ?ts" using assms(1) by (rule distinct_map_filter)
  have "\<forall>t \<in> set ?ts. \<exists>i \<in> set (plan_items p). pi_id i = t \<and> pi_assigned_to i \<noteq> None"
    by (auto simp: held_by_def)
  from salvage_many [OF assms(1) ts this assms(2) [unfolded salvage_plan_assignments_of_def]]
  have m: "plan_items p' = map (\<lambda>i. if pi_id i \<in> set ?ts then salvaged_item p i else i) (plan_items p)"
    "\<And>j. reclaims p' j = (if j \<in> set ?ts \<and> reclaims p j < max_dead_assignee_reclaims then reclaims p j + 1 else reclaims p j)"
    "requeued_task_ids out = filter (\<lambda>t. reclaims p t < max_dead_assignee_reclaims) ?ts"
    "failed_task_ids out = filter (\<lambda>t. \<not> reclaims p t < max_dead_assignee_reclaims) ?ts" by simp_all
  have "pi_id i \<in> set ?ts \<longleftrightarrow> held_by session i" if "i \<in> set (plan_items p)" for i
    using that distinct_key_eq [OF assms(1) that] by auto
  then have "plan_items p' = map (\<lambda>i. if held_by session i then salvaged_item p i else i) (plan_items p)"
    unfolding m(1) by (auto intro: map_cong)
  moreover have "reclaims p' = (\<lambda>t. if t \<in> set (requeued_task_ids out) then reclaims p t + 1 else reclaims p t)"
    by (rule ext) (simp only: m(2,3) set_filter mem_Collect_eq)
  ultimately show ?thesis using m(3,4) by (simp add: filter_map o_def conj_commute)
qed

theorem salvage_frees_dead_assignments_witness:
  "plan_items (fst (salvage_plan_assignments_of 9 ''w'' demo_held_plan))
     = [demo_work ''a'' ''queued'' None, demo_work ''b'' ''failed'' None,
        demo_work ''c'' ''done'' (Some ''w''), demo_work ''d'' ''queued'' None]"
proof -
  have "distinct (map pi_id (plan_items demo_held_plan))" by (simp add: demo_held_plan_def demo_work_def)
  moreover obtain p' out where s: "salvage_plan_assignments_of 9 ''w'' demo_held_plan = (p', out)" by (rule prod.exhaust)
  ultimately have "plan_items p'
      = map (\<lambda>i. if held_by ''w'' i then salvaged_item demo_held_plan i else i) (plan_items demo_held_plan)"
    using salvage_frees_dead_assignments by blast
  also have "\<dots> = [demo_work ''a'' ''queued'' None, demo_work ''b'' ''failed'' None,
        demo_work ''c'' ''done'' (Some ''w''), demo_work ''d'' ''queued'' None]"
    by (simp add: demo_held_plan_def demo_work_def held_by_def is_terminal_status_def salvaged_item_def
        reclaims_def max_dead_assignee_reclaims_def)
  finally show ?thesis using s by simp
qed

section \<open>Workers\<close>

text \<open>
  C39: Concurrent picks take different workers: between two picks that claim the same worker
  there was a release of its claim, or the claim's time to live has passed, whatever other
  picks and releases happen in between.
\<close>

theorem claims_exclusive:
  assumes "try_claim_auto_assign_target t1 swarm session cl = (cl1, True)"
    and "sorted (t1 # List.map_filter event_time es @ [t2])"
    and "\<not> list_ex (releases (auto_assign_claim_key swarm session)) es"
    and "try_claim_auto_assign_target t2 swarm session (fold claim_event_step es cl1) = (cl2, True)"
  shows "t1 + auto_assign_claim_ttl \<le> t2"
proof -
  have "claim_stands (auto_assign_claim_key swarm session) t1 t1 cl1"
    using claimed [OF assms(1)] by (simp add: claim_stands_def)
  from claim_stands_events [OF this order_refl assms(2,3)] claimed [OF assms(4)]
  show ?thesis by (auto simp: claim_stands_def live_claims_def auto_assign_claim_ttl_def split: if_splits)
qed

theorem claims_exclusive_witness:
  "snd (try_claim_auto_assign_target 200 ''sw'' ''w'' (fold claim_event_step [TryClaim 150 ''sw'' ''v'', ReleaseClaim ''sw'' ''v'']
      (fst (try_claim_auto_assign_target 100 ''sw'' ''w'' Map.empty)))) = False"
proof (rule ccontr)
  let ?es = "[TryClaim 150 ''sw'' ''v'', ReleaseClaim ''sw'' ''v'']"
  let ?cl = "fst (try_claim_auto_assign_target 100 ''sw'' ''w'' Map.empty)"
  have 1: "try_claim_auto_assign_target 100 ''sw'' ''w'' Map.empty = (?cl, True)"
    by (simp add: try_claim_eq live_claims_def)
  assume "snd (try_claim_auto_assign_target 200 ''sw'' ''w'' (fold claim_event_step ?es ?cl)) \<noteq> False"
  then obtain cl2 where 2: "try_claim_auto_assign_target 200 ''sw'' ''w'' (fold claim_event_step ?es ?cl) = (cl2, True)"
    by (metis (full_types) prod.collapse)
  have s: "sorted (100 # List.map_filter event_time ?es @ [200])" by (simp add: map_filter_simps)
  have n: "\<not> list_ex (releases (auto_assign_claim_key ''sw'' ''w'')) ?es" by (simp add: auto_assign_claim_key_def nl_def)
  from claims_exclusive [OF 1 s n 2] show False by (simp add: auto_assign_claim_ttl_def)
qed



section \<open>Task control\<close>

text \<open>
  A task-control request that is granted concerns an unfinished, assigned task; it goes on
  with the assignee, or moves the task to another session only when it is not running.
\<close>

theorem control_never_moves_running_work:
  assumes "control_task action t target message salvage p = Inr d"
  shows "\<exists>i a. find_item (plan_items p) t = Some i \<and> pi_assigned_to i = Some a
    \<and> \<not> is_completed_status (pi_status i)
    \<and> (case d of Continue w \<Rightarrow> w = a | Redispatch w txt \<Rightarrow> w = a \<or> pi_status i \<noteq> ''running'')"
  using assms
  by (cases action)
    (auto simp: control_task_def continue_with_def hand_off_def is_completed_status_def
      split: option.splits if_splits)

section \<open>Divergences\<close>

text \<open>
  An assignment starts the progress of its task afresh, with the counters that bound the
  automatic retries in it: neither of their caps is ever reached by reassigned work.
\<close>

lemma assignment_forgets_counters:
  assumes "assign_task_plan md now stale_ms req target task message prompt p = (p1, Inr t)"
  shows "prior_requeues p1 t = 0 \<and> reclaims p1 t = 0"
  using assms
  by (elim assign_okD)
    (simp add: prior_requeues_def reclaims_def progress_after_assign assignment_progress_def default_progress_def)

lemma deep_task_requeued_forever:
  assumes "is_deep_plan p" "assign_task_plan md now stale_ms req target task message prompt p = (p1, Inr t)"
  shows "\<exists>i. find_item (plan_items (end_run_ok later t (start_run now' target t run_prompt p1))) t = Some i
    \<and> pi_status i = ''queued'' \<and> pi_assigned_to i = None"
proof -
  obtain i where i: "find_item (plan_items p) t = Some i"
    and p1: "p1 = assign_item now req target (prompt p t) message t p"
    using assms(2) by (rule assign_okD)
  obtain j where j: "find_item (plan_items p1) t = Some j" using find_after_assign [OF i] p1 by blast
  let ?q = "start_run now' target t run_prompt p1"
  have "is_deep_plan ?q" using assms(1) assigned_then_started(2) [OF i] by (simp add: is_deep_plan_def p1)
  moreover have "prior_requeues ?q t = 0"
    using progress_after_start [OF j, of now' target run_prompt] assignment_forgets_counters [OF assms(2)]
    by (auto simp: prior_requeues_def)
  ultimately show ?thesis
    using find_after_start [OF j, of now' target run_prompt]
    by (simp add: end_run_ok_def decide_turn_end_def apply_turn_end_def find_update_first_item)
qed

text \<open>A turn that ends in an error fails its task, even one that was completed meanwhile.\<close>

lemma late_error_fails_completed_task:
  "find_item (plan_items p) t = Some i \<Longrightarrow>
     find_item (plan_items (end_run_error now t e p)) t = Some (i\<lparr>pi_status := ''failed''\<rparr>)"
  by (simp add: end_run_error_def find_update_first_item)

text \<open>
  The end of a turn does not ask whose turn it was: the end of a displaced worker's turn
  closes a light task that its new assignee is running.
\<close>

lemma displaced_turn_closes_task:
  assumes "\<not> is_deep_plan p" "find_item (plan_items p) t = Some i" "pi_status i = ''running''"
    "\<not> is_open_composite p t"
  shows "find_item (plan_items (end_run_ok now t p)) t = Some (i\<lparr>pi_status := ''done''\<rparr>)"
  using assms by (simp add: end_run_ok_def decide_turn_end_def apply_turn_end_def find_update_first_item)

text \<open>
  The loads are read before the worker is claimed: a request that read them before another
  one assigned a task to a worker picks that worker as soon as the other's claim is released.
\<close>

lemma stale_loads_double_book:
  "select_and_claim_auto_target (\<lambda>_. now) swarm [w] Map.empty
     (release_auto_assign_claim swarm w (fst (select_and_claim_auto_target (\<lambda>_. now) swarm [w] Map.empty Map.empty)))
   = ([auto_assign_claim_key swarm w \<mapsto> now], Inr w)"
  by (simp add: select_and_claim_auto_target_def member_has_active_assignment_def load_of_def try_claim_eq
      live_claims_def release_auto_assign_claim_def fun_eq_iff)

end
