(* ===== verification/Spec2Isabelle.thy ===== *)
theory Spec2Isabelle
  imports Dag_Properties Plan_Properties Live_Properties Run_Properties Team_Properties
    Risk_Properties Compaction_Properties Swarm_Mutation_Properties Dispatch_Properties
begin

text \<open>
  Verification of the swarm engine of next-code: how several agents plan work as a task
  graph, hand it out, audit it and finish it, and how a team of agents on one machine
  shares a task board, lock files and mailboxes; of the classifier that assesses the
  shell commands agents want to run; and of the compaction that keeps the conversation of
  an agent within the context of its model. Sources are under \<open>src/crates/\<close>:
  \<open>next-code-plan\<close> (graph engine, plan items, bridge, simulator),
  \<open>next-code-app-core/src/server/comm_graph.rs\<close> (the live request handlers) and, beside it,
  \<open>comm_control.rs\<close>, \<open>swarm.rs\<close> (dispatch) and \<open>swarm_mutation_state.rs\<close>,
  \<open>next-code-swarm-core\<close> (channel index, team mode), \<open>next-code-command-risk\<close>,
  \<open>next-code-compaction-core\<close> and \<open>next-code-base/src/compaction.rs\<close>.

  \<^bold>\<open>Parts and their interaction.\<close> A plan lives on the server as a \<open>VersionedPlan\<close> of
  items with string statuses (\<open>lib.rs\<close>). A request that edits it lifts the plan into a
  \<open>TaskGraph\<close> (\<open>bridge.rs\<close>, \<open>to_task_graph\<close>), runs one operation of the engine on the
  graph (\<open>dag/ops.rs\<close>: seed, expand, complete, fail, inject, requeue), and lowers the
  result back (\<open>apply_task_graph\<close>). The queue of the server is computed on the items
  (\<open>next_runnable_item_ids\<close>), the scheduler of the engine on the graph
  (\<open>dag/schedule.rs\<close>, \<open>ready_nodes\<close>). In deep mode every composite node and the plan as
  a whole carry a gate: a node that audits its siblings and that the composite, or the
  end of the plan, waits for. Team mode is independent of plans: files under a run
  directory, written under lock files. The classifier is a pure function of a command
  line and two directories; its level decides, in the gate, whether the command runs. The
  compaction manager owns no messages: the agent passes its transcript to every operation,
  and the manager keeps how many messages its summary covers, a rolling size of the rest,
  and a summary being written in the background, which a hard compaction supersedes.
  Requests that change the swarm (spawn, stop, assign, approve) pass through the mutation
  layer: a duplicate joins the running execution of its key or gets its stored response.
  An assignment picks a task and a worker, claims the worker while the plan is written, and
  starts a turn; heartbeats keep it fresh, a sweep marks it stale, and its end, its failure
  or the death of the worker decides what becomes of the task.

  \<^bold>\<open>Theories.\<close>
  \<^item> \<open>Prelude\<close>, \<open>Rust_Str\<close>, \<open>Rust_Num\<close>, \<open>F64\<close>, \<open>Refinement\<close>: results as sums, the
    Rust string, integer-parsing and floating-point operations the code calls, generic
    list facts, the locale of data refinements.
  \<^item> \<open>Kahn\<close>: the locale \<open>kahn_graph\<close> of worklist cycle detection, interpreted for the
    engine (\<open>Dag_Cycle\<close>) and for plan items (\<open>Plan_Facts\<close>).
  \<^item> \<open>Dag_Model\<close>, \<open>Dag_Cycle\<close>, \<open>Dag_Schedule\<close>, \<open>Dag_Ops\<close>: \<open>dag/mod.rs\<close>,
    \<open>dag/schedule.rs\<close>, \<open>dag/ops.rs\<close>; a \<open>TaskGraph\<close> is the record \<open>task_graph\<close>, a
    fallible operation returns \<open>dag_error + task_graph\<close>.
  \<^item> \<open>Dag_Facts\<close> (what each successful operation did), \<open>Dag_Struct\<close>, \<open>Dag_Shape\<close>
    (structure and gates), \<open>Dag_Invariant\<close> (the invariant \<open>good\<close> parts and their
    preservation), \<open>Dag_Engine\<close> (the step relation over all operations, reachability and
    what follows for every reachable graph), \<open>Dag_Mentions\<close> (the id scan of gate
    artifacts), \<open>Dag_Identity\<close> (what no later operation changes), \<open>Dag_Scenario\<close>
    (a deep plan run to its end), \<open>Dag_Properties\<close>.
  \<^item> \<open>Dag_Sim\<close>, \<open>Dag_Replay\<close>, \<open>Run_Properties\<close>: \<open>dag/sim.rs\<close> run to its end, and
    seeding twice.
  \<^item> \<open>Plan_Model\<close>, \<open>Plan_Graph\<close>, \<open>Plan_Facts\<close>, \<open>Plan_Properties\<close>: \<open>lib.rs\<close>.
  \<^item> \<open>Bridge\<close>, \<open>Bridge_Facts\<close>: \<open>bridge.rs\<close>, with the locale \<open>text_codec\<close> for the five
    text codecs.
  \<^item> \<open>Live_Graph\<close>, \<open>Live_Refinement\<close>, \<open>Live_Election\<close>, \<open>Json_Demo\<close>, \<open>Live_Properties\<close>:
    the handlers over the server state, the simulation of the engine by them, the
    election of the coordinator in every interleaving.
  \<^item> \<open>Swarm_Channels\<close>: \<open>ChannelIndex\<close>, with the interpretation of \<open>data_refinement\<close>.
  \<^item> \<open>Team_Spec\<close> (\<open>team/spec.rs\<close>, \<open>paths.rs\<close>, \<open>eligibility.rs\<close>), \<open>Team_Tasks\<close> and
    \<open>Team_Task_Facts\<close> (\<open>tasklist.rs\<close>), \<open>Team_Locks\<close> (\<open>locks.rs\<close>), \<open>Team_State\<close>
    (\<open>state.rs\<close>), \<open>Team_Mailbox\<close> and \<open>Team_Mail_Facts\<close> (\<open>mailbox.rs\<close>),
    \<open>Team_Runtime\<close> and \<open>Team_Runtime_Facts\<close> (\<open>runtime.rs\<close>), \<open>Team_Scenario\<close>,
    \<open>Team_Properties\<close>.
  \<^item> \<open>Risk_Tokens\<close> (\<open>tokenize.rs\<close>), \<open>Risk_Paths\<close> and \<open>Risk_Paths_Facts\<close>
    (\<open>paths.rs\<close> and the Unix paths of the standard library), \<open>Risk_Assess\<close>
    (\<open>lib.rs\<close>, \<open>gate.rs\<close>), \<open>Risk_Facts\<close>, \<open>Risk_Commands\<close> (command lines described
    without the tokenizer and the unwrapper), \<open>Risk_Properties\<close>: the classifier. A
    path is its text; the tokenizer is a recursion over the text with the record
    \<open>lexer\<close> of its local variables.
  \<^item> \<open>Swarm_Mutations\<close>, \<open>Swarm_Mutation_Facts\<close>, \<open>Swarm_Mutation_Properties\<close>:
    \<open>swarm_mutation_state.rs\<close> and \<open>durable_state.rs\<close>, a step relation whose steps are the
    sections under the lock, the accesses to state files and the sends.
  \<^item> \<open>Dispatch_Plan\<close> (the plan sections of assignment, turns, heartbeats, sweep and salvage)
    and \<open>Dispatch_Targets\<close> (candidates, claims, ranking, task control): \<open>comm_control.rs\<close>,
    \<open>swarm.rs\<close>; \<open>Dispatch_Facts\<close>, \<open>Dispatch_Target_Facts\<close>, \<open>Dispatch_Properties\<close>.
  \<^item> \<open>Compaction_Core\<close> and \<open>Compaction_Core_Facts\<close> (\<open>next-code-compaction-core\<close>: sizes,
    safe cutoffs, prompts, truncation and stripping), \<open>Compaction_Manager\<close>
    (\<open>compaction.rs\<close>, the record \<open>manager\<close>), \<open>Compaction_Facts\<close> (the sessions: every
    interleaving of messages, background summaries, operations and restarts, and their
    invariant), \<open>Compaction_Estimate\<close> (the rolling size), \<open>Compaction_Properties\<close>.

  \<^bold>\<open>What is shown.\<close> For every graph the engine can reach: ids are unique,
  edges stay inside, there is no cycle, a started node has its dependencies done, a finished
  node stays finished, a deep composite finishes after its children and their audit, the plan
  after its final audit, and there is always something to do until all is done. The operations
  are characterised exactly (what a success leaves, when they succeed). Plans served by the
  four graph handlers are refinements of reachable graphs, for requests with storable
  priorities that do not change the rigor of a plan with items, so these facts hold live;
  bridge, queue and hydration agree with the engine. The simulator returns. For team mode: the
  board starts work only after its blockers (claims by hand apart) and a claim is exclusive,
  lock files exclude each other, messages are authenticated, bounded and delivered to a prefix
  of the recipients, and a created team with distinct names has every member running. For the
  classifier: chains are assessed command by command, a destructive command with a literal
  protected target is denied in any nesting of the wrappers and shells it knows, the protected
  set is that of a reference on resolved paths, and quoting hides no argument;
  \<open>Risk_Properties\<close> also proves of several command lines that they escape it. For
  compaction: in every session whose transcript only grows a request carries each tool result
  with its call, its last message, and a summary in front of what it leaves out; the safe
  cutoff is the latest one; hard compactions keep a tail and fail without effect; the rolling
  size is exact until a payload is shortened or a message is reported without its content
  (\<open>Compaction_Properties\<close> also proves how it goes wrong then); images are
  stripped minimally and truncation settles at once. For mutation requests: one execution per
  key, each request answered at most once and, once the executions end, exactly once, and
  duplicates that accept it replayed within the lifetime of a response. For dispatch: it closes
  no deep work, an assignment with its start is one dispatch of the engine, active assignments
  are kept against direct requests, a salvage frees exactly the tasks of the dead worker, and a
  pick is the planner or the best free worker, and exclusive;
  \<open>Dispatch_Properties\<close> also proves where the counters, the late ends of turns and
  the claims fall short.

  \<^bold>\<open>Fuel and bounds.\<close> No definition runs on fuel. Loops without structural recursion
  have termination proofs: the cycle detection and the transitive blockers decrease the
  nodes not visited, the gate id search the candidates below the number of nodes plus
  one, the simulator the work of the graph, nested shell scripts the length of the text, a hard compaction
  the turns it keeps. Integers the code could wrap are words
  (priorities, confidence, reclaim counters, versions, the high watermark, the xorshift
  state); lengths and counters bounded by memory are naturals.

  \<^bold>\<open>Outside the model.\<close> \<open>serde_json\<close> is a pair of functions, with the round-trip law as
  a hypothesis where it is used (\<open>json_law\<close>; \<open>Json_Demo\<close> gives a concrete codec). Uuids,
  clocks, tmux and the spawner of members answer through parameters or events. The file
  system is a map from names to contents whose single writes are atomic and may fail;
  fsync, permissions and directory creation are not modelled, and a failing directory
  creation or listing counts as a failing lock. Hash iteration is taken in sorted order
  or over every order, as the theories say.

  The \<open>f32\<close> and \<open>f64\<close> computations of context usage and token growth are exact: values
  are rounded as the standard says. Embedding vectors answer through parameters, and a
  finished background task brings any summary. Sessions only append to the transcript: rewinding it
  (\<open>rewound_request_is_empty\<close> shows what happens then), inserting missing tool results in
  its middle and a provider's own compaction are not steps of them.

  \<^bold>\<open>Not modelled.\<close> The tmux command lines (\<open>team/layout.rs\<close>); the socket protocol,
  session management and status broadcasting of the server around the handlers, the texts
  of its prompts and notifications, the spawning of workers; language
  models, tools and the user interface of the rest of the repository: glue to external
  systems, whose behaviour is theirs.
\<close>

end
